(* ===== verification/Prelude.thy ===== *)
theory Prelude
  imports Main "HOL-Library.Word" "HOL-Library.AList"
begin

text \<open>
  The prelude of the lway development: the names of the machine types the daemon uses, the
  outcome type of operations that can fail or panic, checked and wrapping \<open>usize\<close> arithmetic,
  and the generic facts on lists that several components share.

  Conventions. A Rust \<open>u32\<close>, \<open>u64\<close> or \<open>u8\<close> counter is a word of that width, so its
  additions wrap as they do in the release profile (\<open>overflow-checks = false\<close>). Buffer
  offsets (\<open>usize\<close>) are natural numbers whose additions and subtractions go through
  \<open>usize_add\<close> and \<open>usize_sub\<close>, which write the 64-bit wrap-around out. A \<open>Duration\<close>
  and an \<open>Instant\<close> are natural numbers of nanoseconds. A Rust \<open>String\<close> is an Isabelle
  \<open>string\<close> holding its UTF-8 bytes, one \<open>char\<close> per byte; raw byte buffers are lists of
  8-bit words.
\<close>

section \<open>Machine types\<close>

type_synonym byte = "8 word"
type_synonym bytes = "8 word list"
type_synonym u32 = "32 word"
type_synonym u64 = "64 word"

text \<open>Nanoseconds.\<close>

type_synonym duration = nat
type_synonym instant = nat

abbreviation ns_per_ms :: nat where
  "ns_per_ms \<equiv> 1000000"

text \<open>\<open>Duration::from_millis\<close>.\<close>

definition from_millis :: "nat \<Rightarrow> duration" where
  "from_millis ms = ms * ns_per_ms"

text \<open>\<open>Instant::saturating_duration_since\<close> and \<open>Instant::elapsed\<close>: truncating subtraction.\<close>

definition duration_since :: "instant \<Rightarrow> instant \<Rightarrow> duration" where
  "duration_since later earlier = later - earlier"

section \<open>usize arithmetic\<close>

definition usize_bound :: nat where
  "usize_bound = 2 ^ 64"

definition usize_add :: "nat \<Rightarrow> nat \<Rightarrow> nat" where
  "usize_add a b = (a + b) mod usize_bound"

definition usize_sub :: "nat \<Rightarrow> nat \<Rightarrow> nat" where
  "usize_sub a b = (if b \<le> a then a - b else usize_bound + a - b)"

text \<open>\<open>usize::saturating_sub\<close> is the truncating subtraction of natural numbers.\<close>

definition saturating_sub :: "nat \<Rightarrow> nat \<Rightarrow> nat" where
  "saturating_sub a b = a - b"

named_theorems usize_simps "usize operations that do not wrap"

lemma usize_add_eq [usize_simps]: "a + b < usize_bound \<Longrightarrow> usize_add a b = a + b"
  by (simp add: usize_add_def)

lemma usize_sub_eq [usize_simps]: "b \<le> a \<Longrightarrow> usize_sub a b = a - b"
  by (simp add: usize_sub_def)

lemma usize_add_less: "usize_add a b < usize_bound"
  by (simp add: usize_add_def usize_bound_def)

section \<open>Outcomes\<close>

text \<open>
  A call of the daemon returns \<open>Ok\<close>, returns \<open>Err\<close>, or panics (an \<open>expect\<close>, an
  \<open>unwrap\<close>, an explicit \<open>panic!\<close>): the release and dev profiles both set
  \<open>panic = "abort"\<close>, so a panic ends the process.
\<close>

datatype ('e, 'a) outcome = Ok 'a | Err 'e | Panic string

fun map_err :: "('e \<Rightarrow> 'f) \<Rightarrow> ('e, 'a) outcome \<Rightarrow> ('f, 'a) outcome" where
  "map_err f (Ok a) = Ok a"
| "map_err f (Err e) = Err (f e)"
| "map_err f (Panic m) = Panic m"

text \<open>\<open>result.expect(msg)\<close>.\<close>

fun expect :: "string \<Rightarrow> ('e, 'a) outcome \<Rightarrow> ('f, 'a) outcome" where
  "expect m (Ok a) = Ok a"
| "expect m (Err e) = Panic m"
| "expect m (Panic p) = Panic p"

lemma expect_Ok [simp]: "expect m x = Ok a \<longleftrightarrow> x = Ok a" "Ok a = expect m x \<longleftrightarrow> x = Ok a"
  by (cases x; auto)+

lemma expect_Err [simp]: "expect m x \<noteq> Err e" "Err e \<noteq> expect m x"
  by (cases x; simp)+

lemma map_err_Ok [simp]: "map_err f x = Ok a \<longleftrightarrow> x = Ok a" "Ok a = map_err f x \<longleftrightarrow> x = Ok a"
  by (cases x; auto)+

text \<open>
  I/O errors: the two kinds the code tells apart, the ones the standard library makes up itself,
  and every other by its errno.
\<close>

datatype io_error = WouldBlock | Interrupted | UnexpectedEof | InvalidData | WriteZero | Errno nat

text \<open>
  Computations over a threaded state \<open>'c\<close> (the token slab, the registry and the record of
  system calls) that end in an outcome; the state survives an error, as the effects of the
  calls made before a \<open>?\<close> do.
\<close>

type_synonym ('c, 'e, 'a) run = "'c \<Rightarrow> ('e, 'a) outcome \<times> 'c"

definition ret :: "'a \<Rightarrow> ('c, 'e, 'a) run" where
  "ret a = (\<lambda>c. (Ok a, c))"

definition fail :: "'e \<Rightarrow> ('c, 'e, 'a) run" where
  "fail e = (\<lambda>c. (Err e, c))"

definition bindM :: "('c, 'e, 'a) run \<Rightarrow> ('a \<Rightarrow> ('c, 'e, 'b) run) \<Rightarrow> ('c, 'e, 'b) run" where
  "bindM m f = (\<lambda>c. case m c of (Ok a, c') \<Rightarrow> f a c' | (Err e, c') \<Rightarrow> (Err e, c') | (Panic p, c') \<Rightarrow> (Panic p, c'))"

definition lift_outcome :: "('e, 'a) outcome \<Rightarrow> ('c, 'e, 'a) run" where
  "lift_outcome r = (\<lambda>c. (r, c))"

lemma bindM_Ok: "bindM m f c = (Ok b, c'') \<longleftrightarrow> (\<exists>a c'. m c = (Ok a, c') \<and> f a c' = (Ok b, c''))"
  by (auto simp: bindM_def split: prod.splits outcome.splits)

lemma bindM_cases:
  "bindM m f c = (r, c'') \<longleftrightarrow>
     (\<exists>a c'. m c = (Ok a, c') \<and> f a c' = (r, c''))
   \<or> (\<exists>e. m c = (Err e, c'') \<and> r = Err e)
   \<or> (\<exists>p. m c = (Panic p, c'') \<and> r = Panic p)"
  by (auto simp: bindM_def split: prod.splits outcome.splits)

lemma ret_eq [simp]: "ret a c = (r, c') \<longleftrightarrow> r = Ok a \<and> c' = c"
  by (auto simp: ret_def)

lemma fail_eq [simp]: "fail e c = (r, c') \<longleftrightarrow> r = Err e \<and> c' = c"
  by (auto simp: fail_def)

lemma lift_outcome_eq [simp]: "lift_outcome x c = (r, c') \<longleftrightarrow> r = x \<and> c' = c"
  by (auto simp: lift_outcome_def)

section \<open>Short transfers\<close>

text \<open>
  A \<open>read\<close>, \<open>write\<close> or \<open>splice\<close> that may transfer up to \<open>m\<close> bytes moves some number
  between 1 and \<open>m\<close> chosen by the kernel; \<open>q\<close> is the kernel's choice.
\<close>

definition transfer :: "nat \<Rightarrow> nat \<Rightarrow> nat" where
  "transfer q m = max 1 (min q m)"

lemma transfer_pos [simp]: "0 < transfer q m"
  by (simp add: transfer_def)

lemma transfer_le: "0 < m \<Longrightarrow> transfer q m \<le> m"
  by (simp add: transfer_def)

section \<open>Lists\<close>

text \<open>The elements of \<open>xs\<close> at the offsets \<open>[i, j)\<close>: Rust's \<open>xs[i..j]\<close>.\<close>

definition seg :: "nat \<Rightarrow> nat \<Rightarrow> 'a list \<Rightarrow> 'a list" where
  "seg i j xs = take (j - i) (drop i xs)"

lemma length_seg [simp]: "length (seg i j xs) = min (j - i) (length xs - i)"
  by (simp add: seg_def)

lemma nth_seg [simp]: "k < j - i \<Longrightarrow> i + k < length xs \<Longrightarrow> seg i j xs ! k = xs ! (i + k)"
  by (simp add: seg_def)

lemma seg_append_seg:
  assumes "i \<le> j" and "j \<le> k"
  shows "seg i j xs @ seg j k xs = seg i k xs"
proof -
  have "take (j - i + (k - j)) (drop i xs) =
      take (j - i) (drop i xs) @ take (k - j) (drop (j - i) (drop i xs))"
    by (rule take_add)
  with assms show ?thesis
    by (simp add: seg_def)
qed

lemma seg_empty [simp]: "j \<le> i \<Longrightarrow> seg i j xs = []"
  by (simp add: seg_def)

lemma seg_to_end: "length xs \<le> j \<Longrightarrow> seg i j xs = drop i xs"
  by (simp add: seg_def)

lemma seg_full [simp]: "seg 0 (length xs) xs = xs"
  by (simp add: seg_def)

lemma take_seg: "take n (seg i j xs) = seg i (min (i + n) j) xs"
  by (auto simp: seg_def min_def)

lemma seg_append_left: "j \<le> length xs \<Longrightarrow> seg i j (xs @ ys) = seg i j xs"
  by (cases "i \<le> j") (auto simp: seg_def)

end
