(* ===== verification/F64.thy ===== *)
theory F64
  imports Complex_Main Prelude "HOL-Library.Log_Nat"
begin

text \<open>
  The part of Rust's \<open>f64\<close> that \<open>src/src/restart.rs\<close> computes with: IEEE 754 binary64
  values (the two zeros are not told apart, nothing in the code can), rounding to nearest with
  ties to even, the conversion from \<open>u64\<close>, multiplication, \<open>f64::min\<close> and the saturating
  cast \<open>as u64\<close>. \<open>f64::powi\<close> has an unspecified precision by its documentation; it is a
  parameter of the operations that use it.
\<close>

datatype f64 = NaN | PInf | NInf | Fin rat

section \<open>Rounding\<close>

definition pow2 :: "int \<Rightarrow> rat" where
  "pow2 e = (if 0 \<le> e then 2 ^ nat e else 1 / 2 ^ nat (- e))"

text \<open>The exponent of the leading bit of a positive rational.\<close>

definition ilog2 :: "rat \<Rightarrow> int" where
  "ilog2 x =
     (let (p, q) = quotient_of x;
          k = int (floorlog 2 (nat p)) - int (floorlog 2 (nat q))
      in if pow2 k \<le> x then k else k - 1)"

definition round_even :: "rat \<Rightarrow> int" where
  "round_even x =
     (let f = \<lfloor>x\<rfloor>; d = x - of_int f
      in if d < 1/2 then f else if d > 1/2 then f + 1 else if even f then f else f + 1)"

text \<open>
  The last bit of a double weighs \<open>2 ^ e\<close> with \<open>e\<close> 52 below the leading bit, and no less
  than the subnormal \<open>2 ^ (-1074)\<close>; magnitudes that round to \<open>2 ^ 1024\<close> overflow.
\<close>

definition ulp_exp :: "rat \<Rightarrow> int" where
  "ulp_exp x = max (ilog2 \<bar>x\<bar> - 52) (- 1074)"

definition f64_overflow :: rat where
  "f64_overflow = 2 ^ 1024"

definition round_f64 :: "rat \<Rightarrow> f64" where
  "round_f64 x =
     (if x = 0 then Fin 0
      else let u = pow2 (ulp_exp x); r = of_int (round_even (x / u)) * u
           in if f64_overflow \<le> r then PInf else if r \<le> - f64_overflow then NInf else Fin r)"

definition f64_of_nat :: "nat \<Rightarrow> f64" where
  "f64_of_nat n = round_f64 (of_nat n)"

section \<open>Arithmetic and comparison\<close>

text \<open>The sign of an infinity times a finite value; zero times infinity is NaN.\<close>

definition scale_inf :: "f64 \<Rightarrow> f64 \<Rightarrow> rat \<Rightarrow> f64" where
  "scale_inf pos neg x = (if x = 0 then NaN else if 0 < x then pos else neg)"

instantiation f64 :: times
begin

fun times_f64 :: "f64 \<Rightarrow> f64 \<Rightarrow> f64" where
  "times_f64 NaN _ = NaN"
| "times_f64 _ NaN = NaN"
| "times_f64 (Fin x) (Fin y) = round_f64 (x * y)"
| "times_f64 PInf (Fin y) = scale_inf PInf NInf y"
| "times_f64 NInf (Fin y) = scale_inf NInf PInf y"
| "times_f64 (Fin x) PInf = scale_inf PInf NInf x"
| "times_f64 (Fin x) NInf = scale_inf NInf PInf x"
| "times_f64 PInf PInf = PInf"
| "times_f64 PInf NInf = NInf"
| "times_f64 NInf PInf = NInf"
| "times_f64 NInf NInf = PInf"

instance ..

end

text \<open>The IEEE comparisons: every comparison with a NaN is false.\<close>

instantiation f64 :: ord
begin

fun less_f64 :: "f64 \<Rightarrow> f64 \<Rightarrow> bool" where
  "less_f64 (Fin x) (Fin y) = (x < y)"
| "less_f64 NInf (Fin y) = True"
| "less_f64 NInf PInf = True"
| "less_f64 (Fin x) PInf = True"
| "less_f64 _ _ = False"

fun less_eq_f64 :: "f64 \<Rightarrow> f64 \<Rightarrow> bool" where
  "less_eq_f64 NaN _ = False"
| "less_eq_f64 _ NaN = False"
| "less_eq_f64 (Fin x) (Fin y) = (x \<le> y)"
| "less_eq_f64 NInf _ = True"
| "less_eq_f64 _ PInf = True"
| "less_eq_f64 _ _ = False"

instance ..

end

text \<open>\<open>f64::min\<close>: a NaN operand is ignored.\<close>

definition f64_min :: "f64 \<Rightarrow> f64 \<Rightarrow> f64" where
  "f64_min a b = (if a = NaN then b else if b = NaN then a else if a < b then a else b)"

text \<open>The cast \<open>as u64\<close>: NaN is 0, everything else truncates and saturates.\<close>

fun f64_to_u64 :: "f64 \<Rightarrow> nat" where
  "f64_to_u64 NaN = 0"
| "f64_to_u64 PInf = 2 ^ 64 - 1"
| "f64_to_u64 NInf = 0"
| "f64_to_u64 (Fin x) = min (nat \<lfloor>x\<rfloor>) (2 ^ 64 - 1)"

section \<open>Facts\<close>

lemma pow2_pos [simp]: "0 < pow2 e"
  by (simp add: pow2_def)

lemma round_even_of_int [simp]: "round_even (of_int z) = z"
  by (simp add: round_even_def Let_def)

lemma ilog2_of_nat_le:
  assumes "0 < n" and "n < 2 ^ w" and "0 < w"
  shows "ilog2 (of_nat n) \<le> int w - 1"
proof -
  from assms have "floorlog 2 n \<le> w"
    by (simp add: floorlog_leI)
  moreover have "floorlog 2 (Suc 0) = 1"
    by (simp add: floorlog_def)
  ultimately show ?thesis
    by (auto simp: ilog2_def Let_def)
qed

lemma of_nat_less_overflow: "n < 2 ^ 53 \<Longrightarrow> (of_nat n :: rat) < f64_overflow"
proof -
  assume "n < 2 ^ 53"
  also have "(2 :: nat) ^ 53 \<le> 2 ^ 1024"
    by (rule power_increasing) simp_all
  finally have "(of_nat n :: rat) < of_nat (2 ^ 1024)"
    by (simp only: of_nat_less_iff)
  then show ?thesis
    by (simp only: f64_overflow_def of_nat_power of_nat_numeral)
qed

text \<open>Integers below \<open>2 ^ 53\<close> are doubles: rounding leaves them alone.\<close>

lemma round_f64_of_nat [simp]:
  assumes "n < 2 ^ 53"
  shows "round_f64 (of_nat n) = Fin (of_nat n)"
proof (cases "n = 0")
  case True
  then show ?thesis by (simp add: round_f64_def)
next
  case False
  then have "ilog2 (of_nat n) \<le> 52"
    using ilog2_of_nat_le [of n 53] assms by simp
  then have e: "ulp_exp (of_nat n) \<le> 0"
    by (simp add: ulp_exp_def)
  define k where "k = nat (- ulp_exp (of_nat n))"
  have u: "pow2 (ulp_exp (of_nat n)) = 1 / 2 ^ k"
    using e by (auto simp: pow2_def k_def)
  have "(of_nat n :: rat) * 2 ^ k = of_int (int n * 2 ^ k)"
    by simp
  then have r: "round_even ((of_nat n :: rat) * 2 ^ k) = int n * 2 ^ k"
    by (simp only: round_even_of_int)
  have b: "(of_nat n :: rat) < f64_overflow"
    using assms by (rule of_nat_less_overflow)
  then have "\<not> (of_nat n :: rat) \<le> - f64_overflow"
    using of_nat_0_le_iff [of n, where ?'a = rat] by linarith
  with False b show ?thesis
    by (simp add: round_f64_def u r Let_def not_le)
qed

lemma f64_of_nat_exact: "n < 2 ^ 53 \<Longrightarrow> f64_of_nat n = Fin (of_nat n)"
  by (simp add: f64_of_nat_def)

lemma f64_to_u64_of_nat: "n < 2 ^ 64 \<Longrightarrow> f64_to_u64 (Fin (of_nat n)) = n"
  by simp

text \<open>The capped value never casts to more than the cap.\<close>

lemma f64_to_u64_min_le: "b \<noteq> NaN \<Longrightarrow> f64_to_u64 (f64_min a b) \<le> f64_to_u64 b"
proof -
  assume b: "b \<noteq> NaN"
  have "x < y \<Longrightarrow> nat \<lfloor>x\<rfloor> \<le> nat \<lfloor>y\<rfloor>" for x y :: rat
    by (simp add: floor_mono nat_mono less_imp_le)
  with b show ?thesis
    by (cases a; cases b) (auto simp: f64_min_def min_le_iff_disj)
qed

lemma f64_min_of_nat: "f64_min (Fin (of_nat a)) (Fin (of_nat b)) = Fin (of_nat (min a b))"
  by (simp add: f64_min_def min_def not_less)

end
