(* ===== verification/Restart.thy ===== *)
theory Restart
  imports F64
begin

text \<open>
  The restart policy, \<open>src/src/restart.rs\<close>: the delay strategies, the delay before the n-th
  consecutive restart, and the policy record with its defaults. The lemmas give the exact delay
  of each strategy, the cap that an exponential backoff never exceeds whatever \<open>powi\<close>
  returns, and the doubling sequence the defaults produce.
\<close>

section \<open>Strategies\<close>

datatype restart_delay =
    Never
  | Constant (delay_ms: nat)
  | ExponentialBackoff (initial_delay_ms: nat) (max_delay_ms: nat) (multiplier: f64)

definition default_constant_delay_ms :: nat where
  "default_constant_delay_ms = 1000"

definition default_backoff_multiplier :: f64 where
  "default_backoff_multiplier = Fin 2"

text \<open>\<open>impl Default for RestartDelay\<close>.\<close>

definition restart_delay_default :: restart_delay where
  "restart_delay_default = Constant default_constant_delay_ms"

definition is_never :: "restart_delay \<Rightarrow> bool" where
  "is_never s = (case s of Never \<Rightarrow> True | _ \<Rightarrow> False)"

text \<open>
  \<open>attempt.saturating_sub(1) as i32\<close>: the subtraction saturates at 0, the cast reads the 32
  bits as two's complement.
\<close>

definition backoff_exponent :: "u32 \<Rightarrow> int" where
  "backoff_exponent attempt = sint (if attempt = 0 then 0 else attempt - 1)"

text \<open>\<open>f64_powi\<close> is \<open>f64::powi\<close>, whose precision the standard library leaves open.\<close>

definition delay_for :: "(f64 \<Rightarrow> int \<Rightarrow> f64) \<Rightarrow> restart_delay \<Rightarrow> u32 \<Rightarrow> duration" where
  "delay_for f64_powi s attempt =
     (case s of
        Never \<Rightarrow> 0
      | Constant ms \<Rightarrow> from_millis ms
      | ExponentialBackoff initial_ms max_ms mult \<Rightarrow>
          (let factor = f64_powi mult (backoff_exponent attempt);
               scaled_ms = f64_min (f64_of_nat initial_ms * factor) (f64_of_nat max_ms)
           in from_millis (f64_to_u64 scaled_ms)))"

section \<open>Policies\<close>

record restart_policy =
  on_success :: restart_delay
  on_error :: restart_delay
  reset_after_ms :: nat
  max_restart_attempts :: "u32 option"

definition restart_policy_default :: restart_policy where
  "restart_policy_default =
     \<lparr>on_success = restart_delay_default, on_error = restart_delay_default,
      reset_after_ms = 60000, max_restart_attempts = None\<rparr>"

section \<open>Facts\<close>

lemma is_never_simps [simp]:
  "is_never Never" "\<not> is_never (Constant d)" "\<not> is_never (ExponentialBackoff i m f)"
  by (simp_all add: is_never_def)

lemma delay_for_simps [simp]:
  "delay_for f64_powi Never n = 0"
  "delay_for f64_powi (Constant ms) n = from_millis ms"
  by (simp_all add: delay_for_def)

lemma from_millis_mono: "a \<le> b \<Longrightarrow> from_millis a \<le> from_millis b"
  by (simp add: from_millis_def)

lemma sint_word_of_nat_small:
  assumes "n < 2 ^ 31"
  shows "sint (word_of_nat n :: u32) = int n"
proof -
  have "signed_take_bit 31 (int n) = int n"
    using assms by (intro signed_take_bit_int_eq_self) simp_all
  then show ?thesis
    by (simp add: signed_of_nat)
qed

lemma backoff_exponent_of_nat: "n < 2 ^ 31 \<Longrightarrow> backoff_exponent (1 + word_of_nat n) = int n"
proof -
  assume n: "n < 2 ^ 31"
  then have "unat (word_of_nat n :: u32) = n"
    by (simp add: unat_of_nat)
  then have "unat (1 + word_of_nat n :: u32) = Suc n"
    using n by (simp add: unat_word_ariths)
  then have "(1 + word_of_nat n :: u32) \<noteq> 0"
    by (metis nat.distinct(1) unat_0)
  then show ?thesis
    using n by (simp add: backoff_exponent_def sint_word_of_nat_small)
qed


text \<open>
  A backoff delay never exceeds its cap, whatever \<open>powi\<close> returns (an infinity, NaN or a
  wrong value included), for every attempt number and every cap an \<open>f64\<close> holds exactly.
\<close>

theorem backoff_capped:
  assumes "m < 2 ^ 53"
  shows "delay_for f64_powi (ExponentialBackoff i m f) attempt \<le> from_millis m"
proof -
  have "f64_to_u64 (f64_min x (f64_of_nat m)) \<le> f64_to_u64 (f64_of_nat m)" for x
    by (rule f64_to_u64_min_le) (simp add: f64_of_nat_exact [OF assms])
  also have "f64_to_u64 (f64_of_nat m) = m"
    unfolding f64_of_nat_exact [OF assms]
    by (rule f64_to_u64_of_nat) (rule less_trans [OF assms], simp)
  finally show ?thesis
    by (simp add: delay_for_def Let_def from_millis_mono)
qed

lemma backoff_capped_witness:
  "delay_for (\<lambda>_ _. PInf) (ExponentialBackoff 500 30000 (Fin 2)) 7 \<le> from_millis 30000"
  by (rule backoff_capped) simp

text \<open>
  With the default multiplier 2 and a \<open>powi\<close> that is exact on powers of two, the
  \<open>n+1\<close>-th consecutive restart waits \<open>initial * 2 ^ n\<close> milliseconds, up to the cap: the
  doubling sequence of the unit test, for every attempt.
\<close>

theorem backoff_doubles:
  assumes powi: "f64_powi (Fin 2) (int n) = Fin (2 ^ n)"
    and small: "n < 2 ^ 31" "i * 2 ^ n < 2 ^ 53" "0 < i" "m < 2 ^ 53"
  shows "delay_for f64_powi (ExponentialBackoff i m default_backoff_multiplier) (1 + of_nat n)
    = from_millis (min (i * 2 ^ n) m)"
proof -
  have "i * 1 \<le> i * 2 ^ n" by (rule mult_le_mono2) simp
  with small(2) have i: "i < 2 ^ 53" by linarith
  have "f64_of_nat i * f64_powi (Fin 2) (backoff_exponent (1 + of_nat n)) = round_f64 (of_nat (i * 2 ^ n))"
    by (simp add: backoff_exponent_of_nat [OF small(1)] powi f64_of_nat_exact [OF i])
  also have "\<dots> = Fin (of_nat (i * 2 ^ n))"
    by (rule round_f64_of_nat [OF small(2)])
  finally have scaled: "f64_of_nat i * f64_powi (Fin 2) (backoff_exponent (1 + of_nat n)) = Fin (of_nat (i * 2 ^ n))" .
  have "min (i * 2 ^ n) m < 2 ^ 64"
    using small(4) by (intro min.strict_coboundedI2) simp
  then have "f64_to_u64 (f64_min (Fin (of_nat (i * 2 ^ n))) (f64_of_nat m)) = min (i * 2 ^ n) m"
    unfolding f64_of_nat_exact [OF small(4)] f64_min_of_nat by (rule f64_to_u64_of_nat)
  then show ?thesis
    by (simp only: delay_for_def restart_delay.case default_backoff_multiplier_def scaled Let_def)
qed

lemma backoff_doubles_witness:
  "delay_for (\<lambda>x k. if x = Fin 2 then Fin (2 ^ nat k) else NaN) (ExponentialBackoff 100 1000 default_backoff_multiplier) 3
     = from_millis 400"
  using backoff_doubles [of "\<lambda>x k. if x = Fin 2 then Fin (2 ^ nat k) else NaN" 2 100 1000]
  by simp

end
