(* ===== verification/TokenSlab.thy ===== *)
theory TokenSlab
  imports Prelude
begin

text \<open>
  The mio token allocator, \<open>src/src/support/mio_token_slab.rs\<close>. The \<open>slab\<close> crate is not
  part of the repository: its operations are a parameter, a record \<open>slab_api\<close> over an unknown
  slab type \<open>'s\<close>, and \<open>slab_laws\<close> collects the documented behaviour the daemon relies
  on. The allocator adds a fixed offset to the slab keys, so that no allocated token collides
  with the statically reserved ones.

  The locale \<open>token_allocator\<close> is the interface the supervisor and the two socket servers
  use; it is interpreted at the end on the allocator of this file, for every slab.
\<close>

section \<open>Tokens\<close>

text \<open>\<open>mio::Token\<close>, a wrapper around \<open>usize\<close> that derives \<open>Ord\<close>.\<close>

datatype token = Token (tok_ix: nat)

instantiation token :: linorder
begin

definition less_eq_token :: "token \<Rightarrow> token \<Rightarrow> bool" where
  "less_eq_token a b \<longleftrightarrow> tok_ix a \<le> tok_ix b"

definition less_token :: "token \<Rightarrow> token \<Rightarrow> bool" where
  "less_token a b \<longleftrightarrow> tok_ix a < tok_ix b"

instance
  by standard (auto simp: less_eq_token_def less_token_def token.expand)

end

section \<open>The slab crate\<close>

text \<open>
  \<open>slab_vacant_key\<close> is \<open>vacant_entry().key()\<close>; \<open>slab_insert s k t\<close> is the
  \<open>VacantEntry::insert\<close> of \<open>t\<close> at that key; \<open>slab_remove\<close> panics (\<open>None\<close>) on a
  vacant key.
\<close>

record 's slab_api =
  slab_with_capacity :: "nat \<Rightarrow> 's"
  slab_len :: "'s \<Rightarrow> nat"
  slab_capacity :: "'s \<Rightarrow> nat"
  slab_vacant_key :: "'s \<Rightarrow> nat"
  slab_insert :: "'s \<Rightarrow> nat \<Rightarrow> token \<Rightarrow> 's"
  slab_remove :: "'s \<Rightarrow> nat \<Rightarrow> (token \<times> 's) option"
  slab_get :: "'s \<Rightarrow> nat \<Rightarrow> token option"

text \<open>Keys index memory, so they stay below \<open>isize::MAX\<close>, as does the capacity of a slab.\<close>

definition key_bound :: nat where
  "key_bound = 2 ^ 63"

definition slab_laws :: "'s slab_api \<Rightarrow> bool" where
  "slab_laws api \<longleftrightarrow>
     (\<forall>n. slab_get api (slab_with_capacity api n) = Map.empty
        \<and> slab_capacity api (slab_with_capacity api n) = n)
   \<and> (\<forall>s. finite (dom (slab_get api s)) \<and> slab_len api s = card (dom (slab_get api s)))
   \<and> (\<forall>s. slab_get api s (slab_vacant_key api s) = None)
   \<and> (\<forall>s. slab_len api s < slab_capacity api s \<longrightarrow> slab_capacity api s < key_bound \<longrightarrow>
        slab_vacant_key api s < key_bound)
   \<and> (\<forall>s t. slab_get api (slab_insert api s (slab_vacant_key api s) t)
        = (slab_get api s)(slab_vacant_key api s \<mapsto> t))
   \<and> (\<forall>s t. slab_len api s < slab_capacity api s \<longrightarrow>
        slab_capacity api (slab_insert api s (slab_vacant_key api s) t) = slab_capacity api s)
   \<and> (\<forall>s k. slab_remove api s k = None \<longleftrightarrow> slab_get api s k = None)
   \<and> (\<forall>s k t s'. slab_remove api s k = Some (t, s') \<longrightarrow>
        slab_get api s k = Some t \<and> slab_get api s' = (slab_get api s)(k := None)
        \<and> slab_capacity api s' = slab_capacity api s)"

section \<open>MioTokenSlab\<close>

record 's token_slab =
  ts_slab :: 's
  ts_offset :: nat

definition token_slab_new :: "'s slab_api \<Rightarrow> nat \<Rightarrow> nat \<Rightarrow> 's token_slab" where
  "token_slab_new api init_capacity offset =
     \<lparr>ts_slab = slab_with_capacity api init_capacity, ts_offset = offset\<rparr>"

definition allocate :: "'s slab_api \<Rightarrow> 's token_slab \<Rightarrow> token option \<times> 's token_slab" where
  "allocate api ts =
     (if slab_capacity api (ts_slab ts) \<le> slab_len api (ts_slab ts) then (None, ts)
      else let key = slab_vacant_key api (ts_slab ts);
               t = Token (usize_add (ts_offset ts) key)
           in (Some t, ts\<lparr>ts_slab := slab_insert api (ts_slab ts) key t\<rparr>))"

text \<open>\<open>free\<close>: \<open>None\<close> is the panic of \<open>Slab::remove\<close> on a vacant key.\<close>

definition free :: "'s slab_api \<Rightarrow> 's token_slab \<Rightarrow> token \<Rightarrow> 's token_slab option" where
  "free api ts t =
     (case slab_remove api (ts_slab ts) (usize_sub (tok_ix t) (ts_offset ts)) of
        None \<Rightarrow> None
      | Some (_, s) \<Rightarrow> Some (ts\<lparr>ts_slab := s\<rparr>))"

section \<open>The abstract view: the set of live tokens\<close>

definition live :: "'s slab_api \<Rightarrow> 's token_slab \<Rightarrow> token set" where
  "live api ts = ran (slab_get api (ts_slab ts))"

definition slab_cap :: "'s slab_api \<Rightarrow> 's token_slab \<Rightarrow> nat" where
  "slab_cap api ts = slab_capacity api (ts_slab ts)"

definition slab_ok :: "'s slab_api \<Rightarrow> 's token_slab \<Rightarrow> bool" where
  "slab_ok api ts \<longleftrightarrow> slab_laws api \<and> ts_offset ts < key_bound \<and> slab_cap api ts < key_bound
     \<and> (\<forall>k t. slab_get api (ts_slab ts) k = Some t \<longrightarrow> k < key_bound \<and> t = Token (ts_offset ts + k))"

named_theorems slab_law "the documented laws of the slab crate, one by one"

lemma slab_with_capacity_laws [slab_law]:
  assumes "slab_laws api"
  shows "slab_get api (slab_with_capacity api n) = Map.empty"
    and "slab_capacity api (slab_with_capacity api n) = n"
  using assms by (auto simp: slab_laws_def)

lemma slab_len_laws [slab_law]:
  assumes "slab_laws api"
  shows "finite (dom (slab_get api s))" and "slab_len api s = card (dom (slab_get api s))"
  using assms by (auto simp: slab_laws_def)

lemma slab_insert_laws [slab_law]:
  assumes "slab_laws api"
  shows "slab_get api s (slab_vacant_key api s) = None"
    and "slab_len api s < slab_capacity api s \<Longrightarrow> slab_capacity api s < key_bound \<Longrightarrow>
           slab_vacant_key api s < key_bound"
    and "slab_get api (slab_insert api s (slab_vacant_key api s) t)
           = (slab_get api s)(slab_vacant_key api s \<mapsto> t)"
    and "slab_len api s < slab_capacity api s \<Longrightarrow>
           slab_capacity api (slab_insert api s (slab_vacant_key api s) t) = slab_capacity api s"
  using assms by (auto simp: slab_laws_def)

lemma slab_remove_laws:
  assumes "slab_laws api" and "slab_get api s k = Some t"
  obtains s' where "slab_remove api s k = Some (t, s')"
    and "slab_get api s' = (slab_get api s)(k := None)"
    and "slab_capacity api s' = slab_capacity api s"
proof -
  from assms have "slab_remove api s k \<noteq> None"
    unfolding slab_laws_def by (metis option.distinct(1))
  then obtain t' s' where r: "slab_remove api s k = Some (t', s')"
    by fastforce
  with assms(1) have "slab_get api s k = Some t' \<and> slab_get api s' = (slab_get api s)(k := None)
      \<and> slab_capacity api s' = slab_capacity api s"
    unfolding slab_laws_def by blast
  with assms(2) r show thesis
    by (auto intro: that)
qed

section \<open>Correctness of the allocator\<close>

lemma token_slab_new_ok:
  assumes "slab_laws api" and "off < key_bound" and "n < key_bound"
  shows "slab_ok api (token_slab_new api n off)"
    and "live api (token_slab_new api n off) = {}"
    and "slab_cap api (token_slab_new api n off) = n"
  using assms by (auto simp: slab_ok_def token_slab_new_def live_def slab_cap_def slab_law)

lemma slab_ok_key: "slab_ok api ts \<Longrightarrow> slab_get api (ts_slab ts) k = Some t \<Longrightarrow> t = Token (ts_offset ts + k)"
  unfolding slab_ok_def by blast

lemma slab_ok_key_inj:
  assumes "slab_ok api ts"
  shows "inj_on (\<lambda>k. the (slab_get api (ts_slab ts) k)) (dom (slab_get api (ts_slab ts)))"
  using assms unfolding slab_ok_def inj_on_def
  by (metis add_left_cancel domIff option.collapse token.inject)

lemma card_live:
  assumes "slab_ok api ts"
  shows "finite (live api ts)" and "card (live api ts) = slab_len api (ts_slab ts)"
proof -
  let ?g = "slab_get api (ts_slab ts)"
  have laws: "slab_laws api" using assms by (simp add: slab_ok_def)
  have img: "live api ts = (\<lambda>k. the (?g k)) ` dom ?g"
    by (force simp: live_def ran_def dom_def image_def)
  then show "finite (live api ts)"
    using laws by (simp add: slab_law)
  show "card (live api ts) = slab_len api (ts_slab ts)"
    unfolding img using slab_ok_key_inj [OF assms] laws by (simp add: card_image slab_law)
qed

lemma live_offset: "slab_ok api ts \<Longrightarrow> t \<in> live api ts \<Longrightarrow> ts_offset ts \<le> tok_ix t"
  by (auto simp: live_def ran_def dest: slab_ok_key)

lemma key_bound_usize: "a < key_bound \<Longrightarrow> b < key_bound \<Longrightarrow> a + b < usize_bound"
  by (simp add: key_bound_def usize_bound_def)

lemma allocate_NoneD: "allocate api ts = (None, ts') \<Longrightarrow> ts' = ts"
  by (auto simp: allocate_def Let_def split: if_splits)

lemma allocate_None_iff:
  "slab_ok api ts \<Longrightarrow> fst (allocate api ts) = None \<longleftrightarrow> slab_cap api ts \<le> card (live api ts)"
  by (auto simp: allocate_def Let_def card_live slab_cap_def)

lemma allocate_SomeD:
  assumes ok: "slab_ok api ts" and alloc: "allocate api ts = (Some t, ts')"
  shows "slab_ok api ts'" and "t \<notin> live api ts" and "live api ts' = insert t (live api ts)"
    and "ts_offset ts \<le> tok_ix t" and "slab_cap api ts' = slab_cap api ts"
    and "ts_offset ts' = ts_offset ts"
proof -
  let ?k = "slab_vacant_key api (ts_slab ts)" and ?g = "slab_get api (ts_slab ts)"
  have laws: "slab_laws api" and off: "ts_offset ts < key_bound"
    using ok by (auto simp: slab_ok_def)
  have len: "slab_len api (ts_slab ts) < slab_capacity api (ts_slab ts)"
    using alloc by (auto simp: allocate_def split: if_splits)
  have k: "?g ?k = None" "?k < key_bound"
    using laws ok len by (simp_all add: slab_law slab_ok_def slab_cap_def)
  have t: "t = Token (ts_offset ts + ?k)"
    and s': "ts' = ts\<lparr>ts_slab := slab_insert api (ts_slab ts) ?k t\<rparr>"
    using alloc key_bound_usize [OF off k(2)]
    by (auto simp: allocate_def Let_def usize_simps split: if_splits)
  have g': "slab_get api (ts_slab ts') = ?g(?k \<mapsto> t)"
    using laws by (simp add: s' slab_law)
  show cap: "slab_cap api ts' = slab_cap api ts"
    using laws len by (simp add: s' slab_cap_def slab_law)
  show "slab_ok api ts'"
    using ok k t g' cap s' by (auto simp: slab_ok_def)
  show "t \<notin> live api ts"
  proof
    assume "t \<in> live api ts"
    then obtain j where "?g j = Some t" by (auto simp: live_def ran_def)
    with ok have "t = Token (ts_offset ts + j)" by (simp add: slab_ok_def)
    with t have "j = ?k" by simp
    with \<open>?g j = Some t\<close> k show False by simp
  qed
  show "live api ts' = insert t (live api ts)"
    using k by (simp add: live_def g')
  show "ts_offset ts \<le> tok_ix t" by (simp add: t)
  show "ts_offset ts' = ts_offset ts" by (simp add: s')
qed

lemma free_live:
  assumes ok: "slab_ok api ts" and t: "t \<in> live api ts"
  obtains ts' where "free api ts t = Some ts'" and "slab_ok api ts'"
    and "live api ts' = live api ts - {t}" and "slab_cap api ts' = slab_cap api ts"
    and "ts_offset ts' = ts_offset ts"
proof -
  let ?g = "slab_get api (ts_slab ts)"
  from t obtain k where k: "?g k = Some t" by (auto simp: live_def ran_def)
  have laws: "slab_laws api" using ok by (simp add: slab_ok_def)
  have tk: "t = Token (ts_offset ts + k)" using ok k by (simp add: slab_ok_def)
  from slab_remove_laws [OF laws k] obtain s' where
    s': "slab_remove api (ts_slab ts) k = Some (t, s')"
      "slab_get api s' = ?g(k := None)" "slab_capacity api s' = slab_capacity api (ts_slab ts)" .
  show thesis
  proof (rule that)
    show "free api ts t = Some (ts\<lparr>ts_slab := s'\<rparr>)"
      by (simp add: free_def tk usize_simps s'(1) [unfolded tk])
    show "slab_ok api (ts\<lparr>ts_slab := s'\<rparr>)"
      using ok s' by (auto simp: slab_ok_def slab_cap_def split: if_splits)
    show "live api (ts\<lparr>ts_slab := s'\<rparr>) = live api ts - {t}"
    proof -
      have only: "j = k" if "?g j = Some t" for j
        using slab_ok_key [OF ok that] tk by simp
      have "ran (?g(k := None)) = ran ?g - {t}"
      proof (intro set_eqI iffI)
        fix x
        assume "x \<in> ran (?g(k := None))"
        then obtain j where "j \<noteq> k" and "?g j = Some x"
          by (auto simp: ran_def split: if_splits)
        with only show "x \<in> ran ?g - {t}"
          by (auto intro: ranI)
      next
        fix x
        assume "x \<in> ran ?g - {t}"
        then obtain j where "?g j = Some x" and "x \<noteq> t"
          by (auto simp: ran_def)
        with k have "(?g(k := None)) j = Some x" by auto
        then show "x \<in> ran (?g(k := None))" by (rule ranI)
      qed
      then show ?thesis
        by (simp add: live_def s'(2))
    qed
    show "slab_cap api (ts\<lparr>ts_slab := s'\<rparr>) = slab_cap api ts"
      by (simp add: slab_cap_def s')
    show "ts_offset (ts\<lparr>ts_slab := s'\<rparr>) = ts_offset ts" by simp
  qed
qed

section \<open>The interface of the allocator\<close>

text \<open>
  What the supervisor and the socket servers rely on: an allocated token is fresh and joins the
  live set, freeing a live token removes it and nothing else, and neither touches the capacity.
  \<open>inv\<close> holds of a reachable allocator.
\<close>

locale token_allocator =
  fixes alloc :: "'t \<Rightarrow> token option \<times> 't"
    and free_tok :: "'t \<Rightarrow> token \<Rightarrow> 't option"
    and live_toks :: "'t \<Rightarrow> token set"
    and cap :: "'t \<Rightarrow> nat"
    and inv :: "'t \<Rightarrow> bool"
  assumes finite_live: "inv s \<Longrightarrow> finite (live_toks s)"
    and alloc_None: "inv s \<Longrightarrow> alloc s = (None, s') \<Longrightarrow> s' = s \<and> cap s \<le> card (live_toks s)"
    and alloc_Some: "inv s \<Longrightarrow> alloc s = (Some t, s') \<Longrightarrow>
      inv s' \<and> t \<notin> live_toks s \<and> live_toks s' = insert t (live_toks s) \<and> cap s' = cap s
      \<and> card (live_toks s) < cap s"
    and free_tok_live: "inv s \<Longrightarrow> t \<in> live_toks s \<Longrightarrow>
      \<exists>s'. free_tok s t = Some s' \<and> inv s' \<and> live_toks s' = live_toks s - {t} \<and> cap s' = cap s"
begin

lemma alloc_inv: "inv s \<Longrightarrow> alloc s = (r, s') \<Longrightarrow> inv s'"
  by (cases r) (auto dest: alloc_None alloc_Some)

lemma alloc_live_mono: "inv s \<Longrightarrow> alloc s = (r, s') \<Longrightarrow> live_toks s \<subseteq> live_toks s'"
  by (cases r) (auto dest: alloc_None alloc_Some)

text \<open>An owner of live tokens never gets one of them again, nor loses one to another owner.\<close>

lemma alloc_fresh_for_owner:
  assumes "inv s" and "own \<subseteq> live_toks s" and "alloc s = (Some t, s')"
  shows "t \<notin> own" and "insert t own \<subseteq> live_toks s'"
  using alloc_Some [OF assms(1,3)] assms(2) by auto

lemma alloc_then_free:
  assumes "inv s" and "alloc s = (Some t, s1)"
  shows "\<exists>s2. free_tok s1 t = Some s2 \<and> inv s2 \<and> live_toks s2 = live_toks s \<and> cap s2 = cap s"
proof -
  from alloc_Some [OF assms] have "inv s1" and l: "live_toks s1 = insert t (live_toks s)"
    and "t \<notin> live_toks s" and c: "cap s1 = cap s"
    by simp_all
  from free_tok_live [OF \<open>inv s1\<close>, of t] l c \<open>t \<notin> live_toks s\<close> show ?thesis
    by auto
qed

text \<open>The bound on live tokens is kept by every allocation and every release.\<close>

lemma alloc_bounded:
  assumes "inv s" and "card (live_toks s) \<le> cap s" and "alloc s = (r, s')"
  shows "card (live_toks s') \<le> cap s'"
proof (cases r)
  case None
  with assms alloc_None [of s s'] show ?thesis by simp
next
  case (Some t)
  with assms(1,3) have "alloc s = (Some t, s')" by simp
  from alloc_Some [OF assms(1) this] finite_live [OF assms(1)] show ?thesis
    by simp
qed

lemma free_bounded:
  assumes "inv s" and "t \<in> live_toks s" and "card (live_toks s) \<le> cap s" and "free_tok s t = Some s'"
  shows "card (live_toks s') \<le> cap s'"
proof -
  from free_tok_live [OF assms(1,2)] assms(4)
  have "live_toks s' = live_toks s - {t}" and "cap s' = cap s"
    by auto
  with finite_live [OF assms(1)] assms(3) show ?thesis
    by (simp add: card_Diff1_le le_trans [OF card_Diff1_le])
qed

end

interpretation slab: token_allocator "allocate api" "free api" "live api" "slab_cap api" "slab_ok api"
  for api :: "'s slab_api"
proof
  fix s s' :: "'s token_slab" and t
  assume ok: "slab_ok api s"
  show "finite (live api s)" by (rule card_live [OF ok])
  show "s' = s \<and> slab_cap api s \<le> card (live api s)" if "allocate api s = (None, s')"
    using allocate_NoneD [OF that] allocate_None_iff [OF ok] that by simp
  show "slab_ok api s' \<and> t \<notin> live api s \<and> live api s' = insert t (live api s)
      \<and> slab_cap api s' = slab_cap api s \<and> card (live api s) < slab_cap api s"
    if "allocate api s = (Some t, s')"
    using allocate_SomeD [OF ok that] allocate_None_iff [OF ok] that by (simp add: not_le [symmetric])
  show "\<exists>s'. free api s t = Some s' \<and> slab_ok api s' \<and> live api s' = live api s - {t}
      \<and> slab_cap api s' = slab_cap api s" if "t \<in> live api s"
    using free_live [OF ok that] by metis
qed

section \<open>A slab that satisfies the laws\<close>

text \<open>
  A vector of optional entries with its capacity: what the witnesses instantiate the parameter
  with.
\<close>

fun first_vacant :: "token option list \<Rightarrow> nat" where
  "first_vacant [] = 0"
| "first_vacant (None # xs) = 0"
| "first_vacant (Some _ # xs) = Suc (first_vacant xs)"

definition vec_get :: "token option list \<Rightarrow> nat \<Rightarrow> token option" where
  "vec_get xs k = (if k < length xs then xs ! k else None)"

definition vec_set :: "token option list \<Rightarrow> nat \<Rightarrow> token \<Rightarrow> token option list" where
  "vec_set xs k t = (if k < length xs then xs[k := Some t] else xs @ [Some t])"

definition vec_slab :: "(nat \<times> token option list) slab_api" where
  "vec_slab =
     \<lparr>slab_with_capacity = (\<lambda>n. (n, [])),
      slab_len = (\<lambda>(n, xs). length (filter (\<lambda>x. x \<noteq> None) xs)),
      slab_capacity = fst,
      slab_vacant_key = (\<lambda>(n, xs). first_vacant xs),
      slab_insert = (\<lambda>(n, xs) k t. (n, vec_set xs k t)),
      slab_remove = (\<lambda>(n, xs) k. map_option (\<lambda>t. (t, (n, xs[k := None]))) (vec_get xs k)),
      slab_get = (\<lambda>(n, xs). vec_get xs)\<rparr>"

lemma first_vacant_le: "first_vacant xs \<le> length (filter (\<lambda>x. x \<noteq> None) xs)"
  by (induction xs rule: first_vacant.induct) auto

lemma vec_get_first_vacant: "vec_get xs (first_vacant xs) = None"
  by (induction xs rule: first_vacant.induct) (auto simp: vec_get_def)

lemma first_vacant_bound: "first_vacant xs \<le> length xs"
  by (induction xs rule: first_vacant.induct) auto

lemma vec_get_set: "vec_get (vec_set xs (first_vacant xs) t) = (vec_get xs)(first_vacant xs \<mapsto> t)"
  using first_vacant_bound [of xs]
  by (auto simp: fun_eq_iff vec_get_def vec_set_def nth_append nth_list_update)

lemma dom_vec_get: "dom (vec_get xs) = {k. k < length xs \<and> xs ! k \<noteq> None}"
  by (auto simp: dom_def vec_get_def)

lemma vec_slab_simps [simp]:
  "slab_with_capacity vec_slab n = (n, [])"
  "slab_len vec_slab s = length (filter (\<lambda>x. x \<noteq> None) (snd s))"
  "slab_capacity vec_slab s = fst s"
  "slab_vacant_key vec_slab s = first_vacant (snd s)"
  "slab_insert vec_slab s k t = (fst s, vec_set (snd s) k t)"
  "slab_remove vec_slab s k = map_option (\<lambda>t. (t, (fst s, (snd s)[k := None]))) (vec_get (snd s) k)"
  "slab_get vec_slab s = vec_get (snd s)"
  by (simp_all add: vec_slab_def split: prod.split)

lemma vec_get_Nil: "vec_get [] = Map.empty"
  by (simp add: vec_get_def fun_eq_iff)

lemma vec_get_remove: "vec_get xs k = Some t \<Longrightarrow> vec_get (xs[k := None]) = (vec_get xs)(k := None)"
  by (auto simp: vec_get_def fun_eq_iff nth_list_update)

lemma vec_len: "finite (dom (vec_get xs))" "length (filter (\<lambda>x. x \<noteq> None) xs) = card (dom (vec_get xs))"
  by (simp_all add: dom_vec_get length_filter_conv_card)

lemma vec_slab_laws: "slab_laws vec_slab"
  unfolding slab_laws_def vec_slab_simps
  by (intro conjI allI impI)
    (auto simp: vec_get_Nil vec_len vec_get_first_vacant vec_get_set vec_get_remove
      simp del: not_None_eq intro: le_less_trans [OF first_vacant_le] less_trans)

lemma vec_slab_new_ok:
  "slab_ok vec_slab (token_slab_new vec_slab 8 3)" "live vec_slab (token_slab_new vec_slab 8 3) = {}"
  by (rule token_slab_new_ok [OF vec_slab_laws]; simp add: key_bound_def)+

end
