(* ===== verification/Kernel.thy ===== *)
theory Kernel
  imports Prelude
begin

text \<open>
  The kernel objects the daemon reads and writes: the pipe behind an app's stdout or stderr
  (\<open>src/src/support/pipe.rs\<close>) and the stream socket behind a client connection. What the
  kernel is free to choose (how many bytes a call moves, whether it fails) is a field of the
  object, a function of the bytes still pending or of the room left; these strictly decrease
  within any loop of the daemon, so the choices of successive calls are independent.
\<close>

section \<open>Return codes\<close>

text \<open>\<open>to_ioresult\<close> of \<open>src/src/support/mod.rs\<close>; \<open>errno\<close> is \<open>last_os_error()\<close>.\<close>

definition to_ioresult :: "io_error \<Rightarrow> int \<Rightarrow> (io_error, int) outcome" where
  "to_ioresult errno r = (if r < 0 then Err errno else Ok r)"

section \<open>Pipes\<close>

text \<open>The kernel's answer to a \<open>splice\<close> from a pipe: how much it is willing to move, or an error.\<close>

datatype splice_resp = SpliceMoves nat | SpliceFails io_error

record pipe =
  pipe_data :: bytes
  pipe_writers :: bool \<comment> \<open>some process still holds the write end\<close>
  pipe_resp :: "nat \<Rightarrow> splice_resp" \<comment> \<open>by the number of pending bytes\<close>

text \<open>
  \<open>splice(2)\<close> with \<open>SPLICE_F_NONBLOCK\<close> from a pipe, as \<open>pipe::splice\<close> calls it: end of
  file is 0 bytes, an empty pipe with a writer is \<open>WouldBlock\<close>, and otherwise between 1 and
  \<open>len\<close> of the pending bytes move. The result is the bytes moved and the pipe after.
\<close>

definition splice :: "pipe \<Rightarrow> nat \<Rightarrow> (io_error, bytes) outcome \<times> pipe" where
  "splice p len =
     (case pipe_resp p (length (pipe_data p)) of
        SpliceFails e \<Rightarrow> (Err e, p)
      | SpliceMoves q \<Rightarrow>
          if pipe_data p = [] then (if pipe_writers p then (Err WouldBlock, p) else (Ok [], p))
          else if len = 0 then (Ok [], p)
          else let n = transfer q (min len (length (pipe_data p)))
               in (Ok (take n (pipe_data p)), p\<lparr>pipe_data := drop n (pipe_data p)\<rparr>))"

lemma splice_ErrD: "splice p len = (Err e, p') \<Longrightarrow> p' = p"
  by (auto simp: splice_def Let_def split: splice_resp.splits if_splits)

lemma splice_OkD:
  assumes "splice p len = (Ok bs, p')"
  shows "pipe_data p = bs @ pipe_data p'" and "length bs \<le> len"
    and "p' = p\<lparr>pipe_data := pipe_data p'\<rparr>"
  using assms
  by (auto simp: splice_def Let_def transfer_def split: splice_resp.splits if_splits)

lemma splice_no_panic: "splice p len \<noteq> (Panic m, p')"
  by (auto simp: splice_def Let_def split: splice_resp.splits if_splits)

lemma splice_Nil_iff:
  assumes "splice p len = (Ok bs, p')" and "0 < len"
  shows "bs = [] \<longleftrightarrow> pipe_data p = []"
  using assms
  by (auto simp: splice_def Let_def transfer_def min_def split: splice_resp.splits if_splits)

text \<open>A pipe whose splices never fail while bytes are pending.\<close>

definition pipe_sound :: "pipe \<Rightarrow> bool" where
  "pipe_sound p \<longleftrightarrow> (\<forall>n. \<exists>q. pipe_resp p n = SpliceMoves q)"

lemma splice_sound:
  assumes "pipe_sound p" and "pipe_data p \<noteq> []" and "0 < len"
  obtains bs p' where "splice p len = (Ok bs, p')" and "bs \<noteq> []" and "pipe_sound p'"
proof -
  from assms(1) obtain q where "pipe_resp p (length (pipe_data p)) = SpliceMoves q"
    by (auto simp: pipe_sound_def)
  with assms that show thesis
    by (auto simp: splice_def Let_def transfer_def min_def pipe_sound_def)
qed

section \<open>Stream sockets\<close>

record sock =
  sk_in :: bytes \<comment> \<open>received, not yet read\<close>
  sk_peer_closed :: bool \<comment> \<open>the peer shut its sending side down\<close>
  sk_read_error :: "io_error option" \<comment> \<open>what a read reports once nothing is pending\<close>
  sk_read_choice :: "nat \<Rightarrow> nat"
  sk_out :: bytes \<comment> \<open>everything written so far\<close>
  sk_room :: nat \<comment> \<open>bytes the send buffer still accepts\<close>
  sk_write_error :: "nat \<Rightarrow> io_error option" \<comment> \<open>by the room left\<close>
  sk_write_choice :: "nat \<Rightarrow> nat"

text \<open>\<open>read\<close> on a non-blocking stream, into a buffer of \<open>len\<close> bytes; \<open>Ok []\<close> is end of file.\<close>

definition sock_read :: "sock \<Rightarrow> nat \<Rightarrow> (io_error, bytes) outcome \<times> sock" where
  "sock_read s len =
     (if sk_in s = []
      then (case sk_read_error s of
              Some e \<Rightarrow> (Err e, s)
            | None \<Rightarrow> if sk_peer_closed s then (Ok [], s) else (Err WouldBlock, s))
      else let n = transfer (sk_read_choice s (length (sk_in s))) (min len (length (sk_in s)))
           in (Ok (take n (sk_in s)), s\<lparr>sk_in := drop n (sk_in s)\<rparr>))"

text \<open>\<open>write\<close>: the number of bytes accepted.\<close>

definition sock_write :: "sock \<Rightarrow> bytes \<Rightarrow> (io_error, nat) outcome \<times> sock" where
  "sock_write s buf =
     (case sk_write_error s (sk_room s) of
        Some e \<Rightarrow> (Err e, s)
      | None \<Rightarrow>
          if buf = [] then (Ok 0, s)
          else if sk_room s = 0 then (Err WouldBlock, s)
          else let n = transfer (sk_write_choice s (sk_room s)) (min (length buf) (sk_room s))
               in (Ok n, s\<lparr>sk_out := sk_out s @ take n buf, sk_room := sk_room s - n\<rparr>))"

text \<open>
  The read loop both servers run on a readable connection: append to \<open>read_buf\<close> until the
  socket would block (\<open>Ok False\<close>) or reports end of file (\<open>Ok True\<close>).
\<close>

definition read_chunk :: nat where
  "read_chunk = 4096"

lemma sock_read_length: "sock_read s len = (Ok bs, s') \<Longrightarrow> length (sk_in s') + length bs = length (sk_in s)"
  by (auto simp: sock_read_def Let_def split: if_splits option.splits)

function read_all :: "sock \<Rightarrow> bytes \<Rightarrow> (io_error, bool) outcome \<times> bytes \<times> sock" where
  "read_all s buf =
     (case sock_read s read_chunk of
        (Ok [], s') \<Rightarrow> (Ok True, buf, s')
      | (Ok (b # bs), s') \<Rightarrow> read_all s' (buf @ b # bs)
      | (Err e, s') \<Rightarrow> if e = WouldBlock then (Ok False, buf, s') else (Err e, buf, s')
      | (Panic m, s') \<Rightarrow> (Panic m, buf, s'))"
  by pat_completeness auto
termination
  by (relation "measure (\<lambda>(s, buf). length (sk_in s))") (auto dest!: sock_read_length sym [of "(_, _)"])

declare read_all.simps [simp del]

text \<open>The loop takes everything pending, however the kernel cuts it up.\<close>

lemma sock_read_pending:
  assumes "sk_in s \<noteq> []" and "0 < len"
  obtains bs where "sock_read s len = (Ok bs, s\<lparr>sk_in := drop (length bs) (sk_in s)\<rparr>)"
    and "bs \<noteq> []" and "sk_in s = bs @ drop (length bs) (sk_in s)"
proof
  let ?n = "transfer (sk_read_choice s (length (sk_in s))) (min len (length (sk_in s)))"
  have n: "0 < ?n" "?n \<le> length (sk_in s)"
    using assms transfer_le [of "min len (length (sk_in s))" "sk_read_choice s (length (sk_in s))"]
    by auto
  with assms show "sock_read s len = (Ok (take ?n (sk_in s)), s\<lparr>sk_in := drop (length (take ?n (sk_in s))) (sk_in s)\<rparr>)"
    by (simp add: sock_read_def Let_def min_absorb2)
  from n show "take ?n (sk_in s) \<noteq> []"
    using assms by auto
  show "sk_in s = take ?n (sk_in s) @ drop (length (take ?n (sk_in s))) (sk_in s)"
    using n by (simp add: min_absorb2)
qed

definition read_end :: "sock \<Rightarrow> (io_error, bool) outcome" where
  "read_end s =
     (case sk_read_error s of
        Some e \<Rightarrow> if e = WouldBlock then Ok False else Err e
      | None \<Rightarrow> Ok (sk_peer_closed s))"

lemma read_all_eq: "read_all s buf = (read_end s, buf @ sk_in s, s\<lparr>sk_in := []\<rparr>)"
proof (induction "length (sk_in s)" arbitrary: s buf rule: less_induct)
  case less
  show ?case
  proof (cases "sk_in s = []")
    case True
    then show ?thesis
      by (subst read_all.simps) (simp add: sock_read_def read_end_def split: option.split)
  next
    case False
    obtain bs where r: "sock_read s read_chunk = (Ok bs, s\<lparr>sk_in := drop (length bs) (sk_in s)\<rparr>)"
      and ne: "bs \<noteq> []" and app: "sk_in s = bs @ drop (length bs) (sk_in s)"
      using sock_read_pending [OF False, of read_chunk] by (auto simp: read_chunk_def)
    let ?s' = "s\<lparr>sk_in := drop (length bs) (sk_in s)\<rparr>"
    have "read_all s buf = read_all ?s' (buf @ bs)"
      using ne by (subst read_all.simps) (auto simp: r split: list.split)
    also have "\<dots> = (read_end ?s', (buf @ bs) @ sk_in ?s', ?s'\<lparr>sk_in := []\<rparr>)"
      using False ne by (intro less) simp
    also have "(buf @ bs) @ sk_in ?s' = buf @ sk_in s"
      using app by simp
    finally show ?thesis
      by (simp add: read_end_def split: option.split)
  qed
qed

lemma sock_write_ErrD: "sock_write s buf = (Err e, s') \<Longrightarrow> s' = s"
  by (auto simp: sock_write_def Let_def split: option.splits if_splits)

lemma sock_write_no_panic: "sock_write s buf \<noteq> (Panic m, s')"
  by (auto simp: sock_write_def Let_def split: option.splits if_splits)

lemma sock_write_OkD:
  assumes "sock_write s buf = (Ok n, s')"
  shows "sk_out s' = sk_out s @ take n buf" and "n \<le> length buf"
    and "sk_room s' + n = sk_room s" and "buf \<noteq> [] \<Longrightarrow> 0 < n"
    and "s' = s\<lparr>sk_out := sk_out s', sk_room := sk_room s'\<rparr>"
  using assms transfer_le [of "min (length buf) (sk_room s)" "sk_write_choice s (sk_room s)"]
  by (auto simp: sock_write_def Let_def split: option.splits if_splits)

lemma sock_write_WouldBlock:
  "sock_write s buf = (Err WouldBlock, s') \<Longrightarrow> sk_write_error s (sk_room s) = None \<Longrightarrow> sk_room s = 0"
  by (auto simp: sock_write_def Let_def split: if_splits)

end
