(* ===== verification/Mmap.thy ===== *)
theory Mmap
  imports Kernel
begin

text \<open>
  The doubly mapped ring buffer, \<open>src/src/support/mmap.rs\<close>: one memfd mapped twice in a row,
  so that a slice of the buffer's size can start at any offset and still be contiguous. The
  page size (\<open>sysconf(_SC_PAGESIZE)\<close>) and the answers of \<open>mmap(2)\<close> are parameters.

  The lemmas give the safety of the raw slices (no address past the two mappings is read) and
  what a slice holds: the file rotated to the offset.
\<close>

section \<open>Setting the mapping up\<close>

text \<open>\<open>mmap\<close> refuses an empty range (\<open>EINVAL\<close>); its other answers are the kernel's.\<close>

definition einval :: io_error where
  "einval = Errno 22"

definition sys_mmap :: "(io_error, nat) outcome \<Rightarrow> nat \<Rightarrow> (io_error, nat) outcome" where
  "sys_mmap resp len = (if len = 0 then Err einval else resp)"

text \<open>\<open>r i\<close> is the kernel's answer to the i-th call: reserve, map low half, map high half.\<close>

definition mmap_ring_buffer :: "nat \<Rightarrow> (nat \<Rightarrow> (io_error, nat) outcome) \<Rightarrow> nat \<Rightarrow> (io_error, nat) outcome" where
  "mmap_ring_buffer page_size r sz =
     (if \<not> page_size dvd sz then Err einval
      else case sys_mmap (r 0) (usize_add sz sz) of
        Err e \<Rightarrow> Err e | Panic m \<Rightarrow> Panic m
      | Ok addr \<Rightarrow>
          (case sys_mmap (r 1) sz of
             Err e \<Rightarrow> Err e | Panic m \<Rightarrow> Panic m
           | Ok addr1 \<Rightarrow>
               if addr \<noteq> addr1 then Panic ''assertion failed: addr == addr1''
               else (case sys_mmap (r 2) sz of
                       Err e \<Rightarrow> Err e | Panic m \<Rightarrow> Panic m
                     | Ok _ \<Rightarrow> Ok addr)))"

section \<open>The mapped buffer\<close>

text \<open>
  \<open>MmapRingBuffer\<close>: the size of one mapping and the contents of the memfd behind both.
\<close>

record ring_map =
  rm_size :: nat
  rm_file :: bytes

text \<open>The byte at an address of the doubled range, relative to its start.\<close>

definition mapped_byte :: "ring_map \<Rightarrow> nat \<Rightarrow> byte" where
  "mapped_byte rb a = rm_file rb ! (a mod rm_size rb)"

text \<open>
  \<open>get_buffer_infos_at\<close>: relative address and length of the slice at an offset; a zero size
  panics in the remainder.
\<close>

definition get_buffer_infos_at :: "ring_map \<Rightarrow> nat \<Rightarrow> (nat \<times> nat) option" where
  "get_buffer_infos_at rb offset =
     (if rm_size rb = 0 then None else Some (offset mod rm_size rb, rm_size rb))"

definition get_at :: "ring_map \<Rightarrow> nat \<Rightarrow> bytes option" where
  "get_at rb offset =
     map_option (\<lambda>(addr, size). map (mapped_byte rb) [addr ..< addr + size]) (get_buffer_infos_at rb offset)"

text \<open>
  \<open>Index<Range<usize>>\<close>: \<open>&buffer[..end - start]\<close>; a reversed range or one longer than the
  buffer panics (\<open>None\<close>).
\<close>

definition index_range :: "ring_map \<Rightarrow> nat \<Rightarrow> nat \<Rightarrow> bytes option" where
  "index_range rb start stop =
     (case get_at rb start of
        None \<Rightarrow> None
      | Some buffer \<Rightarrow>
          if usize_sub stop start \<le> length buffer then Some (take (usize_sub stop start) buffer) else None)"

definition index_range_from :: "ring_map \<Rightarrow> nat \<Rightarrow> bytes option" where
  "index_range_from rb start = get_at rb start"

definition index_range_to :: "ring_map \<Rightarrow> nat \<Rightarrow> bytes option" where
  "index_range_to rb stop =
     (case get_at rb 0 of
        None \<Rightarrow> None
      | Some buffer \<Rightarrow> if stop \<le> length buffer then Some (take stop buffer) else None)"

definition index_range_full :: "ring_map \<Rightarrow> bytes option" where
  "index_range_full rb = get_at rb 0"

text \<open>A write to the memfd at a file offset, inside the sealed size.\<close>

definition file_write :: "nat \<Rightarrow> bytes \<Rightarrow> bytes \<Rightarrow> bytes" where
  "file_write off new old = take off old @ new @ drop (off + length new) old"

section \<open>Facts\<close>

definition ring_map_ok :: "ring_map \<Rightarrow> bool" where
  "ring_map_ok rb \<longleftrightarrow> 0 < rm_size rb \<and> length (rm_file rb) = rm_size rb \<and> rm_size rb < usize_bound"

lemma get_at_length: "get_at rb off = Some buf \<Longrightarrow> length buf = rm_size rb"
  by (auto simp: get_at_def get_buffer_infos_at_def split: if_splits)

lemma get_at_rotate:
  assumes "ring_map_ok rb"
  shows "get_at rb off = Some (rotate off (rm_file rb))"
proof -
  have "map (mapped_byte rb) [off mod rm_size rb ..< off mod rm_size rb + rm_size rb]
      = rotate off (rm_file rb)"
    using assms by (intro nth_equalityI)
      (auto simp: ring_map_ok_def mapped_byte_def nth_rotate mod_add_left_eq)
  with assms show ?thesis
    by (simp add: get_at_def get_buffer_infos_at_def ring_map_ok_def)
qed

lemma index_range_eq:
  assumes "ring_map_ok rb" and "start \<le> stop" and "stop \<le> rm_size rb"
  shows "index_range rb start stop = Some (seg start stop (rm_file rb))"
proof -
  have "take (stop - start) (rotate start (rm_file rb)) = seg start stop (rm_file rb)"
    using assms
    by (intro nth_equalityI) (auto simp: ring_map_ok_def nth_rotate add.commute)
  with assms show ?thesis
    by (simp add: index_range_def get_at_rotate usize_simps ring_map_ok_def)
qed

lemma length_file_write [simp]: "off + length new \<le> length old \<Longrightarrow> length (file_write off new old) = length old"
  by (simp add: file_write_def)

lemma nth_file_write:
  assumes "off + length new \<le> length old" and "k < length old"
  shows "file_write off new old ! k =
    (if off \<le> k \<and> k < off + length new then new ! (k - off) else old ! k)"
  using assms by (auto simp: file_write_def nth_append min_absorb2)

lemma file_write_Nil [simp]: "file_write off [] old = old"
  by (simp add: file_write_def)

lemma seg_file_write: "off + length new \<le> length old \<Longrightarrow> seg off (off + length new) (file_write off new old) = new"
  by (simp add: seg_def file_write_def)

lemma mmap_ring_buffer_zero: "\<exists>e. mmap_ring_buffer page_size r 0 = Err e"
  by (simp add: mmap_ring_buffer_def sys_mmap_def usize_add_def)

end
