(* ===== verification/LogBuffer.thy ===== *)
theory LogBuffer
  imports Mmap
begin

text \<open>
  The captured-output buffers: \<open>src/src/support/log_buffer.rs\<close> and the traits of
  \<open>src/src/logger.rs\<close> they implement. The buffer every app gets is the circular one, a ring
  of fixed capacity over a doubly mapped memfd; \<open>MemFdBuffer\<close>, \<open>MemMapBuffer\<close> and
  \<open>DevNullLogBuffer\<close> are the other implementations.

  The specification of the ring is the unbounded list of all bytes ever written:
  \<open>ring_holds cb log\<close> relates a buffer to its history \<open>log\<close>. Splicing appends to the
  history; reading from a cursor returns a piece of the history, or reports how much of it was
  overwritten. The locale \<open>log_source\<close> is the reading side of that contract, on which the log
  server rests.
\<close>

section \<open>LogChunk and the sealed memfd\<close>

record log_chunk =
  lc_buffer :: "bytes option"
  lc_missed :: nat

definition log_chunk_is_empty :: "log_chunk \<Rightarrow> bool" where
  "log_chunk_is_empty c \<longleftrightarrow> lc_buffer c = None \<and> lc_missed c = 0"

definition default_log_buffer_size :: nat where
  "default_log_buffer_size = 64 * 1024"

record memfd_buffer =
  mf_file :: bytes
  mf_capacity :: nat

text \<open>
  \<open>new_sealed\<close>: \<open>CString::new\<close> rejects a NUL in the name and the \<open>unwrap\<close> panics; then
  \<open>memfd_create\<close>, \<open>ftruncate\<close> to the capacity (zero filled) and the seals, whose results
  \<open>r 0\<close>, \<open>r 1\<close>, \<open>r 2\<close> are the kernel's.
\<close>

definition new_sealed :: "(nat \<Rightarrow> (io_error, int) outcome) \<Rightarrow> string \<Rightarrow> nat \<Rightarrow> (io_error, memfd_buffer) outcome" where
  "new_sealed r name capacity =
     (if CHR 0x00 \<in> set name then Panic ''NulError''
      else case r 0 of Err e \<Rightarrow> Err e | Panic m \<Rightarrow> Panic m | Ok _ \<Rightarrow>
        (case r 1 of Err e \<Rightarrow> Err e | Panic m \<Rightarrow> Panic m | Ok _ \<Rightarrow>
          (case r 2 of Err e \<Rightarrow> Err e | Panic m \<Rightarrow> Panic m | Ok _ \<Rightarrow>
            Ok \<lparr>mf_file = replicate capacity 0, mf_capacity = capacity\<rparr>)))"

section \<open>The circular buffer\<close>

text \<open>\<open>cb_write_pos\<close> counts every byte ever written; the physical offset is its remainder.\<close>

record circ_buffer =
  cb_map :: ring_map
  cb_capacity :: nat
  cb_write_pos :: nat

definition new_from_memfd_buffer ::
    "nat \<Rightarrow> (nat \<Rightarrow> (io_error, nat) outcome) \<Rightarrow> memfd_buffer \<Rightarrow> (io_error, circ_buffer) outcome" where
  "new_from_memfd_buffer page_size r memfd =
     (case mmap_ring_buffer page_size r (mf_capacity memfd) of
        Err e \<Rightarrow> Err e | Panic m \<Rightarrow> Panic m
      | Ok _ \<Rightarrow> Ok \<lparr>cb_map = \<lparr>rm_size = mf_capacity memfd, rm_file = mf_file memfd\<rparr>,
                   cb_capacity = mf_capacity memfd, cb_write_pos = 0\<rparr>)"

definition start_pos :: "circ_buffer \<Rightarrow> nat" where
  "start_pos cb = saturating_sub (cb_write_pos cb) (cb_capacity cb)"

definition wrap_count :: "circ_buffer \<Rightarrow> nat option" where
  "wrap_count cb = (if cb_capacity cb = 0 then None else Some (cb_write_pos cb div cb_capacity cb))"

text \<open>\<open>LogBuffer::filling\<close> and \<open>ViewableLogBuffer::write_pos\<close>.\<close>

definition filling :: "circ_buffer \<Rightarrow> nat" where
  "filling cb = cb_write_pos cb"

definition circ_kind :: string where
  "circ_kind = ''circular-mmap''"

text \<open>
  \<open>splice_from_and_view\<close>: one splice of at most \<open>len\<close> bytes, clamped to the end of the ring,
  into the file at the physical offset; the view is the mapped slice just written.
\<close>

definition splice_from_and_view ::
    "circ_buffer \<Rightarrow> pipe \<Rightarrow> nat \<Rightarrow> (io_error, bytes option) outcome \<times> pipe \<times> circ_buffer" where
  "splice_from_and_view cb p len =
     (if cb_capacity cb = 0 then (Panic ''attempt to calculate the remainder with a divisor of zero'', p, cb)
      else
        let phys_off = cb_write_pos cb mod cb_capacity cb;
            chunk = min len (cb_capacity cb - phys_off)
        in case splice p chunk of
             (Err e, p') \<Rightarrow> (Err e, p', cb)
           | (Panic m, p') \<Rightarrow> (Panic m, p', cb)
           | (Ok bs, p') \<Rightarrow>
               let n = length bs;
                   m = cb_map cb;
                   cb' = cb\<lparr>cb_map := m\<lparr>rm_file := file_write phys_off bs (rm_file m)\<rparr>,
                            cb_write_pos := usize_add (cb_write_pos cb) n\<rparr>
               in if n = 0 then (Ok None, p', cb')
                  else (case index_range (cb_map cb') phys_off (phys_off + n) of
                          None \<Rightarrow> (Panic ''range end index out of range for slice'', p', cb')
                        | Some view \<Rightarrow> (Ok (Some view), p', cb')))"

definition splice_from :: "circ_buffer \<Rightarrow> pipe \<Rightarrow> nat \<Rightarrow> (io_error, nat) outcome \<times> pipe \<times> circ_buffer" where
  "splice_from cb p len =
     (case splice_from_and_view cb p len of
        (Ok (Some view), p', cb') \<Rightarrow> (Ok (length view), p', cb')
      | (Ok None, p', cb') \<Rightarrow> (Ok 0, p', cb')
      | (Err e, p', cb') \<Rightarrow> (Err e, p', cb')
      | (Panic m, p', cb') \<Rightarrow> (Panic m, p', cb'))"

text \<open>\<open>read_from_cursor\<close>; \<open>None\<close> is a panic (a zero capacity, or a slice out of range).\<close>

definition read_from_cursor :: "circ_buffer \<Rightarrow> nat \<Rightarrow> log_chunk option" where
  "read_from_cursor cb from =
     (let start = saturating_sub (cb_write_pos cb) (cb_capacity cb);
          (from', missed) = (if from < start then (start, start - from) else (from, 0));
          len = usize_sub (cb_write_pos cb) from'
      in if len = 0 then Some \<lparr>lc_buffer = None, lc_missed = missed\<rparr>
         else if cb_capacity cb = 0 then None
         else let start_phys = from' mod cb_capacity cb;
                  chunk_len = min len (cb_capacity cb - start_phys)
              in map_option (\<lambda>buf. \<lparr>lc_buffer = Some buf, lc_missed = missed\<rparr>)
                   (index_range (cb_map cb) start_phys (start_phys + chunk_len)))"

section \<open>The unbounded history behind a ring\<close>

definition ring_holds :: "circ_buffer \<Rightarrow> bytes \<Rightarrow> bool" where
  "ring_holds cb log \<longleftrightarrow>
     ring_map_ok (cb_map cb) \<and> cb_capacity cb = rm_size (cb_map cb)
   \<and> cb_write_pos cb = length log \<and> length log < usize_bound
   \<and> (\<forall>i. length log - cb_capacity cb \<le> i \<and> i < length log \<longrightarrow>
        rm_file (cb_map cb) ! (i mod cb_capacity cb) = log ! i)"

lemma ring_holdsD:
  assumes "ring_holds cb log"
  shows "ring_map_ok (cb_map cb)" and "rm_size (cb_map cb) = cb_capacity cb"
    and "length (rm_file (cb_map cb)) = cb_capacity cb" and "0 < cb_capacity cb"
    and "cb_write_pos cb = length log" and "length log < usize_bound"
    and "cb_capacity cb < usize_bound"
  using assms by (auto simp: ring_holds_def ring_map_ok_def)

lemma ring_holds_nth:
  "ring_holds cb log \<Longrightarrow> length log - cb_capacity cb \<le> i \<Longrightarrow> i < length log \<Longrightarrow>
     rm_file (cb_map cb) ! (i mod cb_capacity cb) = log ! i"
  unfolding ring_holds_def by blast

lemma new_buffer_holds:
  assumes "0 < cap" and "cap < usize_bound" and "new_sealed rs name cap = Ok memfd"
    and "new_from_memfd_buffer page_size r memfd = Ok cb"
  shows "ring_holds cb []" and "cb_capacity cb = cap"
  using assms
  by (auto simp: new_sealed_def new_from_memfd_buffer_def ring_holds_def ring_map_ok_def usize_bound_def
      split: if_splits outcome.splits)

text \<open>Two offsets of a window no longer than the ring that share a physical slot are equal.\<close>

lemma mod_window_inj:
  assumes "(i::nat) mod c = j mod c" and "i \<le> j" and "j < i + c"
  shows "i = j"
proof -
  from assms have "(j - i) mod c = 0"
    by (metis mod_eq_dvd_iff_nat dvd_eq_mod_eq_0)
  moreover have "j - i < c" using assms by simp
  ultimately show ?thesis using assms(2) by simp
qed

text \<open>Physical offsets of the bytes of one clamped chunk: no wrap inside the chunk.\<close>

lemma mod_add_chunk: "0 < c \<Longrightarrow> k < c - w mod c \<Longrightarrow> (w + k) mod c = (w::nat) mod c + k"
  by (metis less_diff_conv add.commute mod_add_left_eq mod_less)

lemma file_write_history:
  assumes holds: "ring_holds cb log" and n: "length bs \<le> cb_capacity cb - length log mod cb_capacity cb"
    and i: "length (log @ bs) - cb_capacity cb \<le> i" "i < length (log @ bs)"
  shows "file_write (length log mod cb_capacity cb) bs (rm_file (cb_map cb)) ! (i mod cb_capacity cb) = (log @ bs) ! i"
proof -
  let ?c = "cb_capacity cb" and ?w = "length log" and ?f = "rm_file (cb_map cb)"
  have c: "0 < ?c" and lf: "length ?f = ?c" using ring_holdsD [OF holds] by simp_all
  have fit: "?w mod ?c + length bs \<le> length ?f"
    using n c lf mod_less_divisor [OF c, of ?w] by linarith
  have chunk: "(?w + k) mod ?c = ?w mod ?c + k" if "k < length bs" for k
    using that n by (intro mod_add_chunk [OF c]) linarith
  show ?thesis
  proof (cases "i < ?w")
    case True
    have "\<not> (?w mod ?c \<le> i mod ?c \<and> i mod ?c < ?w mod ?c + length bs)"
    proof
      assume in_chunk: "?w mod ?c \<le> i mod ?c \<and> i mod ?c < ?w mod ?c + length bs"
      define k where "k = i mod ?c - ?w mod ?c"
      have k: "k < length bs" "i mod ?c = ?w mod ?c + k"
        using in_chunk by (auto simp: k_def)
      have "i mod ?c = (?w + k) mod ?c"
        using chunk [OF k(1)] k(2) by (rule trans [OF _ sym, rotated])
      then have "i = ?w + k"
      proof (rule mod_window_inj)
        show "i \<le> ?w + k" using True by simp
        show "?w + k < i + ?c" using i(1) k(1) by simp
      qed
      with True show False by simp
    qed
    moreover have "i mod ?c < length ?f"
      using c lf by simp
    ultimately have "file_write (?w mod ?c) bs ?f ! (i mod ?c) = ?f ! (i mod ?c)"
      using nth_file_write [OF fit] by presburger
    also have "\<dots> = log ! i"
      using i True by (intro ring_holds_nth [OF holds]) simp_all
    finally show ?thesis using True by (simp add: nth_append)
  next
    case False
    define k where "k = i - ?w"
    have k: "i = ?w + k" "k < length bs"
      using False i by (auto simp: k_def)
    have "file_write (?w mod ?c) bs ?f ! (?w mod ?c + k) = bs ! k"
      using fit k(2) nth_file_write [OF fit, of "?w mod ?c + k"] by simp
    then show ?thesis
      by (simp only: k(1) chunk [OF k(2)] nth_append_length_plus)
  qed
qed

text \<open>
  The ring after one splice: its history grew by exactly the bytes that left the pipe, at most
  \<open>len\<close> of them, and the view is those bytes. \<open>Ok None\<close> means that none moved.
\<close>

lemma splice_from_and_view_Ok:
  assumes holds: "ring_holds cb log" and sp: "splice p (min len (cb_capacity cb - length log mod cb_capacity cb)) = (Ok bs, p')"
    and room: "length log + length bs < usize_bound"
  shows "\<exists>cb'. splice_from_and_view cb p len = (Ok (if bs = [] then None else Some bs), p', cb')
      \<and> ring_holds cb' (log @ bs) \<and> cb_capacity cb' = cb_capacity cb"
proof -
  let ?c = "cb_capacity cb" and ?off = "length log mod cb_capacity cb" and ?m = "cb_map cb"
  note D = ring_holdsD [OF holds]
  define cb' where "cb' = cb\<lparr>cb_map := ?m\<lparr>rm_file := file_write ?off bs (rm_file ?m)\<rparr>,
      cb_write_pos := length log + length bs\<rparr>"
  have n: "length bs \<le> ?c - ?off"
    using splice_OkD(2) [OF sp] by simp
  then have fit: "?off + length bs \<le> length (rm_file ?m)"
    using D(3,4) mod_less_divisor [OF D(4), of "length log"] by linarith
  have ok: "ring_map_ok (cb_map cb')"
    using D fit by (simp add: cb'_def ring_map_ok_def)
  have holds': "ring_holds cb' (log @ bs)"
    using D ok room file_write_history [OF holds n]
    by (simp add: ring_holds_def cb'_def)
  have view: "index_range (cb_map cb') ?off (?off + length bs) = Some bs"
    using index_range_eq [OF ok, of ?off "?off + length bs"] fit D
    by (simp add: cb'_def seg_file_write)
  have "splice_from_and_view cb p len = (Ok (if bs = [] then None else Some bs), p', cb')"
    using view D room by (simp add: splice_from_and_view_def sp Let_def cb'_def usize_simps)
  with holds' show ?thesis
    by (auto simp: cb'_def)
qed

lemma splice_from_and_view_Err:
  assumes "ring_holds cb log" and "splice p (min len (cb_capacity cb - length log mod cb_capacity cb)) = (Err e, p')"
  shows "splice_from_and_view cb p len = (Err e, p, cb)"
  using assms ring_holdsD [OF assms(1)] splice_ErrD [OF assms(2)]
  by (simp add: splice_from_and_view_def Let_def)

text \<open>The same facts by cases on the result, for the loops that run splices.\<close>

lemma chunk_pos: "ring_holds cb log \<Longrightarrow> 0 < len \<Longrightarrow> 0 < min len (cb_capacity cb - length log mod cb_capacity cb)"
  using ring_holdsD(4) by fastforce

lemma splice_from_and_view_cases:
  assumes holds: "ring_holds cb log" and room: "length log + length (pipe_data p) < usize_bound"
    and len: "0 < len"
  obtains
    (err) e where "splice_from_and_view cb p len = (Err e, p, cb)"
  | (none) cb' p' where "splice_from_and_view cb p len = (Ok None, p', cb')"
      and "pipe_data p = []" and "p' = p" and "ring_holds cb' log" and "cb_capacity cb' = cb_capacity cb"
  | (some) bs p' cb' where "splice_from_and_view cb p len = (Ok (Some bs), p', cb')"
      and "bs \<noteq> []" and "pipe_data p = bs @ pipe_data p'" and "length bs \<le> len"
      and "p' = p\<lparr>pipe_data := pipe_data p'\<rparr>" and "ring_holds cb' (log @ bs)"
      and "cb_capacity cb' = cb_capacity cb"
proof (cases "splice p (min len (cb_capacity cb - length log mod cb_capacity cb))")
  case (Pair r p')
  show thesis
  proof (cases r)
    case (Err e)
    with Pair splice_from_and_view_Err [OF holds, of p len e p'] show ?thesis
      by (intro err) simp
  next
    case (Panic m)
    with Pair splice_no_panic show ?thesis by blast
  next
    case (Ok bs)
    with Pair have sp: "splice p (min len (cb_capacity cb - length log mod cb_capacity cb)) = (Ok bs, p')"
      by simp
    note S = splice_OkD [OF sp]
    have "length log + length bs < usize_bound"
      using room arg_cong [OF S(1), of length] by simp
    from splice_from_and_view_Ok [OF holds sp this] obtain cb' where
      cb': "splice_from_and_view cb p len = (Ok (if bs = [] then None else Some bs), p', cb')"
        "ring_holds cb' (log @ bs)" "cb_capacity cb' = cb_capacity cb"
      by blast
    show ?thesis
    proof (cases "bs = []")
      case True
      then have "pipe_data p = []"
        using splice_Nil_iff [OF sp chunk_pos [OF holds len]] by simp
      moreover have "p' = p"
        using S True by (metis append_Nil pipe.surjective pipe.update_convs(1))
      ultimately show ?thesis
        using cb' True by (intro none [of p' cb']) simp_all
    next
      case False
      with cb' S show ?thesis
        by (intro some [of bs p' cb']) simp_all
    qed
  qed
qed

section \<open>Reading from a cursor\<close>

text \<open>What a reader at \<open>from\<close> gets from a history: the skipped bytes and the next piece.\<close>

lemma read_from_cursor_spec:
  assumes holds: "ring_holds cb log" and le: "from \<le> length log"
  defines "from' \<equiv> max from (length log - cb_capacity cb)"
  shows "read_from_cursor cb from =
    Some \<lparr>lc_buffer =
            (if from' = length log then None
             else Some (seg from' (min (length log) (from' + (cb_capacity cb - from' mod cb_capacity cb))) log)),
          lc_missed = from' - from\<rparr>"
proof -
  let ?c = "cb_capacity cb" and ?w = "length log"
  note D = ring_holdsD [OF holds]
  have f: "?w - ?c \<le> from'" "from \<le> from'" "from' \<le> ?w"
    using le by (auto simp: from'_def)
  define k where "k = min (?w - from') (?c - from' mod ?c)"
  have fits: "from' mod ?c + k \<le> ?c"
    using mod_less_divisor [OF D(4), of from'] by (simp add: k_def)
  have kw: "from' + k \<le> ?w"
    using f by (simp add: k_def)
  have piece: "seg (from' mod ?c) (from' mod ?c + k) (rm_file (cb_map cb)) = seg from' (from' + k) log"
  proof (rule nth_equalityI)
    show "length (seg (from' mod ?c) (from' mod ?c + k) (rm_file (cb_map cb))) = length (seg from' (from' + k) log)"
      using D fits f by (simp add: k_def)
    fix i
    assume "i < length (seg (from' mod ?c) (from' mod ?c + k) (rm_file (cb_map cb)))"
    then have i: "i < k" by simp
    then have m: "(from' + i) mod ?c = from' mod ?c + i"
      by (intro mod_add_chunk [OF D(4)]) (simp add: k_def)
    have "rm_file (cb_map cb) ! ((from' + i) mod ?c) = log ! (from' + i)"
      using f i by (intro ring_holds_nth [OF holds]) (auto simp: k_def)
    then show "seg (from' mod ?c) (from' mod ?c + k) (rm_file (cb_map cb)) ! i = seg from' (from' + k) log ! i"
      using i fits kw D(3) by (simp add: m)
  qed
  have idx: "index_range (cb_map cb) (from' mod ?c) (from' mod ?c + k) = Some (seg from' (from' + k) log)"
    using index_range_eq [OF D(1), of "from' mod ?c" "from' mod ?c + k"] fits D(2) piece by simp
  have split: "(if from < ?w - ?c then (?w - ?c, ?w - ?c - from) else (from, 0)) = (from', from' - from)"
    by (auto simp: from'_def)
  have k': "from' + k = min ?w (from' + (?c - from' mod ?c))"
    using f by (auto simp: k_def)
  show ?thesis
    using f D idx [unfolded k_def] k' [unfolded k_def]
    by (simp add: read_from_cursor_def Let_def saturating_sub_def split usize_simps del: max_def)
qed


section \<open>The interface of a log that is read by cursors\<close>

text \<open>
  What the log server relies on: a log has a history; the end of the history is \<open>wpos\<close>, its
  retained part starts at \<open>start\<close>; a read at a cursor inside the history skips what was
  overwritten, reports how much that was, and returns a non-empty piece that follows unless
  nothing does.
\<close>

locale log_source =
  fixes holds :: "'b \<Rightarrow> bytes \<Rightarrow> bool"
    and wpos :: "'b \<Rightarrow> nat"
    and start :: "'b \<Rightarrow> nat"
    and read :: "'b \<Rightarrow> nat \<Rightarrow> log_chunk option"
  assumes wpos_length: "holds b hist \<Longrightarrow> wpos b = length hist"
    and start_le: "holds b hist \<Longrightarrow> start b \<le> length hist"
    and read_end: "holds b hist \<Longrightarrow> from = length hist \<Longrightarrow> read b from = Some \<lparr>lc_buffer = None, lc_missed = 0\<rparr>"
    and read_piece: "holds b hist \<Longrightarrow> from < length hist \<Longrightarrow>
      \<exists>k. 0 < k \<and> max from (start b) + k \<le> length hist
        \<and> read b from = Some \<lparr>lc_buffer = Some (seg (max from (start b)) (max from (start b) + k) hist),
            lc_missed = max from (start b) - from\<rparr>"
begin

text \<open>A read never fails for a cursor inside the history.\<close>

lemma read_total:
  assumes "holds b hist" and "from \<le> length hist"
  shows "\<exists>chunk. read b from = Some chunk"
  using assms read_end [OF assms(1), of "from"] read_piece [OF assms(1), of "from"]
  by (cases "from = length hist") auto

text \<open>The next cursor stays inside the history and the bytes returned are those in between.\<close>

lemma read_chunk:
  assumes "holds b hist" and "from \<le> length hist" and "read b from = Some chunk"
  shows "(from = length hist \<and> chunk = \<lparr>lc_buffer = None, lc_missed = 0\<rparr>)
    \<or> (\<exists>bs. lc_buffer chunk = Some bs \<and> bs \<noteq> [] \<and> from + lc_missed chunk = max from (start b)
         \<and> from + lc_missed chunk + length bs \<le> length hist
         \<and> bs = seg (from + lc_missed chunk) (from + lc_missed chunk + length bs) hist)"
proof (cases "from = length hist")
  case True
  with assms read_end [OF assms(1) True] show ?thesis by simp
next
  case False
  with assms(2) have "from < length hist" by simp
  from read_piece [OF assms(1) this] assms(3) obtain k where k: "0 < k" "max from (start b) + k \<le> length hist"
    and c: "chunk = \<lparr>lc_buffer = Some (seg (max from (start b)) (max from (start b) + k) hist),
            lc_missed = max from (start b) - from\<rparr>" by auto
  have "length (seg (max from (start b)) (max from (start b) + k) hist) = k"
    using k by simp
  moreover from this k(1) have "seg (max from (start b)) (max from (start b) + k) hist \<noteq> []"
    by (metis length_0_conv less_not_refl)
  ultimately show ?thesis
    using k c by (intro disjI2 exI [of _ "seg (max from (start b)) (max from (start b) + k) hist"]) auto
qed

text \<open>A cursor that is still retained misses nothing.\<close>

lemma read_retained:
  assumes "holds b hist" and "start b \<le> from" and "from \<le> length hist" and "read b from = Some chunk"
  shows "lc_missed chunk = 0"
  using read_chunk [OF assms(1,3,4)] assms(2) by auto

end

lemma circ_start_pos: "ring_holds cb hist \<Longrightarrow> start_pos cb = length hist - cb_capacity cb"
  by (simp add: start_pos_def saturating_sub_def ring_holdsD(5))

interpretation circ: log_source ring_holds filling start_pos read_from_cursor
proof
  fix cb :: circ_buffer and hist :: bytes and from_pos :: nat
  assume holds: "ring_holds cb hist"
  note D = ring_holdsD [OF holds]
  show "filling cb = length hist"
    by (simp add: filling_def D)
  show "start_pos cb \<le> length hist"
    by (simp add: circ_start_pos [OF holds])
  show "read_from_cursor cb from_pos = Some \<lparr>lc_buffer = None, lc_missed = 0\<rparr>" if "from_pos = length hist"
    using read_from_cursor_spec [OF holds, of from_pos] that by simp
  show "\<exists>k. 0 < k \<and> max from_pos (start_pos cb) + k \<le> length hist
        \<and> read_from_cursor cb from_pos = Some \<lparr>lc_buffer = Some (seg (max from_pos (start_pos cb)) (max from_pos (start_pos cb) + k) hist),
            lc_missed = max from_pos (start_pos cb) - from_pos\<rparr>" if "from_pos < length hist"
  proof -
    define f where "f = max from_pos (start_pos cb)"
    have f: "f = max from_pos (length hist - cb_capacity cb)"
      by (simp add: f_def circ_start_pos [OF holds])
    have lt: "f < length hist"
      using that D(4) by (auto simp: f)
    define k where "k = min (length hist - f) (cb_capacity cb - f mod cb_capacity cb)"
    have "0 < k"
      using lt mod_less_divisor [OF D(4), of f] by (auto simp: k_def)
    moreover have "f + k = min (length hist) (f + (cb_capacity cb - f mod cb_capacity cb))"
      using lt by (auto simp: k_def)
    ultimately show ?thesis
      using read_from_cursor_spec [OF holds, of from_pos] that lt
      by (intro exI [of _ k]) (auto simp: f [symmetric] f_def [symmetric])
  qed
qed

end
