(* ===== verification/Strings.thy ===== *)
theory Strings
  imports Prelude "HOL-Library.Sublist"
begin

text \<open>
  The string operations of Rust's standard library that the daemon and its client use: decimal
  formatting and parsing, \<open>lines\<close>, \<open>strip_prefix\<close>, \<open>split\<close>, \<open>trim\<close>, padding, and the lossy
  UTF-8 decoding. A \<open>String\<close> is the list of its UTF-8 bytes as characters.
\<close>

section \<open>Bytes and characters\<close>

definition char_of_byte :: "byte \<Rightarrow> char" where
  "char_of_byte b = char_of (unat b)"

definition byte_of_char :: "char \<Rightarrow> byte" where
  "byte_of_char c = word_of_nat (of_char c)"

definition as_bytes :: "string \<Rightarrow> bytes" where
  "as_bytes s = map byte_of_char s"

definition of_bytes :: "bytes \<Rightarrow> string" where
  "of_bytes bs = map char_of_byte bs"

lemma char_of_byte_of_char [simp]: "char_of_byte (byte_of_char c) = c"
proof -
  have "unat (word_of_nat (of_char c) :: byte) = of_char c"
    by (simp add: unat_of_nat)
  then show ?thesis
    by (simp add: char_of_byte_def byte_of_char_def)
qed

lemma byte_of_char_of_byte [simp]: "byte_of_char (char_of_byte b) = b"
proof -
  have "unat b < 256"
    using unsigned_less [of b] by simp
  then have "of_char (char_of (unat b)) = unat b"
    by simp
  then show ?thesis
    by (simp add: char_of_byte_def byte_of_char_def)
qed

lemma of_bytes_as_bytes [simp]: "of_bytes (as_bytes s) = s"
  by (simp add: of_bytes_def as_bytes_def comp_def)

lemma as_bytes_of_bytes [simp]: "as_bytes (of_bytes bs) = bs"
  by (simp add: of_bytes_def as_bytes_def comp_def)

lemma as_bytes_append [simp]: "as_bytes (s @ t) = as_bytes s @ as_bytes t"
  by (simp add: as_bytes_def)

lemma length_as_bytes [simp]: "length (as_bytes s) = length s"
  by (simp add: as_bytes_def)

lemma as_bytes_inj [simp]: "as_bytes s = as_bytes t \<longleftrightarrow> s = t"
  by (metis of_bytes_as_bytes)

section \<open>Decimal numbers\<close>

definition digit_char :: "nat \<Rightarrow> char" where
  "digit_char d = char_of (48 + d)"

fun show_nat :: "nat \<Rightarrow> string" where
  "show_nat n = (if n < 10 then [digit_char n] else show_nat (n div 10) @ [digit_char (n mod 10)])"

declare show_nat.simps [simp del]

text \<open>\<open>Display\<close> of a signed integer.\<close>

definition show_int :: "int \<Rightarrow> string" where
  "show_int i = (if i < 0 then ''-'' @ show_nat (nat (- i)) else show_nat (nat i))"

definition digit_val :: "char \<Rightarrow> nat option" where
  "digit_val c = (if 48 \<le> (of_char c :: nat) \<and> (of_char c :: nat) \<le> 57 then Some (of_char c - 48) else None)"

fun parse_digits :: "nat \<Rightarrow> string \<Rightarrow> nat option" where
  "parse_digits acc [] = Some acc"
| "parse_digits acc (c # cs) =
     (case digit_val c of None \<Rightarrow> None | Some d \<Rightarrow> parse_digits (10 * acc + d) cs)"

text \<open>\<open>str::parse::<u64>\<close>: an optional plus sign, at least one digit, no overflow.\<close>

definition parse_u64 :: "string \<Rightarrow> nat option" where
  "parse_u64 s =
     (let ds = (case s of c # cs \<Rightarrow> if c = CHR ''+'' \<and> cs \<noteq> [] then cs else s | [] \<Rightarrow> [])
      in if ds = [] then None
         else case parse_digits 0 ds of
                None \<Rightarrow> None
              | Some n \<Rightarrow> if n < 2 ^ 64 then Some n else None)"

lemma digit_val_digit_char [simp]: "d < 10 \<Longrightarrow> digit_val (digit_char d) = Some d"
  by (simp add: digit_val_def digit_char_def)

lemma parse_digits_append:
  "parse_digits acc (xs @ ys) = (case parse_digits acc xs of None \<Rightarrow> None | Some a \<Rightarrow> parse_digits a ys)"
  by (induction acc xs rule: parse_digits.induct) (auto split: option.split)

lemma show_nat_nonempty [simp]: "show_nat n \<noteq> []"
  by (subst show_nat.simps) simp

lemma parse_digits_show_nat: "parse_digits 0 (show_nat n) = Some n"
proof (induction n rule: show_nat.induct)
  case (1 n)
  show ?case
  proof (cases "n < 10")
    case True
    then show ?thesis by (subst show_nat.simps) simp
  next
    case False
    with "1.IH" have "parse_digits 0 (show_nat (n div 10)) = Some (n div 10)" by simp
    with False show ?thesis
      by (subst show_nat.simps) (simp add: parse_digits_append)
  qed
qed

lemma set_show_nat: "c \<in> set (show_nat n) \<Longrightarrow> \<exists>d<10. c = digit_char d"
proof (induction n rule: show_nat.induct)
  case (1 n)
  have "\<exists>d<10. digit_char (n mod 10) = digit_char d"
    by (rule exI [of _ "n mod 10"]) simp
  with "1" show ?case
    by (subst (asm) (2) show_nat.simps) (auto split: if_splits)
qed

lemma digit_char_nat: "d < 10 \<Longrightarrow> (of_char (digit_char d) :: nat) = 48 + d"
  by (simp add: digit_char_def)

lemma show_nat_no_plus: "CHR ''+'' \<notin> set (show_nat n)"
proof
  assume "CHR ''+'' \<in> set (show_nat n)"
  then obtain d where "d < 10" and "CHR ''+'' = digit_char d"
    by (auto dest: set_show_nat)
  then have "(of_char CHR ''+'' :: nat) = 48 + d"
    by (simp add: digit_char_nat)
  then show False by simp
qed

lemma parse_u64_show_nat: "n < 2 ^ 64 \<Longrightarrow> parse_u64 (show_nat n) = Some n"
proof -
  assume n: "n < 2 ^ 64"
  have "(case show_nat n of c # cs \<Rightarrow> if c = CHR ''+'' \<and> cs \<noteq> [] then cs else show_nat n | [] \<Rightarrow> []) = show_nat n"
    using show_nat_no_plus [of n] by (cases "show_nat n") auto
  with n show ?thesis
    by (simp add: parse_u64_def parse_digits_show_nat)
qed

section \<open>Lines, prefixes, splitting\<close>

text \<open>\<open>split_inclusive('\n')\<close>: the newline stays at the end of its piece.\<close>

fun split_inclusive :: "string \<Rightarrow> string list" where
  "split_inclusive [] = []"
| "split_inclusive (c # cs) =
     (if c = CHR 0x0A then [c] # split_inclusive cs
      else case split_inclusive cs of [] \<Rightarrow> [[c]] | l # ls \<Rightarrow> (c # l) # ls)"

text \<open>A terminated line loses its newline and then one carriage return.\<close>

definition line_body :: "string \<Rightarrow> string" where
  "line_body l =
     (if l \<noteq> [] \<and> last l = CHR 0x0A
      then let b = butlast l in if b \<noteq> [] \<and> last b = CHR 0x0D then butlast b else b
      else l)"

definition str_lines :: "string \<Rightarrow> string list" where
  "str_lines s = map line_body (split_inclusive s)"

definition strip_prefix :: "string \<Rightarrow> string \<Rightarrow> string option" where
  "strip_prefix p s = (if prefix p s then Some (drop (length p) s) else None)"

fun find_map :: "('a \<Rightarrow> 'b option) \<Rightarrow> 'a list \<Rightarrow> 'b option" where
  "find_map f [] = None"
| "find_map f (x # xs) = (case f x of Some y \<Rightarrow> Some y | None \<Rightarrow> find_map f xs)"

text \<open>\<open>str::split(c)\<close>: never empty.\<close>

fun str_split :: "char \<Rightarrow> string \<Rightarrow> string list" where
  "str_split d [] = [[]]"
| "str_split d (c # cs) =
     (if c = d then [] # str_split d cs
      else case str_split d cs of [] \<Rightarrow> [[c]] | l # ls \<Rightarrow> (c # l) # ls)"

text \<open>\<open>join\<close> with a separator, and \<open>split_once\<close>.\<close>

fun join :: "string \<Rightarrow> string list \<Rightarrow> string" where
  "join sep [] = []"
| "join sep [x] = x"
| "join sep (x # y # ys) = x @ sep @ join sep (y # ys)"

definition split_once :: "char \<Rightarrow> string \<Rightarrow> (string \<times> string) option" where
  "split_once d s =
     (if d \<in> set s then Some (takeWhile (\<lambda>c. c \<noteq> d) s, tl (dropWhile (\<lambda>c. c \<noteq> d) s)) else None)"

lemma str_split_nonempty [simp]: "str_split d s \<noteq> []"
  by (induction s) (auto split: list.split)

lemma join_Cons: "ys \<noteq> [] \<Longrightarrow> join sep (x # ys) = x @ sep @ join sep ys"
  by (cases ys) auto

lemma join_str_split: "join [d] (str_split d s) = s"
proof (induction s)
  case (Cons c cs)
  then show ?case
    by (cases "str_split d cs"; cases "tl (str_split d cs)")
      (auto simp: join_Cons split: list.splits)
qed simp

lemma split_once_join: "d \<notin> set k \<Longrightarrow> split_once d (k @ d # v) = Some (k, v)"
  by (simp add: split_once_def takeWhile_append dropWhile_append)

section \<open>Trimming\<close>

text \<open>The 25 characters with the Unicode \<open>White_Space\<close> property, in UTF-8.\<close>

definition white_space :: "string list" where
  "white_space =
     [[CHR 0x09], [CHR 0x0A], [CHR 0x0B], [CHR 0x0C], [CHR 0x0D], [CHR 0x20],
      [CHR 0xC2, CHR 0x85], [CHR 0xC2, CHR 0xA0], [CHR 0xE1, CHR 0x9A, CHR 0x80]]
     @ map (\<lambda>b. [CHR 0xE2, CHR 0x80, b])
         [CHR 0x80, CHR 0x81, CHR 0x82, CHR 0x83, CHR 0x84, CHR 0x85, CHR 0x86, CHR 0x87,
          CHR 0x88, CHR 0x89, CHR 0x8A, CHR 0xA8, CHR 0xA9, CHR 0xAF]
     @ [[CHR 0xE2, CHR 0x81, CHR 0x9F], [CHR 0xE3, CHR 0x80, CHR 0x80]]"

function strip_ws :: "string list \<Rightarrow> string \<Rightarrow> string" where
  "strip_ws ws s =
     (case find (\<lambda>w. w \<noteq> [] \<and> prefix w s) ws of
        None \<Rightarrow> s
      | Some w \<Rightarrow> strip_ws ws (drop (length w) s))"
  by pat_completeness auto
termination
  by (relation "measure (\<lambda>(ws, s). length s)")
    (auto simp: find_Some_iff prefix_length_le length_greater_0_conv [symmetric] simp del: length_greater_0_conv
      dest: prefix_length_le)

declare strip_ws.simps [simp del]

definition trim :: "string \<Rightarrow> string" where
  "trim s = rev (strip_ws (map rev white_space) (rev (strip_ws white_space s)))"

section \<open>Padding\<close>

text \<open>The number of characters: the bytes that are not UTF-8 continuation bytes.\<close>

definition char_count :: "string \<Rightarrow> nat" where
  "char_count s = length (filter (\<lambda>c. \<not> (0x80 \<le> (of_char c :: nat) \<and> (of_char c :: nat) < 0xC0)) s)"

text \<open>\<open>{:width$}\<close> on a string: left aligned, padded with spaces.\<close>

definition pad_right :: "nat \<Rightarrow> string \<Rightarrow> string" where
  "pad_right w s = s @ replicate (w - char_count s) CHR '' ''"

section \<open>Lossy UTF-8\<close>

text \<open>
  One step of \<open>Utf8Chunks\<close>: whether the next bytes are a character, and how many bytes are
  consumed (an invalid sequence is consumed up to its longest valid prefix). A missing byte
  reads as 0.
\<close>

definition byte_at :: "bytes \<Rightarrow> nat \<Rightarrow> byte" where
  "byte_at bs i = (if i < length bs then bs ! i else 0)"

definition is_cont :: "byte \<Rightarrow> bool" where
  "is_cont b \<longleftrightarrow> 0x80 \<le> b \<and> b < 0xC0"

definition second_of_3 :: "byte \<Rightarrow> byte \<Rightarrow> bool" where
  "second_of_3 b c \<longleftrightarrow>
     (b = 0xE0 \<and> 0xA0 \<le> c \<and> c \<le> 0xBF) \<or> (0xE1 \<le> b \<and> b \<le> 0xEC \<and> 0x80 \<le> c \<and> c \<le> 0xBF)
   \<or> (b = 0xED \<and> 0x80 \<le> c \<and> c \<le> 0x9F) \<or> (0xEE \<le> b \<and> b \<le> 0xEF \<and> 0x80 \<le> c \<and> c \<le> 0xBF)"

definition second_of_4 :: "byte \<Rightarrow> byte \<Rightarrow> bool" where
  "second_of_4 b c \<longleftrightarrow>
     (b = 0xF0 \<and> 0x90 \<le> c \<and> c \<le> 0xBF) \<or> (0xF1 \<le> b \<and> b \<le> 0xF3 \<and> 0x80 \<le> c \<and> c \<le> 0xBF)
   \<or> (b = 0xF4 \<and> 0x80 \<le> c \<and> c \<le> 0x8F)"

definition utf8_step :: "byte \<Rightarrow> bytes \<Rightarrow> bool \<times> nat" where
  "utf8_step b r =
     (if b < 0x80 then (True, 1)
      else if 0xC2 \<le> b \<and> b \<le> 0xDF then (if is_cont (byte_at r 0) then (True, 2) else (False, 1))
      else if 0xE0 \<le> b \<and> b \<le> 0xEF then
        (if \<not> second_of_3 b (byte_at r 0) then (False, 1)
         else if is_cont (byte_at r 1) then (True, 3) else (False, 2))
      else if 0xF0 \<le> b \<and> b \<le> 0xF4 then
        (if \<not> second_of_4 b (byte_at r 0) then (False, 1)
         else if \<not> is_cont (byte_at r 1) then (False, 2)
         else if is_cont (byte_at r 2) then (True, 4) else (False, 3))
      else (False, 1))"

definition replacement :: bytes where
  "replacement = [0xEF, 0xBF, 0xBD]"

fun lossy :: "bytes \<Rightarrow> bytes" where
  "lossy [] = []"
| "lossy (b # r) =
     (let (ok, n) = utf8_step b r
      in (if ok then b # take (n - 1) r else replacement) @ lossy (drop (n - 1) r))"

text \<open>Well-formed UTF-8: what the bytes of every Rust \<open>String\<close> are.\<close>

fun valid_utf8 :: "bytes \<Rightarrow> bool" where
  "valid_utf8 [] = True"
| "valid_utf8 (b # r) = (let (ok, n) = utf8_step b r in ok \<and> valid_utf8 (drop (n - 1) r))"

declare lossy.simps(2) [simp del] valid_utf8.simps(2) [simp del]

text \<open>\<open>String::from_utf8_lossy(bytes).into_owned()\<close>.\<close>

definition from_utf8_lossy :: "bytes \<Rightarrow> string" where
  "from_utf8_lossy bs = of_bytes (lossy bs)"

lemma lossy_valid: "valid_utf8 bs \<Longrightarrow> lossy bs = bs"
proof (induction bs rule: lossy.induct)
  case (2 b r)
  obtain ok n where s: "utf8_step b r = (ok, n)" by (cases "utf8_step b r")
  from "2.prems" s have "ok" and "valid_utf8 (drop (n - 1) r)"
    by (simp_all add: valid_utf8.simps(2))
  with "2.IH" [OF s [symmetric] refl] s show ?case
    by (simp add: lossy.simps(2))
qed simp

lemma from_utf8_lossy_as_bytes: "valid_utf8 (as_bytes s) \<Longrightarrow> from_utf8_lossy (as_bytes s) = s"
  by (simp add: from_utf8_lossy_def lossy_valid)

lemma valid_utf8_ascii: "\<forall>b \<in> set bs. b < 0x80 \<Longrightarrow> valid_utf8 bs"
  by (induction bs) (auto simp: valid_utf8.simps(2) utf8_step_def)

end
