(* ===== verification/Cgroups.thy ===== *)
theory Cgroups
  imports Strings Kernel
begin

text \<open>
  Control groups, \<open>src/src/cgroups.rs\<close>: the limits each app's cgroup is built with, the
  \<open>clone3\<close> call that spawns a process inside it, the usage counters read back, and the bounded
  wait for a killed cgroup to become empty. The \<open>cgroups_rs\<close> crate is not part of the
  repository: what it is asked for (\<open>cgroup_spec\<close>) is modelled, what it answers is a parameter.
\<close>

section \<open>Limits\<close>

definition lway_cgroup_name :: string where
  "lway_cgroup_name = ''lway''"

definition lway_memory_hard_limit :: int where
  "lway_memory_hard_limit = 1024 * 1024 * 1024"

definition lway_memory_soft_limit :: int where
  "lway_memory_soft_limit = 0"

definition lway_memory_swap_limit :: int where
  "lway_memory_swap_limit = 1024 * 1024 * 256"

definition default_cpu_weight :: nat where
  "default_cpu_weight = 100"

definition default_io_weight :: nat where
  "default_io_weight = 100"

definition lway_app_cgroup_prefix :: string where
  "lway_app_cgroup_prefix = ''''"

record app_cgroup_config =
  cpu_weight :: "nat option"
  io_weight :: "nat option"
  memory_hard_limit :: "int option"
  memory_soft_limit :: "int option"
  memory_swap_limit :: "int option"

text \<open>What the \<open>CgroupBuilder\<close> chain is given.\<close>

record cgroup_spec =
  cs_path :: string
  cs_cpu_shares :: nat
  cs_blkio_weight :: nat
  cs_hard :: int
  cs_soft :: int
  cs_swap :: int

fun unwrap_or :: "'a option \<Rightarrow> 'a \<Rightarrow> 'a" where
  "unwrap_or None d = d"
| "unwrap_or (Some x) d = x"

definition init_main_cgroup :: cgroup_spec where
  "init_main_cgroup =
     \<lparr>cs_path = lway_cgroup_name, cs_cpu_shares = default_cpu_weight, cs_blkio_weight = default_io_weight,
      cs_hard = lway_memory_hard_limit, cs_soft = lway_memory_soft_limit, cs_swap = lway_memory_swap_limit\<rparr>"

definition init_app_cgroup :: "string \<Rightarrow> app_cgroup_config \<Rightarrow> cgroup_spec" where
  "init_app_cgroup name config =
     \<lparr>cs_path = lway_cgroup_name @ ''/'' @ lway_app_cgroup_prefix @ name,
      cs_cpu_shares = unwrap_or (cpu_weight config) default_cpu_weight,
      cs_blkio_weight = unwrap_or (io_weight config) default_io_weight,
      cs_hard = unwrap_or (memory_hard_limit config) lway_memory_hard_limit,
      cs_soft = unwrap_or (memory_soft_limit config) lway_memory_soft_limit,
      cs_swap = unwrap_or (memory_swap_limit config) lway_memory_swap_limit\<rparr>"

section \<open>Spawning\<close>

definition CLONE_INTO_CGROUP :: u64 where
  "CLONE_INTO_CGROUP = 0x200000000"

definition SIGCHLD :: nat where
  "SIGCHLD = 17"

record clone_args =
  ca_flags :: u64
  ca_pidfd :: u64
  ca_child_tid :: u64
  ca_parent_tid :: u64
  ca_exit_signal :: u64
  ca_stack :: u64
  ca_stack_size :: u64
  ca_tls :: u64
  ca_set_tid :: u64
  ca_set_tid_size :: u64
  ca_cgroup :: u64

text \<open>The cast \<open>as c_int\<close>: the low 32 bits as two's complement.\<close>

definition as_c_int :: "int \<Rightarrow> int" where
  "as_c_int r = sint (word_of_int r :: 32 word)"

text \<open>
  \<open>opened\<close> is the result of opening the cgroup directory (its descriptor), \<open>clone3\<close> the
  system call: its errno and its return value, 0 in the child.
\<close>

definition spawn_into_cgroup ::
    "(io_error, nat) outcome \<Rightarrow> (clone_args \<Rightarrow> io_error \<times> int) \<Rightarrow> (io_error, int) outcome" where
  "spawn_into_cgroup opened clone3 =
     (case opened of
        Err e \<Rightarrow> Err e
      | Panic m \<Rightarrow> Panic m
      | Ok fd \<Rightarrow>
          let args = \<lparr>ca_flags = CLONE_INTO_CGROUP, ca_pidfd = 0, ca_child_tid = 0, ca_parent_tid = 0,
                      ca_exit_signal = word_of_nat SIGCHLD, ca_stack = 0, ca_stack_size = 0, ca_tls = 0,
                      ca_set_tid = 0, ca_set_tid_size = 0, ca_cgroup = word_of_nat fd\<rparr>;
              (errno, r) = clone3 args
          in to_ioresult errno (as_c_int r))"

section \<open>Usage\<close>

record cgroup_usage =
  cu_cpu_usage_usec :: u64
  cu_memory_current :: u64
  cu_memory_peak :: u64
  cu_io_read_bytes :: u64
  cu_io_write_bytes :: u64

definition cgroup_usage_default :: cgroup_usage where
  "cgroup_usage_default =
     \<lparr>cu_cpu_usage_usec = 0, cu_memory_current = 0, cu_memory_peak = 0, cu_io_read_bytes = 0, cu_io_write_bytes = 0\<rparr>"

definition parse_cpu_stat_usec :: "string \<Rightarrow> nat" where
  "parse_cpu_stat_usec stat =
     unwrap_or (Option.bind (find_map (strip_prefix ''usage_usec '') (str_lines stat)) (\<lambda>v. parse_u64 (trim v))) 0"

text \<open>
  What the controllers of a cgroup report, each missing when the hierarchy lacks it: the text
  of \<open>cpu.stat\<close>, current and peak memory, and the read and written bytes of each device of
  \<open>io.stat\<close>.
\<close>

record cgroup_counters =
  cc_cpu_stat :: "string option"
  cc_memory :: "(u64 \<times> u64) option"
  cc_io_stat :: "(u64 \<times> u64) list option"

definition read_cgroup_usage :: "cgroup_counters \<Rightarrow> cgroup_usage" where
  "read_cgroup_usage cg =
     (let cpu = unwrap_or (map_option (\<lambda>stat. word_of_nat (parse_cpu_stat_usec stat)) (cc_cpu_stat cg)) 0;
          (mem_current, mem_peak) = unwrap_or (cc_memory cg) (0, 0);
          (io_read, io_write) =
            unwrap_or (map_option (foldl (\<lambda>(r, w) (rbytes, wbytes). (r + rbytes, w + wbytes)) (0, 0)) (cc_io_stat cg)) (0, 0)
      in \<lparr>cu_cpu_usage_usec = cpu, cu_memory_current = mem_current, cu_memory_peak = mem_peak,
          cu_io_read_bytes = io_read, cu_io_write_bytes = io_write\<rparr>)"

section \<open>Waiting for a killed cgroup to empty\<close>

text \<open>
  The environment of the wait: the i-th read of \<open>cgroup.events\<close>, the time between that read
  and the clock, and how long the i-th \<open>thread::sleep\<close> overshoots (a sleep lasts at least what
  it is asked for).
\<close>

record cgroup_watch =
  cw_read :: "nat \<Rightarrow> (io_error, string) outcome"
  cw_lag :: "nat \<Rightarrow> duration"
  cw_oversleep :: "nat \<Rightarrow> duration"

definition populated :: "string \<Rightarrow> bool" where
  "populated contents =
     (case find_map (strip_prefix ''populated '') (str_lines contents) of
        Some v \<Rightarrow> trim v \<noteq> ''0''
      | None \<Rightarrow> False)"

definition poll_interval :: duration where
  "poll_interval = from_millis 5"

lemma poll_interval_pos [simp]: "0 < poll_interval"
  by (simp add: poll_interval_def from_millis_def)

function wait_loop :: "cgroup_watch \<Rightarrow> instant \<Rightarrow> instant \<Rightarrow> nat \<Rightarrow> bool" where
  "wait_loop w deadline now i =
     (case cw_read w i of
        Ok contents \<Rightarrow>
          if \<not> populated contents then True
          else if deadline \<le> now + cw_lag w i then False
          else wait_loop w deadline (now + cw_lag w i + poll_interval + cw_oversleep w i) (Suc i)
      | _ \<Rightarrow> False)"
  by pat_completeness auto
termination
proof (relation "measure (\<lambda>(w, deadline, now, i). deadline - now)", goal_cases)
  case (2 w deadline now i contents)
  have "deadline - (now + cw_lag w i + poll_interval + cw_oversleep w i) < deadline - now"
    using 2(3) poll_interval_pos by linarith
  then show ?case by simp
qed simp

declare wait_loop.simps [simp del]

definition wait_for_cgroup_empty :: "cgroup_watch \<Rightarrow> instant \<Rightarrow> duration \<Rightarrow> bool" where
  "wait_for_cgroup_empty w now timeout = wait_loop w (now + timeout) now 0"

text \<open>The wait answers True only on an observation of an empty cgroup, the first such one.\<close>

lemma wait_loop_True:
  "wait_loop w deadline now i \<Longrightarrow>
     \<exists>k\<ge>i. (\<exists>c. cw_read w k = Ok c \<and> \<not> populated c)
        \<and> (\<forall>j. i \<le> j \<longrightarrow> j < k \<longrightarrow> (\<exists>c. cw_read w j = Ok c \<and> populated c))"
proof (induction w deadline now i rule: wait_loop.induct)
  case (1 w deadline now i)
  from "1.prems" obtain c where c: "cw_read w i = Ok c"
    by (subst (asm) wait_loop.simps) (auto split: outcome.splits)
  show ?case
  proof (cases "populated c")
    case False
    with c show ?thesis by (intro exI [of _ i]) auto
  next
    case True
    with "1.prems" c have late: "\<not> deadline \<le> now + cw_lag w i"
      and "wait_loop w deadline (now + cw_lag w i + poll_interval + cw_oversleep w i) (Suc i)"
      by (subst (asm) wait_loop.simps; simp split: if_splits)+
    with "1.IH" [OF c] True obtain k where k: "Suc i \<le> k" "\<exists>c. cw_read w k = Ok c \<and> \<not> populated c"
      and before: "\<And>j. Suc i \<le> j \<Longrightarrow> j < k \<Longrightarrow> \<exists>c. cw_read w j = Ok c \<and> populated c"
      by blast
    have "\<exists>c. cw_read w j = Ok c \<and> populated c" if "i \<le> j" "j < k" for j
      using c True that before [of j] by (cases "j = i") auto
    with k show ?thesis
      by (intro exI [of _ k] conjI) auto
  qed
qed

text \<open>
  At most one read per interval: the answer only depends on the observations made before the
  deadline has passed for certain.
\<close>

lemma wait_loop_reads:
  assumes "\<And>j. i \<le> j \<Longrightarrow> j \<le> i + (deadline - now + poll_interval - 1) div poll_interval \<Longrightarrow>
      cw_read w j = cw_read w' j \<and> cw_lag w j = cw_lag w' j \<and> cw_oversleep w j = cw_oversleep w' j"
  shows "wait_loop w deadline now i = wait_loop w' deadline now i"
  using assms
proof (induction "deadline - now" arbitrary: now i rule: less_induct)
  case less
  have here: "cw_read w' i = cw_read w i" "cw_lag w' i = cw_lag w i" "cw_oversleep w' i = cw_oversleep w i"
    using less.prems [of i] by simp_all
  let ?next = "now + cw_lag w i + poll_interval + cw_oversleep w i"
  have "wait_loop w deadline ?next (Suc i) = wait_loop w' deadline ?next (Suc i)"
    if late: "\<not> deadline \<le> now + cw_lag w i"
  proof (rule less.hyps)
    show "deadline - ?next < deadline - now"
      using late poll_interval_pos by linarith
    fix j
    assume j: "Suc i \<le> j" "j \<le> Suc i + (deadline - ?next + poll_interval - 1) div poll_interval"
    let ?d = "deadline - now" and ?d' = "deadline - ?next"
    have pos: "0 < ?d" using late by simp
    have "?d' + poll_interval \<le> ?d \<or> ?d' = 0" by linarith
    then have "Suc ((?d' + poll_interval - 1) div poll_interval) \<le> (?d + poll_interval - 1) div poll_interval"
    proof
      assume "?d' + poll_interval \<le> ?d"
      then have "(?d' + poll_interval - 1) + poll_interval \<le> ?d + poll_interval - 1"
        using poll_interval_pos by simp
      then have "((?d' + poll_interval - 1) + poll_interval) div poll_interval \<le> (?d + poll_interval - 1) div poll_interval"
        by (rule div_le_mono)
      moreover have "((?d' + poll_interval - 1) + poll_interval) div poll_interval
          = (?d' + poll_interval - 1) div poll_interval + 1"
        using poll_interval_pos by (intro div_add_self2) linarith
      ultimately show ?thesis by linarith
    next
      assume "?d' = 0"
      moreover have "poll_interval div poll_interval \<le> (?d + poll_interval - 1) div poll_interval"
        using pos by (intro div_le_mono) simp
      ultimately show ?thesis using poll_interval_pos by simp
    qed
    with j show "cw_read w j = cw_read w' j \<and> cw_lag w j = cw_lag w' j \<and> cw_oversleep w j = cw_oversleep w' j"
      by (intro less.prems) linarith+
  qed
  then show ?case
    by (subst (1 2) wait_loop.simps) (simp add: here split: outcome.split)
qed

end
