(* ===== verification/Signals.thy ===== *)
theory Signals
  imports Kernel
begin

text \<open>
  Signal names and the signal descriptor, \<open>src/src/support/signal.rs\<close>.
\<close>

definition SIGINT :: int where
  "SIGINT = 2"

definition SIGKILL :: int where
  "SIGKILL = 9"

definition SIGTERM :: int where
  "SIGTERM = 15"

definition SIGNAL_NAMES :: "string list" where
  "SIGNAL_NAMES =
     ['''', ''SIGHUP'', ''SIGINT'', ''SIGQUIT'', ''SIGILL'', ''SIGTRAP'', ''SIGABRT'', ''SIGBUS'',
      ''SIGFPE'', ''SIGKILL'', ''SIGUSR1'', ''SIGSEGV'', ''SIGUSR2'', ''SIGPIPE'', ''SIGALRM'', ''SIGTERM'',
      ''SIGSTKFLT'', ''SIGCHLD'', ''SIGCONT'', ''SIGSTOP'', ''SIGTSTP'', ''SIGTTIN'', ''SIGTTOU'', ''SIGURG'',
      ''SIGXCPU'', ''SIGXFSZ'', ''SIGVTALRM'', ''SIGPROF'', ''SIGWINCH'', ''SIGIO'', ''SIGPWR'', ''SIGSYS'']"

definition signal_name :: "nat \<Rightarrow> string option" where
  "signal_name sig =
     (if sig < length SIGNAL_NAMES \<and> SIGNAL_NAMES ! sig \<noteq> '''' then Some (SIGNAL_NAMES ! sig) else None)"

text \<open>The cast \<open>as usize\<close> of a \<open>c_int\<close>: sign extension, then unsigned.\<close>

definition as_usize :: "int \<Rightarrow> nat" where
  "as_usize i = nat (i mod 2 ^ 64)"

definition signal_label :: "int \<Rightarrow> string" where
  "signal_label sig = (case signal_name (as_usize sig) of Some n \<Rightarrow> n | None \<Rightarrow> ''UNKNOWN'')"

text \<open>
  \<open>setup_signal_fd\<close>: block \<open>SIGINT\<close> (\<open>sigprocmask\<close>), then \<open>signalfd\<close>; each call's errno
  and return value.
\<close>

definition setup_signal_fd :: "io_error \<times> int \<Rightarrow> io_error \<times> int \<Rightarrow> (io_error, int) outcome" where
  "setup_signal_fd mask_call fd_call =
     (case to_ioresult (fst mask_call) (snd mask_call) of
        Ok _ \<Rightarrow> to_ioresult (fst fd_call) (snd fd_call)
      | Err e \<Rightarrow> Err e
      | Panic m \<Rightarrow> Panic m)"

definition siginfo_size :: int where
  "siginfo_size = 128"

text \<open>
  \<open>handle_signal_fd\<close>: one \<open>read\<close> of a \<open>signalfd_siginfo\<close>, as its return value and the
  \<open>ssi_signo\<close> it filled in; \<open>-1\<close> when the read is short or fails.
\<close>

definition handle_signal_fd :: "int \<times> u32 \<Rightarrow> int" where
  "handle_signal_fd rd = (if fst rd = siginfo_size then sint (snd rd) else - 1)"

lemma signal_name_range: "signal_name sig = Some n \<Longrightarrow> 1 \<le> sig \<and> sig \<le> 31"
proof -
  assume known: "signal_name sig = Some n"
  have len: "length SIGNAL_NAMES = 32" and zero: "SIGNAL_NAMES ! 0 = ''''"
    by (simp_all add: SIGNAL_NAMES_def)
  from known have "sig < 32" and "SIGNAL_NAMES ! sig \<noteq> ''''"
    by (auto simp: signal_name_def len split: if_splits)
  with zero show ?thesis
    by (cases sig) auto
qed

lemma signal_name_total: "1 \<le> sig \<Longrightarrow> sig \<le> 31 \<Longrightarrow> \<exists>n. signal_name sig = Some n"
proof -
  assume "1 \<le> sig" and "sig \<le> 31"
  then have "sig \<in> set [1..<32]" by simp
  moreover have "\<forall>k \<in> set [1..<32]. signal_name k \<noteq> None"
    by code_simp
  ultimately show ?thesis by auto
qed

lemma signal_names_distinct: "distinct SIGNAL_NAMES"
  by code_simp

text \<open>A signal is known by its name: no two numbers share one.\<close>

lemma signal_name_inj: "signal_name a = Some n \<Longrightarrow> signal_name b = Some n \<Longrightarrow> a = b"
  using signal_names_distinct
  by (auto simp: signal_name_def nth_eq_iff_index_eq split: if_splits)

end
