(* ===== verification/AppRuntime.thy ===== *)
theory AppRuntime
  imports Restart TokenSlab LogBuffer Cgroups Signals
begin

text \<open>
  The supervised process, \<open>AppRuntime\<close> of \<open>src/src/runtime.rs\<close>: what it takes to spawn it,
  track it and tear it down. Everything outside the repository (the kernel, the clock, the
  \<open>slab\<close>, \<open>mio\<close> and \<open>cgroups_rs\<close> crates) answers through the record \<open>env\<close>; the n-th
  external interaction of a run reads the n-th answer, so answers are unrelated to each other.

  The context \<open>ctx\<close> is what the operations share through their \<open>&mut\<close> arguments: the token
  allocator, the number of interactions so far, and the trace of the system calls that
  properties speak about.
\<close>

section \<open>Parameters and state\<close>

record app_params =
  ap_cwd :: string
  ap_name :: string
  ap_prog :: string
  ap_args :: "string list"
  ap_uid :: nat
  ap_gid :: nat
  ap_env :: "string list"
  ap_oneshot :: bool
  ap_cgroup :: app_cgroup_config
  ap_autostart :: bool
  ap_restart :: restart_policy
  ap_log_buffer_size :: nat

record rt_toks =
  tk_pidfd :: token
  tk_stdout :: token
  tk_stderr :: token

record app_runtime =
  rt_pid :: int
  rt_cgroup :: string
  rt_stdout :: pipe
  rt_stderr :: pipe
  rt_pidfd :: int
  rt_tokens :: rt_toks
  rt_started_at :: instant
  rt_proper_cleanup :: bool

datatype app_rt_error = ForkFailed io_error | RtIo io_error | TokenAllocation

section \<open>The environment\<close>

text \<open>What \<open>AppRuntime::start\<close> is answered.\<close>

record spawn_resp =
  sp_stdout_pipe :: "(io_error, pipe) outcome"
  sp_stderr_pipe :: "(io_error, pipe) outcome"
  sp_build_cgroup :: "cgroup_spec \<Rightarrow> string option" \<comment> \<open>path of the built cgroup\<close>
  sp_open_cgroup :: "string \<Rightarrow> (io_error, nat) outcome"
  sp_clone3 :: "clone_args \<Rightarrow> io_error \<times> int"
  sp_pidfd_open :: "io_error \<times> int"
  sp_stdout_fd :: "nat \<Rightarrow> io_error \<times> int" \<comment> \<open>close, \<open>F_GETFL\<close>, \<open>F_SETFL\<close>\<close>
  sp_stderr_fd :: "nat \<Rightarrow> io_error \<times> int"
  sp_register :: "nat \<Rightarrow> io_error option" \<comment> \<open>the i-th registration\<close>
  sp_now :: instant

text \<open>What \<open>AppRuntime::stop\<close> is answered.\<close>

record stop_resp =
  st_deregister :: "nat \<Rightarrow> io_error option"
  st_cgroup_kill :: bool \<comment> \<open>the kill succeeded\<close>
  st_kill_time :: instant
  st_watch :: cgroup_watch
  st_cgroup_delete :: bool

text \<open>The \<open>WIFEXITED\<close> family of macros of the \<open>libc\<close> crate.\<close>

record wait_macros =
  wm_ifsignaled :: "int \<Rightarrow> bool"
  wm_termsig :: "int \<Rightarrow> int"
  wm_ifexited :: "int \<Rightarrow> bool"
  wm_exitstatus :: "int \<Rightarrow> int"

record 's env =
  env_slab :: "'s slab_api"
  env_powi :: "f64 \<Rightarrow> int \<Rightarrow> f64"
  env_page_size :: nat
  env_macros :: wait_macros
  env_spawn :: "nat \<Rightarrow> spawn_resp"
  env_stop :: "nat \<Rightarrow> stop_resp"
  env_kill :: "nat \<Rightarrow> io_error \<times> int"
  env_waitpid :: "nat \<Rightarrow> int \<Rightarrow> int \<times> int" \<comment> \<open>of a pid: return value and status\<close>
  env_now :: "nat \<Rightarrow> instant"
  env_memfd :: "nat \<Rightarrow> nat \<Rightarrow> (io_error, int) outcome"
  env_mmap :: "nat \<Rightarrow> nat \<Rightarrow> (io_error, nat) outcome"
  env_usage :: "nat \<Rightarrow> cgroup_counters"
  env_register :: "nat \<Rightarrow> io_error option"

section \<open>The shared context\<close>

datatype sys_event =
    Spawned string int \<comment> \<open>cgroup path and pid\<close>
  | Registered token
  | Deregistered token
  | Signalled int int \<comment> \<open>pid and signal\<close>
  | CgroupKilled string
  | CgroupDeleted string
  | Refused bytes \<comment> \<open>what a refused control connection received\<close>
  | Echoed bool string \<comment> \<open>a line on the daemon's stderr (True) or stdout\<close>

record 's ctx =
  cx_slab :: "'s token_slab"
  cx_tick :: nat
  cx_trace :: "sys_event list"

definition next_tick :: "('s ctx, 'e, nat) run" where
  "next_tick = (\<lambda>c. (Ok (cx_tick c), c\<lparr>cx_tick := Suc (cx_tick c)\<rparr>))"

definition emit :: "sys_event list \<Rightarrow> ('s ctx, 'e, unit) run" where
  "emit evs = (\<lambda>c. (Ok (), c\<lparr>cx_trace := cx_trace c @ evs\<rparr>))"

definition alloc_token :: "'s env \<Rightarrow> ('s ctx, 'e, token option) run" where
  "alloc_token E = (\<lambda>c. case allocate (env_slab E) (cx_slab c) of (t, ts) \<Rightarrow> (Ok t, c\<lparr>cx_slab := ts\<rparr>))"

definition free_token :: "'s env \<Rightarrow> token \<Rightarrow> ('s ctx, 'e, unit) run" where
  "free_token E t =
     (\<lambda>c. case free (env_slab E) (cx_slab c) t of
        None \<Rightarrow> (Panic ''invalid key'', c)
      | Some ts \<Rightarrow> (Ok (), c\<lparr>cx_slab := ts\<rparr>))"

section \<open>Pipe ends\<close>

text \<open>\<open>Pipe::into_read_fd\<close> closes the write end; \<open>r\<close> is errno and return value of each call.\<close>

definition into_read_fd :: "(nat \<Rightarrow> io_error \<times> int) \<Rightarrow> pipe \<Rightarrow> (io_error, pipe) outcome" where
  "into_read_fd r p =
     (case to_ioresult (fst (r 0)) (snd (r 0)) of Ok _ \<Rightarrow> Ok p | Err e \<Rightarrow> Err e | Panic m \<Rightarrow> Panic m)"

definition into_nonblocking_read_fd :: "(nat \<Rightarrow> io_error \<times> int) \<Rightarrow> pipe \<Rightarrow> (io_error, pipe) outcome" where
  "into_nonblocking_read_fd r p =
     (case into_read_fd r p of
        Err e \<Rightarrow> Err e | Panic m \<Rightarrow> Panic m
      | Ok reader \<Rightarrow>
          (case to_ioresult (fst (r 1)) (snd (r 1)) of
             Err e \<Rightarrow> Err e | Panic m \<Rightarrow> Panic m
           | Ok _ \<Rightarrow>
               (case to_ioresult (fst (r 2)) (snd (r 2)) of
                  Err e \<Rightarrow> Err e | Panic m \<Rightarrow> Panic m
                | Ok _ \<Rightarrow> Ok reader)))"

section \<open>AppRuntime::start, in the daemon\<close>

text \<open>Allocating a token and registering the source under it, each ending the start on failure.\<close>

definition register_source :: "'s env \<Rightarrow> io_error option \<Rightarrow> ('s ctx, app_rt_error, token) run" where
  "register_source E resp =
     bindM (alloc_token E) (\<lambda>t.
       case t of
         None \<Rightarrow> fail TokenAllocation
       | Some tok \<Rightarrow>
           (case resp of
              Some e \<Rightarrow> fail (RtIo e)
            | None \<Rightarrow> bindM (emit [Registered tok]) (\<lambda>_. ret tok)))"

text \<open>
  The part that cannot be undone: pipes, cgroup, \<open>clone3\<close>. In the child (pid 0) control never
  comes back: \<open>setup_child\<close> below runs and the process exits.
\<close>

definition rt_spawn :: "spawn_resp \<Rightarrow> app_params \<Rightarrow> ('s ctx, app_rt_error, pipe \<times> pipe \<times> string \<times> int) run" where
  "rt_spawn r params =
     bindM (lift_outcome (expect ''pipe stdout'' (sp_stdout_pipe r))) (\<lambda>pipe_stdout.
     bindM (lift_outcome (expect ''pipe stderr'' (sp_stderr_pipe r))) (\<lambda>pipe_stderr.
       case sp_build_cgroup r (init_app_cgroup (ap_name params) (ap_cgroup params)) of
         None \<Rightarrow> lift_outcome (Panic ''Failed to build app cgroup'')
       | Some path \<Rightarrow>
           bindM (lift_outcome (map_err ForkFailed
              (spawn_into_cgroup (sp_open_cgroup r (''/sys/fs/cgroup/'' @ path)) (sp_clone3 r)))) (\<lambda>pid.
             if pid = 0 then lift_outcome (Panic ''the child process exits'')
             else bindM (emit [Spawned path pid]) (\<lambda>_. ret (pipe_stdout, pipe_stderr, path, pid)))))"

definition rt_start :: "'s env \<Rightarrow> app_params \<Rightarrow> ('s ctx, app_rt_error, app_runtime) run" where
  "rt_start E params =
     bindM next_tick (\<lambda>n.
       let r = env_spawn E n in
     bindM (rt_spawn r params) (\<lambda>(pipe_stdout, pipe_stderr, path, pid).
     bindM (lift_outcome (map_err RtIo (to_ioresult (fst (sp_pidfd_open r)) (as_c_int (snd (sp_pidfd_open r)))))) (\<lambda>pidfd.
     bindM (lift_outcome (expect ''nonblocking stdout'' (into_nonblocking_read_fd (sp_stdout_fd r) pipe_stdout))) (\<lambda>out.
     bindM (lift_outcome (expect ''nonblocking stderr'' (into_nonblocking_read_fd (sp_stderr_fd r) pipe_stderr))) (\<lambda>err.
     bindM (register_source E (sp_register r 0)) (\<lambda>pidfd_token.
     bindM (register_source E (sp_register r 1)) (\<lambda>stdout_token.
     bindM (register_source E (sp_register r 2)) (\<lambda>stderr_token.
       ret \<lparr>rt_pid = pid, rt_cgroup = path, rt_stdout = out, rt_stderr = err, rt_pidfd = pidfd,
            rt_tokens = \<lparr>tk_pidfd = pidfd_token, tk_stdout = stdout_token, tk_stderr = stderr_token\<rparr>,
            rt_started_at = sp_now r, rt_proper_cleanup = False\<rparr>))))))))"

section \<open>AppRuntime::start, in the child\<close>

datatype child_call =
    CloseReadEnd bool | Dup2 bool \<comment> \<open>stdout (False) or stderr (True)\<close>
  | Setsid | Setgid nat | Setuid nat | Chdir string | Execve string "string list" "string list"

definition has_nul :: "string \<Rightarrow> bool" where
  "has_nul s \<longleftrightarrow> CHR 0x00 \<in> set s"

text \<open>
  How the child ends when its program does not run: \<open>setup_child\<close> returns a message, which is
  printed before \<open>exit\<close>, or \<open>set_current_cwd\<close> panics on a path that is no \<open>CString\<close>.
\<close>

datatype child_end = ChildErr string | ChildPanic string

text \<open>
  \<open>setup_child\<close>: the calls made, in order, up to the first one that fails (\<open>fails\<close> is the
  kernel's verdict) or the first string that is no \<open>CString\<close>, and how the child ends there.
  \<open>execve\<close> only returns on failure, so no end means that the program runs.
\<close>

fun child_calls :: "(child_call \<Rightarrow> bool) \<Rightarrow> (child_end + child_call) list \<Rightarrow> child_call list \<times> child_end option" where
  "child_calls fails [] = ([], None)"
| "child_calls fails (Inl e # rest) = ([], Some e)"
| "child_calls fails (Inr call # rest) =
     (if fails call then ([call], Some (ChildErr ''call failed''))
      else case child_calls fails rest of (cs, m) \<Rightarrow> (call # cs, m))"

text \<open>A conversion that must succeed before the calls after it.\<close>

definition check_cstrings :: "child_end \<Rightarrow> string list \<Rightarrow> (child_end + child_call) list" where
  "check_cstrings e ss = (if \<exists>s \<in> set ss. has_nul s then [Inl e] else [])"

text \<open>\<open>set_current_cwd\<close> of \<open>support/uidgid.rs\<close>.\<close>

definition set_current_cwd :: "string \<Rightarrow> (child_end + child_call) list" where
  "set_current_cwd path = check_cstrings (ChildPanic ''cwd'') [path] @ [Inr (Chdir path)]"

definition setup_child :: "(child_call \<Rightarrow> bool) \<Rightarrow> app_params \<Rightarrow> child_call list \<times> child_end option" where
  "setup_child fails params =
     child_calls fails
       ([Inr (CloseReadEnd False), Inr (Dup2 False), Inr (CloseReadEnd True), Inr (Dup2 True)]
        @ check_cstrings (ChildErr ''prog into CString failed'') [ap_prog params]
        @ check_cstrings (ChildErr ''arg into CString failed'') (ap_args params)
        @ [Inr Setsid, Inr (Setgid (ap_gid params)), Inr (Setuid (ap_uid params))]
        @ check_cstrings (ChildErr ''env into CString failed'') (ap_env params)
        @ set_current_cwd (ap_cwd params)
        @ [Inr (Execve (ap_prog params) (ap_args params) (ap_env params))])"

section \<open>AppRuntime::stop and its destructor\<close>

definition deregister_free :: "'s env \<Rightarrow> io_error option \<Rightarrow> token \<Rightarrow> ('s ctx, app_rt_error, unit) run" where
  "deregister_free E resp t =
     (case resp of
        Some e \<Rightarrow> fail (RtIo e)
      | None \<Rightarrow> bindM (emit [Deregistered t]) (\<lambda>_. free_token E t))"

definition kill_timeout :: duration where
  "kill_timeout = from_millis 200"

text \<open>
  The cgroup is killed (and, when that worked, waited for) and then deleted; failures are only
  logged. The answer of the wait decides nothing but a log line.
\<close>

definition cgroup_cleanup :: "stop_resp \<Rightarrow> string \<Rightarrow> sys_event list" where
  "cgroup_cleanup r path =
     (if st_cgroup_kill r
      then (let emptied = wait_for_cgroup_empty (st_watch r) (st_kill_time r) kill_timeout in [CgroupKilled path])
      else [])
     @ (if st_cgroup_delete r then [CgroupDeleted path] else [])"

definition rt_stop_body :: "'s env \<Rightarrow> stop_resp \<Rightarrow> app_runtime \<Rightarrow> ('s ctx, app_rt_error, unit) run" where
  "rt_stop_body E r rt =
     bindM (deregister_free E (st_deregister r 0) (tk_pidfd (rt_tokens rt))) (\<lambda>_.
     bindM (deregister_free E (st_deregister r 1) (tk_stdout (rt_tokens rt))) (\<lambda>_.
     bindM (deregister_free E (st_deregister r 2) (tk_stderr (rt_tokens rt))) (\<lambda>_.
       emit (cgroup_cleanup r (rt_cgroup rt)))))"

text \<open>
  \<open>impl Drop for AppRuntime\<close>: dropping a runtime that did not complete \<open>stop\<close> panics, which is
  what an early return of \<open>stop\<close> does.
\<close>

definition rt_drop :: "bool \<Rightarrow> ('e, 'a) outcome \<Rightarrow> ('e, 'a) outcome" where
  "rt_drop proper_cleanup r =
     (if proper_cleanup then r else Panic ''AppRuntime dropped without proper cleanup'')"

definition rt_stop :: "'s env \<Rightarrow> app_runtime \<Rightarrow> ('s ctx, app_rt_error, unit) run" where
  "rt_stop E rt =
     bindM next_tick (\<lambda>n c.
       case rt_stop_body E (env_stop E n) rt c of
         (Ok _, c') \<Rightarrow> (rt_drop True (Ok ()), c')
       | (Err e, c') \<Rightarrow> (rt_drop (rt_proper_cleanup rt) (Err e), c')
       | (Panic m, c') \<Rightarrow> (Panic m, c'))"

section \<open>Signals\<close>

definition send_signal :: "'s env \<Rightarrow> app_runtime \<Rightarrow> int \<Rightarrow> ('s ctx, io_error, unit) run" where
  "send_signal E rt signal =
     bindM next_tick (\<lambda>n.
     bindM (emit [Signalled (rt_pid rt) signal]) (\<lambda>_.
     bindM (lift_outcome (to_ioresult (fst (env_kill E n)) (snd (env_kill E n)))) (\<lambda>_. ret ())))"

definition send_sigterm :: "'s env \<Rightarrow> app_runtime \<Rightarrow> ('s ctx, io_error, unit) run" where
  "send_sigterm E rt = send_signal E rt SIGTERM"

definition send_sigkill :: "'s env \<Rightarrow> app_runtime \<Rightarrow> ('s ctx, io_error, unit) run" where
  "send_sigkill E rt = send_signal E rt SIGKILL"

section \<open>Token accounting\<close>

definition rt_token_list :: "app_runtime \<Rightarrow> token list" where
  "rt_token_list rt = [tk_pidfd (rt_tokens rt), tk_stdout (rt_tokens rt), tk_stderr (rt_tokens rt)]"

abbreviation ctx_live :: "'s env \<Rightarrow> 's ctx \<Rightarrow> token set" where
  "ctx_live E c \<equiv> live (env_slab E) (cx_slab c)"

abbreviation ctx_ok :: "'s env \<Rightarrow> 's ctx \<Rightarrow> bool" where
  "ctx_ok E c \<equiv> slab_ok (env_slab E) (cx_slab c)"

abbreviation ctx_cap :: "'s env \<Rightarrow> 's ctx \<Rightarrow> nat" where
  "ctx_cap E c \<equiv> slab_cap (env_slab E) (cx_slab c)"

text \<open>
  How a step moves from one context to another: the allocator stays well formed with the same
  capacity and offset, and the live set becomes \<open>L\<close>.
\<close>

definition ctx_to :: "'s env \<Rightarrow> 's ctx \<Rightarrow> token set \<Rightarrow> 's ctx \<Rightarrow> bool" where
  "ctx_to E c L c' \<longleftrightarrow> ctx_ok E c' \<and> ctx_live E c' = L \<and> ctx_cap E c' = ctx_cap E c
     \<and> ts_offset (cx_slab c') = ts_offset (cx_slab c)"

lemma ctx_to_refl: "ctx_ok E c \<Longrightarrow> ctx_to E c (ctx_live E c) c"
  by (simp add: ctx_to_def)

lemma ctx_to_trans: "ctx_to E c L c' \<Longrightarrow> ctx_to E c' L' c'' \<Longrightarrow> ctx_to E c L' c''"
  by (simp add: ctx_to_def)

lemma ctx_toD:
  assumes "ctx_to E c L c'"
  shows "ctx_ok E c'" and "ctx_live E c' = L" and "ctx_cap E c' = ctx_cap E c"
    and "ts_offset (cx_slab c') = ts_offset (cx_slab c)"
  using assms by (simp_all add: ctx_to_def)

named_theorems run_simps "what the primitive actions of a run do"

lemma next_tick_eq [run_simps]: "next_tick c = (r, c') \<longleftrightarrow> r = Ok (cx_tick c) \<and> c' = c\<lparr>cx_tick := Suc (cx_tick c)\<rparr>"
  by (auto simp: next_tick_def)

lemma emit_eq [run_simps]: "emit evs c = (r, c') \<longleftrightarrow> r = Ok () \<and> c' = c\<lparr>cx_trace := cx_trace c @ evs\<rparr>"
  by (auto simp: emit_def)

lemma register_source_cases:
  assumes ok: "ctx_ok E c" and run: "register_source E resp c = (r, c')"
  obtains
    (full) "r = Err TokenAllocation" and "c' = c" and "ctx_cap E c \<le> card (ctx_live E c)"
  | (refused) e t where "r = Err (RtIo e)" and "resp = Some e" and "t \<notin> ctx_live E c"
      and "ctx_to E c (insert t (ctx_live E c)) c'"
  | (registered) t where "r = Ok t" and "resp = None" and "t \<notin> ctx_live E c"
      and "ctx_to E c (insert t (ctx_live E c)) c'"
proof (cases "allocate (env_slab E) (cx_slab c)")
  case (Pair a ts)
  show thesis
  proof (cases a)
    case None
    with Pair slab.alloc_None [OF ok, of ts] have "ts = cx_slab c" "ctx_cap E c \<le> card (ctx_live E c)"
      by simp_all
    with Pair None run show ?thesis
      by (intro full) (auto simp: register_source_def alloc_token_def bindM_def fail_def)
  next
    case (Some t)
    with Pair have alloc: "allocate (env_slab E) (cx_slab c) = (Some t, ts)" by simp
    note A = allocate_SomeD [OF ok alloc]
    have to: "ctx_to E c (insert t (ctx_live E c)) (c\<lparr>cx_slab := ts, cx_trace := tr\<rparr>)" for tr
      using A by (simp add: ctx_to_def)
    show ?thesis
    proof (cases resp)
      case None
      with alloc run to [of "cx_trace c @ [Registered t]"] A(2) show ?thesis
        by (intro registered [of t]) (auto simp: register_source_def alloc_token_def bindM_def emit_def ret_def)
    next
      case (Some e)
      with alloc run to [of "cx_trace c"] A(2) show ?thesis
        by (intro refused [of e t]) (auto simp: register_source_def alloc_token_def bindM_def fail_def)
    qed
  qed
qed

lemma deregister_free_live:
  assumes ok: "ctx_ok E c" and t: "t \<in> ctx_live E c" and run: "deregister_free E resp t c = (r, c')"
  shows "(r = Ok () \<and> resp = None \<and> ctx_to E c (ctx_live E c - {t}) c' \<and> cx_trace c' = cx_trace c @ [Deregistered t])
    \<or> (\<exists>e. r = Err (RtIo e) \<and> resp = Some e \<and> c' = c)"
proof (cases resp)
  case None
  from free_live [OF ok t] obtain ts where fr: "free (env_slab E) (cx_slab c) t = Some ts"
    and ts: "slab_ok (env_slab E) ts" "live (env_slab E) ts = ctx_live E c - {t}"
      "slab_cap (env_slab E) ts = ctx_cap E c" "ts_offset ts = ts_offset (cx_slab c)" .
  have "r = Ok ()" and "cx_slab c' = ts" and "cx_trace c' = cx_trace c @ [Deregistered t]"
    using run fr None by (auto simp: deregister_free_def bindM_def emit_def free_token_def)
  with None ts show ?thesis
    by (simp add: ctx_to_def)
next
  case (Some e)
  with run show ?thesis by (simp add: deregister_free_def)
qed


section \<open>What starting and stopping do to the tokens\<close>

lemma register_three_cases:
  assumes ok: "ctx_ok E c"
    and run: "bindM (register_source E r0) (\<lambda>a. bindM (register_source E r1) (\<lambda>b.
                bindM (register_source E r2) (\<lambda>d. ret (f a b d)))) c = (r, c')"
  obtains
    (failed) e L where "r = Err e" and "ctx_to E c L c'" and "ctx_live E c \<subseteq> L"
      and "e = TokenAllocation \<or> (\<exists>ioe. e = RtIo ioe \<and> Some ioe \<in> {r0, r1, r2})"
      and "finite L" and "card L \<le> card (ctx_live E c) + 3"
  | (three) a b d where "r = Ok (f a b d)" and "distinct [a, b, d]" and "set [a, b, d] \<inter> ctx_live E c = {}"
      and "ctx_to E c (ctx_live E c \<union> set [a, b, d]) c'"
proof -
  have fin: "finite (ctx_live E c)"
    by (rule slab.finite_live [OF ok])
  from ok show thesis
  proof (cases "register_source E r0 c" rule: prod.exhaust)
    case (Pair x c1)
    from ok Pair show ?thesis
    proof (cases rule: register_source_cases)
      case full
      with run Pair fin ok show ?thesis
        by (intro failed [of TokenAllocation "ctx_live E c"]) (auto simp: bindM_def ctx_to_refl)
    next
      case (refused e t)
      with run Pair fin show ?thesis
        by (intro failed [of "RtIo e" "insert t (ctx_live E c)"]) (auto simp: bindM_def card_insert_if)
    next
      case (registered a)
      note A = this and a = ctx_toD [OF this(4)]
      obtain y c2 where P2: "register_source E r1 c1 = (y, c2)" by force
      from a(1) P2 show ?thesis
      proof (cases rule: register_source_cases)
        case full
        with run Pair P2 A fin show ?thesis
          by (intro failed [of TokenAllocation "insert a (ctx_live E c)"]) (auto simp: bindM_def card_insert_if)
      next
        case (refused e t)
        with run Pair P2 A a fin show ?thesis
          using ctx_to_trans [OF A(4) refused(4)]
          by (intro failed [of "RtIo e" "insert t (insert a (ctx_live E c))"]) (auto simp: bindM_def card_insert_if)
      next
        case (registered b)
        note B = this and b = ctx_toD [OF this(4)]
        note AB = ctx_to_trans [OF A(4) B(4)]
        obtain z c3 where P3: "register_source E r2 c2 = (z, c3)" by force
        from b(1) P3 show ?thesis
        proof (cases rule: register_source_cases)
          case full
          with run Pair P2 P3 A B a fin AB show ?thesis
            by (intro failed [of TokenAllocation "insert b (insert a (ctx_live E c))"])
              (auto simp: bindM_def card_insert_if)
        next
          case (refused e t)
          with run Pair P2 P3 A B a b fin show ?thesis
            using ctx_to_trans [OF AB refused(4)]
            by (intro failed [of "RtIo e" "insert t (insert b (insert a (ctx_live E c)))"])
              (auto simp: bindM_def card_insert_if)
        next
          case (registered d)
          have "ctx_live E c \<union> set [a, b, d] = insert d (ctx_live E c2)"
            using a(2) b(2) by auto
          then have "ctx_to E c (ctx_live E c \<union> set [a, b, d]) c3"
            using ctx_to_trans [OF AB registered(4)] by simp
          moreover have "distinct [a, b, d]" "set [a, b, d] \<inter> ctx_live E c = {}"
            using A(3) B(3) registered(3) a(2) b(2) by auto
          ultimately show ?thesis
            using run Pair P2 P3 A B registered by (intro three [of a b d]) (auto simp: bindM_def ret_def)
        qed
      qed
    qed
  qed
qed

lemma ctx_to_slab_eq: "cx_slab c1 = cx_slab c \<Longrightarrow> ctx_to E c1 L c' = ctx_to E c L c'"
  by (simp add: ctx_to_def)


text \<open>Steps that leave the allocator alone.\<close>

definition keeps_slab :: "('s ctx, 'e, 'a) run \<Rightarrow> bool" where
  "keeps_slab m \<longleftrightarrow> (\<forall>c r c'. m c = (r, c') \<longrightarrow> cx_slab c' = cx_slab c)"

named_theorems keeps_slabs "steps that leave the allocator alone"

lemma keeps_slabD: "keeps_slab m \<Longrightarrow> m c = (r, c') \<Longrightarrow> cx_slab c' = cx_slab c"
  unfolding keeps_slab_def by blast

lemma keeps_slab_ret [keeps_slabs]: "keeps_slab (ret a)"
  and keeps_slab_fail [keeps_slabs]: "keeps_slab (fail e)"
  and keeps_slab_lift [keeps_slabs]: "keeps_slab (lift_outcome x)"
  and keeps_slab_tick [keeps_slabs]: "keeps_slab next_tick"
  and keeps_slab_emit [keeps_slabs]: "keeps_slab (emit evs)"
  by (auto simp: keeps_slab_def run_simps)

lemma keeps_slab_bindM [keeps_slabs]:
  assumes m: "keeps_slab m" and f: "\<And>a. keeps_slab (f a)"
  shows "keeps_slab (bindM m f)"
  unfolding keeps_slab_def
proof (intro allI impI)
  fix c r c'
  assume "bindM m f c = (r, c')"
  then consider a c1 where "m c = (Ok a, c1)" and "f a c1 = (r, c')" | x where "m c = (x, c')"
    by (auto simp: bindM_cases)
  then show "cx_slab c' = cx_slab c"
    by cases (metis keeps_slabD [OF m] keeps_slabD [OF f])+
qed

lemma keeps_slab_spawn [keeps_slabs]: "keeps_slab (rt_spawn r params)"
  unfolding rt_spawn_def by (intro keeps_slabs) (auto intro!: keeps_slabs split: option.split)

lemma bindM_layer:
  assumes run: "bindM m f c = (r, c')" and keeps: "keeps_slab m"
    and aborted: "cx_slab c' = cx_slab c \<Longrightarrow> (\<And>a. r \<noteq> Ok a) \<Longrightarrow> thesis"
    and go: "\<And>a c1. m c = (Ok a, c1) \<Longrightarrow> cx_slab c1 = cx_slab c \<Longrightarrow> f a c1 = (r, c') \<Longrightarrow> thesis"
  shows thesis
  using run [unfolded bindM_cases]
  by (auto dest: keeps_slabD [OF keeps] intro: aborted go)

lemma rt_spawn_pid: "rt_spawn r params c = (Ok (o1, e1, path, pid), c') \<Longrightarrow>
    pid \<noteq> 0 \<and> cx_trace c' = cx_trace c @ [Spawned path pid]"
  by (auto simp: rt_spawn_def bindM_Ok run_simps split: option.splits if_splits)

text \<open>The start in two parts: what precedes the first token, and the three registrations.\<close>

definition rt_prepare :: "'s env \<Rightarrow> app_params \<Rightarrow>
    ('s ctx, app_rt_error, spawn_resp \<times> string \<times> int \<times> int \<times> pipe \<times> pipe) run" where
  "rt_prepare E params =
     bindM next_tick (\<lambda>n.
     bindM (rt_spawn (env_spawn E n) params) (\<lambda>(pipe_stdout, pipe_stderr, path, pid).
     bindM (lift_outcome (map_err RtIo (to_ioresult (fst (sp_pidfd_open (env_spawn E n)))
        (as_c_int (snd (sp_pidfd_open (env_spawn E n))))))) (\<lambda>pidfd.
     bindM (lift_outcome (expect ''nonblocking stdout''
        (into_nonblocking_read_fd (sp_stdout_fd (env_spawn E n)) pipe_stdout))) (\<lambda>out.
     bindM (lift_outcome (expect ''nonblocking stderr''
        (into_nonblocking_read_fd (sp_stderr_fd (env_spawn E n)) pipe_stderr))) (\<lambda>err.
     ret (env_spawn E n, path, pid, pidfd, out, err))))))"

definition rt_register :: "'s env \<Rightarrow> spawn_resp \<Rightarrow> (token \<Rightarrow> token \<Rightarrow> token \<Rightarrow> app_runtime) \<Rightarrow>
    ('s ctx, app_rt_error, app_runtime) run" where
  "rt_register E r f =
     bindM (register_source E (sp_register r 0)) (\<lambda>a.
     bindM (register_source E (sp_register r 1)) (\<lambda>b.
     bindM (register_source E (sp_register r 2)) (\<lambda>d. ret (f a b d))))"

lemma bindM_assoc: "bindM (bindM m f) g = bindM m (\<lambda>a. bindM (f a) g)"
  by (auto simp: bindM_def fun_eq_iff split: prod.splits outcome.splits)

lemma bindM_ret: "bindM (ret a) f = f a"
  by (simp add: bindM_def ret_def fun_eq_iff)

lemma rt_start_eq: "rt_start E params =
    bindM (rt_prepare E params) (\<lambda>(r, path, pid, pidfd, out, err).
      rt_register E r (\<lambda>a b d. \<lparr>rt_pid = pid, rt_cgroup = path, rt_stdout = out, rt_stderr = err, rt_pidfd = pidfd,
            rt_tokens = \<lparr>tk_pidfd = a, tk_stdout = b, tk_stderr = d\<rparr>,
            rt_started_at = sp_now r, rt_proper_cleanup = False\<rparr>))"
  by (simp add: rt_start_def rt_prepare_def rt_register_def Let_def bindM_assoc bindM_ret split_def)

lemma keeps_slab_prepare: "keeps_slab (rt_prepare E params)"
  unfolding rt_prepare_def by (auto intro!: keeps_slabs split: prod.split)

lemma rt_prepare_pid: "rt_prepare E params c = (Ok (r, path, pid, rest), c') \<Longrightarrow>
    pid \<noteq> 0 \<and> cx_trace c' = cx_trace c @ [Spawned path pid]"
  by (auto simp: rt_prepare_def bindM_Ok run_simps dest!: rt_spawn_pid)

text \<open>
  Starting an app: a started runtime owns three distinct tokens that nobody else had, and the
  allocator gained exactly those; a failed start never takes a token away from anybody, and
  before the first registration it changes the allocator not at all.
\<close>

lemma rt_start_cases:
  assumes ok: "ctx_ok E c" and run: "rt_start E params c = (r, c')"
  obtains
    (aborted) "cx_slab c' = cx_slab c" and "\<And>rt. r \<noteq> Ok rt"
  | (failed) e L where "r = Err e" and "ctx_to E c L c'" and "ctx_live E c \<subseteq> L"
      and "card L \<le> card (ctx_live E c) + 3"
  | (started) rt where "r = Ok rt" and "distinct (rt_token_list rt)"
      and "set (rt_token_list rt) \<inter> ctx_live E c = {}"
      and "ctx_to E c (ctx_live E c \<union> set (rt_token_list rt)) c'"
      and "rt_proper_cleanup rt = False" and "rt_pid rt \<noteq> 0"
proof -
  from run show thesis
    unfolding rt_start_eq
  proof (rule bindM_layer, goal_cases)
    case 1 show ?case by (rule keeps_slab_prepare)
  next
    case 2 then show ?case by (rule aborted)
  next
    case (3 p c1)
    obtain resp path pid pidfd out err where p: "p = (resp, path, pid, pidfd, out, err)"
      by (metis prod_cases6)
    from 3(1) p have pid: "pid \<noteq> 0"
      by (auto dest: rt_prepare_pid)
    from ok 3(2) have ok1: "ctx_ok E c1" by simp
    note to = ctx_to_slab_eq [OF 3(2)]
    from ok1 3(3) [unfolded p prod.case rt_register_def] show ?case
    proof (cases rule: register_three_cases)
      case (failed e L)
      with to 3(2) show ?thesis
        by (intro that(2) [of e L]) simp_all
    next
      case (three a b d)
      with to 3(2) pid show ?thesis
        by (intro started) (auto simp: rt_token_list_def)
    qed
  qed
qed


text \<open>
  Stopping an app gives back exactly its three tokens and cleans its cgroup up. The only other
  end is the panic of the destructor, when \<open>epoll\<close> refuses to forget a source.
\<close>

lemma deregister_free_bindM:
  assumes "ctx_ok E c" and "t \<in> ctx_live E c" and "bindM (deregister_free E resp t) (\<lambda>_. m) c = (r, c')"
  obtains (stuck) e where "r = Err (RtIo e)" and "resp = Some e"
  | (freed) c1 where "resp = None" and "ctx_to E c (ctx_live E c - {t}) c1"
      and "cx_trace c1 = cx_trace c @ [Deregistered t]" and "m c1 = (r, c')"
proof -
  obtain x c1 where P: "deregister_free E resp t c = (x, c1)" by force
  from deregister_free_live [OF assms(1,2) P] show thesis
    using assms(3) P by (auto simp: bindM_def intro: stuck freed)
qed

lemma rt_stop_body_cases:
  assumes ok: "ctx_ok E c" and own: "set (rt_token_list rt) \<subseteq> ctx_live E c" and d: "distinct (rt_token_list rt)"
    and run: "rt_stop_body E resp rt c = (r, c')"
  obtains (stuck) e i where "r = Err (RtIo e)" and "i < 3" and "st_deregister resp i = Some e"
  | (freed) "r = Ok ()" and "ctx_to E c (ctx_live E c - set (rt_token_list rt)) c'"
      and "cx_trace c' = cx_trace c @ map Deregistered (rt_token_list rt) @ cgroup_cleanup resp (rt_cgroup rt)"
proof -
  let ?p = "tk_pidfd (rt_tokens rt)" and ?o = "tk_stdout (rt_tokens rt)" and ?e = "tk_stderr (rt_tokens rt)"
  have own: "?p \<in> ctx_live E c" "?o \<in> ctx_live E c - {?p}" "?e \<in> ctx_live E c - {?p} - {?o}"
    using own d by (auto simp: rt_token_list_def)
  from ok own(1) run [unfolded rt_stop_body_def] show thesis
  proof (cases rule: deregister_free_bindM)
    case (stuck e) then show ?thesis by (intro that(1) [of e 0]) simp_all
  next
    case (freed c1)
    note a = this and A = ctx_toD [OF this(2)]
    from A(1) own(2) [folded A(2)] a(4) show ?thesis
    proof (cases rule: deregister_free_bindM)
      case (stuck e) then show ?thesis by (intro that(1) [of e 1]) simp_all
    next
      case (freed c2)
      note b = this and B = ctx_toD [OF this(2)]
      from B(1) own(3) [folded A(2) B(2)] b(4) show ?thesis
      proof (cases rule: deregister_free_bindM)
        case (stuck e) then show ?thesis by (intro that(1) [of e 2]) simp_all
      next
        case (freed c3)
        have "ctx_live E c - set (rt_token_list rt) = ctx_live E c2 - {?e}"
          using A(2) B(2) by (auto simp: rt_token_list_def)
        with ctx_to_trans [OF a(2) ctx_to_trans [OF b(2) freed(2)]] freed a b show ?thesis
          by (intro that(2)) (auto simp: run_simps rt_token_list_def ctx_to_def)
      qed
    qed
  qed
qed

lemma rt_stop_cases:
  assumes ok: "ctx_ok E c" and own: "set (rt_token_list rt) \<subseteq> ctx_live E c" and d: "distinct (rt_token_list rt)"
    and dirty: "rt_proper_cleanup rt = False" and run: "rt_stop E rt c = (r, c')"
  obtains (panicked) i where "r = Panic ''AppRuntime dropped without proper cleanup''" and "i < 3"
      and "st_deregister (env_stop E (cx_tick c)) i \<noteq> None"
  | (stopped) "r = Ok ()" and "ctx_to E c (ctx_live E c - set (rt_token_list rt)) c'"
      and "cx_trace c' = cx_trace c @ map Deregistered (rt_token_list rt)
             @ cgroup_cleanup (env_stop E (cx_tick c)) (rt_cgroup rt)"
proof -
  let ?c1 = "c\<lparr>cx_tick := Suc (cx_tick c)\<rparr>"
  obtain x c2 where P: "rt_stop_body E (env_stop E (cx_tick c)) rt ?c1 = (x, c2)" by force
  have pre: "ctx_ok E ?c1" "set (rt_token_list rt) \<subseteq> ctx_live E ?c1" using ok own by simp_all
  have res: "(r, c') = (case x of Ok _ \<Rightarrow> (rt_drop True (Ok ()), c2)
       | Err e \<Rightarrow> (rt_drop (rt_proper_cleanup rt) (Err e), c2) | Panic m \<Rightarrow> (Panic m, c2))"
    using run P by (auto simp: rt_stop_def bindM_def next_tick_def split: outcome.splits)
  from pre d P show thesis
  proof (cases rule: rt_stop_body_cases)
    case (stuck e i)
    with res dirty show ?thesis by (intro panicked [of i]) (simp_all add: rt_drop_def)
  next
    case freed
    with res show ?thesis by (intro stopped) (simp_all add: rt_drop_def ctx_to_def)
  qed
qed

section \<open>Privileges of the child\<close>

lemma child_calls_append:
  "child_calls fails (xs @ ys) =
     (case child_calls fails xs of
        (cs, Some m) \<Rightarrow> (cs, Some m)
      | (cs, None) \<Rightarrow> (case child_calls fails ys of (ds, m) \<Rightarrow> (cs @ ds, m)))"
  by (induction fails xs rule: child_calls.induct) (auto split: prod.splits option.splits)

lemma child_calls_check: "child_calls fails (check_cstrings msg ss) = ([], if \<exists>s \<in> set ss. has_nul s then Some msg else None)"
  by (simp add: check_cstrings_def)


text \<open>The calls of a child that gets as far as \<open>execve\<close>, and those it makes before.\<close>

definition child_plan :: "app_params \<Rightarrow> child_call list" where
  "child_plan params =
     [CloseReadEnd False, Dup2 False, CloseReadEnd True, Dup2 True, Setsid, Setgid (ap_gid params),
      Setuid (ap_uid params), Chdir (ap_cwd params)]"

text \<open>
  The program is only ever executed with the privileges of its app: if \<open>execve\<close> is
  reached at all, it is the last of exactly the planned calls, all of the others succeeded, the
  session and the group were set before the user, and neither the program, an argument, an
  environment string nor the working directory contains a NUL byte.
\<close>

theorem setup_child_exec:
  assumes "Execve p a e \<in> set (fst (setup_child fails params))"
  shows "fst (setup_child fails params) =
      child_plan params @ [Execve (ap_prog params) (ap_args params) (ap_env params)]
    \<and> (\<forall>call \<in> set (child_plan params). \<not> fails call)
    \<and> \<not> (\<exists>s \<in> set (ap_cwd params # ap_prog params # ap_args params @ ap_env params). has_nul s)"
  using assms
  by (auto simp: setup_child_def set_current_cwd_def child_calls_append check_cstrings_def child_plan_def split: if_splits)

definition sample_params :: app_params where
  "sample_params =
     \<lparr>ap_cwd = ''/srv'', ap_name = ''web'', ap_prog = ''/bin/web'', ap_args = [''web'', ''-v''], ap_uid = 33,
      ap_gid = 34, ap_env = [''A=1''], ap_oneshot = False,
      ap_cgroup = \<lparr>cpu_weight = None, io_weight = None, memory_hard_limit = None,
        memory_soft_limit = None, memory_swap_limit = None\<rparr>,
      ap_autostart = True, ap_restart = restart_policy_default, ap_log_buffer_size = 8\<rparr>"

lemma setup_child_exec_witness:
  "\<exists>params. fst (setup_child (\<lambda>_. False) params) =
      child_plan params @ [Execve (ap_prog params) (ap_args params) (ap_env params)]"
proof -
  have "Execve ''/bin/web'' [''web'', ''-v''] [''A=1''] \<in> set (fst (setup_child (\<lambda>_. False) sample_params))"
    by (simp add: setup_child_def set_current_cwd_def check_cstrings_def sample_params_def has_nul_def)
  from setup_child_exec [OF this] show ?thesis by blast
qed


section \<open>A concrete environment\<close>

text \<open>Every call succeeds; the child's pid is 100 and it ends by exiting with status 1 when polled.\<close>

definition sample_spawn :: spawn_resp where
  "sample_spawn =
     \<lparr>sp_stdout_pipe = Ok \<lparr>pipe_data = [104, 105, 10], pipe_writers = False, pipe_resp = \<lambda>_. SpliceMoves 2\<rparr>,
      sp_stderr_pipe = Ok \<lparr>pipe_data = [33], pipe_writers = False, pipe_resp = \<lambda>_. SpliceMoves 100\<rparr>,
      sp_build_cgroup = (\<lambda>g. Some ''lway/web''), sp_open_cgroup = (\<lambda>_. Ok 9), sp_clone3 = (\<lambda>_. (WouldBlock, 100)),
      sp_pidfd_open = (WouldBlock, 10), sp_stdout_fd = (\<lambda>_. (WouldBlock, 0)), sp_stderr_fd = (\<lambda>_. (WouldBlock, 0)),
      sp_register = (\<lambda>_. None), sp_now = 5\<rparr>"

definition sample_stop :: stop_resp where
  "sample_stop = \<lparr>st_deregister = \<lambda>_. None, st_cgroup_kill = False, st_kill_time = 0,
     st_watch = \<lparr>cw_read = \<lambda>_. Ok '''', cw_lag = \<lambda>_. 0, cw_oversleep = \<lambda>_. 0\<rparr>, st_cgroup_delete = True\<rparr>"

definition sample_env :: "(nat \<times> token option list) env" where
  "sample_env =
     \<lparr>env_slab = vec_slab, env_powi = (\<lambda>_ _. Fin 1), env_page_size = 4,
      env_macros = \<lparr>wm_ifsignaled = \<lambda>s. False, wm_termsig = \<lambda>s. 0, wm_ifexited = \<lambda>s. True, wm_exitstatus = \<lambda>s. s\<rparr>,
      env_spawn = (\<lambda>_. sample_spawn), env_stop = (\<lambda>_. sample_stop), env_kill = (\<lambda>_. (WouldBlock, 0)),
      env_waitpid = (\<lambda>_ _. (100, 1)), env_now = (\<lambda>n. 1000 * n), env_memfd = (\<lambda>_ _. Ok 0), env_mmap = (\<lambda>_ _. Ok 0),
      env_usage = (\<lambda>_. \<lparr>cc_cpu_stat = None, cc_memory = None, cc_io_stat = None\<rparr>), env_register = (\<lambda>_. None)\<rparr>"

definition sample_ctx :: "(nat \<times> token option list) ctx" where
  "sample_ctx = \<lparr>cx_slab = token_slab_new vec_slab 8 3, cx_tick = 0, cx_trace = []\<rparr>"

lemma sample_ctx_ok: "ctx_ok sample_env sample_ctx"
  by (simp add: sample_env_def sample_ctx_def vec_slab_new_ok)

lemma sample_env_simps [simp]:
  "env_slab sample_env = vec_slab" "env_page_size sample_env = 4" "env_spawn sample_env n = sample_spawn"
  "env_stop sample_env n = sample_stop" "env_kill sample_env n = (WouldBlock, 0)" "env_waitpid sample_env n p = (100, 1)"
  "env_now sample_env n = 1000 * n" "env_memfd sample_env n i = Ok 0" "env_mmap sample_env n i = Ok 0"
  "wm_ifexited (env_macros sample_env) s" "\<not> wm_ifsignaled (env_macros sample_env) s"
  "wm_exitstatus (env_macros sample_env) s = s" "env_powi sample_env x k = Fin 1"
  by (simp_all add: sample_env_def)

end
