(* ===== verification/App.thy ===== *)
theory App
  imports AppRuntime
begin

text \<open>
  One supervised application, \<open>App\<close> of \<open>src/src/runtime.rs\<close>: its states, the reaction to
  events on its descriptors (\<open>poll\<close>), the exit of its process, and the restart policy.

  An operation that takes \<open>&mut self\<close>, the poll registry and the token slab is a function of
  the app and the context \<open>ctx\<close> of theory AppRuntime, and returns an outcome with both. The
  second half of the theory runs these operations in any order, as the event loop does: an
  inductive step relation, and the invariants of the reachable states.

  Not modelled: log messages of the daemon, the hex dump at trace level, and \<open>println!\<close> to a
  closed standard output (which panics). The sums \<open>Instant::now() + delay\<close> and
  \<open>total_uptime += uptime\<close> are exact: a delay is below \<open>2 ^ 64\<close> milliseconds, and both
  types hold \<open>2 ^ 63\<close> seconds and more.
\<close>

section \<open>States\<close>

datatype return_state = Completed int | Abnormal int

record last_execution_info =
  le_cause :: return_state
  le_restart_deadline :: "instant option"

datatype app_state = Stopped "last_execution_info option" | Running app_runtime

definition stopped_with_cause :: "return_state \<Rightarrow> app_state" where
  "stopped_with_cause cause = Stopped (Some \<lparr>le_cause = cause, le_restart_deadline = None\<rparr>)"

fun as_runtime :: "app_state \<Rightarrow> app_runtime option" where
  "as_runtime (Running rt) = Some rt"
| "as_runtime (Stopped _) = None"

record app_runtime_stats =
  st_restart_count :: u32
  st_consecutive_failures :: u32
  st_last_exit_code :: "int option"
  st_last_exit_reason :: "string option"
  st_stdout_bytes :: u64
  st_stderr_bytes :: u64
  st_total_uptime :: duration
  st_last_run_duration :: "duration option"

definition app_runtime_stats_default :: app_runtime_stats where
  "app_runtime_stats_default =
     \<lparr>st_restart_count = 0, st_consecutive_failures = 0, st_last_exit_code = None, st_last_exit_reason = None,
      st_stdout_bytes = 0, st_stderr_bytes = 0, st_total_uptime = 0, st_last_run_duration = None\<rparr>"

record app =
  a_name :: string
  a_params :: app_params
  a_state :: app_state
  a_stats :: app_runtime_stats
  a_stop_requested :: bool
  a_log :: circ_buffer
  a_echo :: bool

datatype app_err = RuntimeErr app_rt_error | AlreadyRunning | NotRunning

definition is_running :: "app \<Rightarrow> bool" where
  "is_running a = (case a_state a of Running _ \<Rightarrow> True | Stopped _ \<Rightarrow> False)"

definition pending_restart_deadline :: "app \<Rightarrow> instant option" where
  "pending_restart_deadline a =
     (case a_state a of Stopped (Some le) \<Rightarrow> le_restart_deadline le | _ \<Rightarrow> None)"

section \<open>App::create\<close>

definition map_run_err :: "('e \<Rightarrow> 'f) \<Rightarrow> ('c, 'e, 'a) run \<Rightarrow> ('c, 'f, 'a) run" where
  "map_run_err f m = (\<lambda>c. case m c of (r, c') \<Rightarrow> (map_err f r, c'))"

definition app_create :: "'s env \<Rightarrow> app_params \<Rightarrow> bool \<Rightarrow> ('s ctx, app_err, app) run" where
  "app_create E params echo_logs =
     bindM (if ap_autostart params
            then bindM (map_run_err RuntimeErr (rt_start E params)) (\<lambda>rt. ret (Running rt))
            else ret (Stopped None)) (\<lambda>state.
     bindM next_tick (\<lambda>n.
     bindM (lift_outcome (expect ''Failed to create memfd buffer''
        (new_sealed (env_memfd E n) (''logbuf-'' @ ap_name params) (ap_log_buffer_size params)))) (\<lambda>memfd_buffer.
     bindM (lift_outcome (expect ''Failed to create circular log buffer''
        (new_from_memfd_buffer (env_page_size E) (env_mmap E n) memfd_buffer))) (\<lambda>circ_buffer.
     ret \<lparr>a_name = ap_name params, a_params = params, a_state = state, a_stats = app_runtime_stats_default,
          a_stop_requested = False, a_log = circ_buffer, a_echo = echo_logs\<rparr>))))"

section \<open>Starting and stopping on request\<close>

definition app_start :: "'s env \<Rightarrow> app \<Rightarrow> 's ctx \<Rightarrow> (app_err, unit) outcome \<times> app \<times> 's ctx" where
  "app_start E a c =
     (case a_state a of
        Stopped _ \<Rightarrow>
          (case rt_start E (a_params a) c of
             (Ok rt, c') \<Rightarrow>
               (Ok (), a\<lparr>a_state := Running rt, a_stats := (a_stats a)\<lparr>st_consecutive_failures := 0\<rparr>,
                        a_stop_requested := False\<rparr>, c')
           | (Err e, c') \<Rightarrow> (Err (RuntimeErr e), a, c')
           | (Panic m, c') \<Rightarrow> (Panic m, a, c'))
      | Running _ \<Rightarrow> (Err AlreadyRunning, a, c))"

definition app_stop :: "'s env \<Rightarrow> bool \<Rightarrow> app \<Rightarrow> 's ctx \<Rightarrow> (app_err, bool) outcome \<times> app \<times> 's ctx" where
  "app_stop E force a c =
     (case a_state a of
        Running rt \<Rightarrow>
          (case (if force then send_sigkill E rt c else send_sigterm E rt c) of (result, c') \<Rightarrow>
             (case map_err (\<lambda>e. RuntimeErr (RtIo e)) result of
                Ok _ \<Rightarrow> (Ok True, a\<lparr>a_stop_requested := True\<rparr>, c')
              | Err e \<Rightarrow> (Err e, a\<lparr>a_stop_requested := True\<rparr>, c')
              | Panic m \<Rightarrow> (Panic m, a\<lparr>a_stop_requested := True\<rparr>, c')))
      | Stopped (Some le) \<Rightarrow>
          (case le_restart_deadline le of
             Some _ \<Rightarrow>
               (Ok True, a\<lparr>a_state := Stopped (Some \<lparr>le_cause = le_cause le, le_restart_deadline = None\<rparr>),
                          a_stop_requested := True\<rparr>, c)
           | None \<Rightarrow> (Ok False, a, c))
      | Stopped None \<Rightarrow> (Ok False, a, c))"

section \<open>Restarts\<close>

text \<open>A pending restart whose time has come, or that is no longer allowed.\<close>

definition maybe_restart :: "'s env \<Rightarrow> instant \<Rightarrow> bool \<Rightarrow> app \<Rightarrow> 's ctx \<Rightarrow> (app_err, unit) outcome \<times> app \<times> 's ctx" where
  "maybe_restart E now allow_restart a c =
     (case a_state a of
        Stopped (Some le) \<Rightarrow>
          (case le_restart_deadline le of
             None \<Rightarrow> (Ok (), a, c)
           | Some deadline \<Rightarrow>
               if \<not> allow_restart then (Ok (), a\<lparr>a_state := stopped_with_cause (le_cause le)\<rparr>, c)
               else if now < deadline then (Ok (), a, c)
               else (case rt_start E (a_params a) c of
                       (Ok rt, c') \<Rightarrow>
                         (Ok (), a\<lparr>a_stats := (a_stats a)\<lparr>st_restart_count := st_restart_count (a_stats a) + 1\<rparr>,
                                  a_state := Running rt\<rparr>, c')
                     | (Err e, c') \<Rightarrow> (Ok (), a\<lparr>a_state := stopped_with_cause (le_cause le)\<rparr>, c')
                     | (Panic m, c') \<Rightarrow> (Panic m, a, c')))
      | _ \<Rightarrow> (Ok (), a, c))"

text \<open>
  \<open>schedule_restart\<close>, called on an app that just settled into \<open>stopped_with_cause\<close>; \<open>now\<close> is
  the clock when the deadline is computed.
\<close>

definition schedule_restart :: "(f64 \<Rightarrow> int \<Rightarrow> f64) \<Rightarrow> instant \<Rightarrow> return_state \<Rightarrow> duration \<Rightarrow> app \<Rightarrow> app" where
  "schedule_restart f64_powi now restart_state uptime a =
     (let policy = ap_restart (a_params a);
          success = (restart_state = Completed 0);
          a = (if success \<or> from_millis (reset_after_ms policy) \<le> uptime
               then a\<lparr>a_stats := (a_stats a)\<lparr>st_consecutive_failures := 0\<rparr>\<rparr> else a);
          a = (if \<not> success
               then a\<lparr>a_stats := (a_stats a)\<lparr>st_consecutive_failures := st_consecutive_failures (a_stats a) + 1\<rparr>\<rparr>
               else a);
          failures = st_consecutive_failures (a_stats a);
          give_up = (case max_restart_attempts policy of Some m \<Rightarrow> m < failures | None \<Rightarrow> False);
          strategy = (if success then on_success policy else on_error policy)
      in if give_up then a
         else if is_never strategy then a
         else a\<lparr>a_state := Stopped (Some \<lparr>le_cause = restart_state,
                le_restart_deadline = Some (now + delay_for f64_powi strategy (max failures 1))\<rparr>)\<rparr>)"

section \<open>The exit status\<close>

text \<open>
  \<open>poll_pid\<close>: \<open>waitpid(pid, &status, WNOHANG)\<close> answers with \<open>w\<close>, its return value and the
  status. Any other return value panics.
\<close>

definition poll_pid :: "wait_macros \<Rightarrow> int \<times> int \<Rightarrow> int \<Rightarrow> ('e, return_state option) outcome" where
  "poll_pid M w pid =
     (if fst w = pid
      then (let termsig = (if wm_ifsignaled M (snd w) then wm_termsig M (snd w) else 0)
            in Ok (Some (if wm_ifexited M (snd w) then Completed (wm_exitstatus M (snd w)) else Abnormal termsig)))
      else if fst w = 0 then Ok None
      else Panic ''waitpid failed'')"

definition exit_code :: "return_state \<Rightarrow> int option" where
  "exit_code rs = (case rs of Completed r \<Rightarrow> Some r | Abnormal _ \<Rightarrow> None)"

definition exit_reason :: "return_state \<Rightarrow> string" where
  "exit_reason rs =
     (case rs of
        Completed r \<Rightarrow> ''exited('' @ show_int r @ '')''
      | Abnormal s \<Rightarrow> ''signal '' @ signal_label s @ '' ('' @ show_int s @ '')'')"


section \<open>Reading the output of the process\<close>

definition SPLICE_MAX_XFER_SIZE :: nat where
  "SPLICE_MAX_XFER_SIZE = 16384"

definition DEFAULT_GUTTER_WIDTH :: nat where
  "DEFAULT_GUTTER_WIDTH = 16"

text \<open>\<open>StdoutLogger::log\<close>: the lines it prints, on stderr when \<open>is_err\<close>.\<close>

definition stdout_logger :: "nat \<Rightarrow> string \<Rightarrow> int \<Rightarrow> bytes \<Rightarrow> bool \<Rightarrow> sys_event list" where
  "stdout_logger gutter_width name pid bs is_err =
     map (\<lambda>line. Echoed is_err (pad_right gutter_width (''['' @ show_int pid @ '' '' @ name @ '']'') @ '' '' @ line))
       (str_lines (from_utf8_lossy bs))"

lemma splice_from_and_view_shrinks:
  "splice_from_and_view cb p len = (Ok (Some v), p', cb') \<Longrightarrow> length (pipe_data p') < length (pipe_data p)"
  by (auto simp: splice_from_and_view_def Let_def split: if_splits prod.splits outcome.splits option.splits
      dest!: splice_OkD(1))

text \<open>
  The loop of \<open>poll\<close> on a readable stdout or stderr: splice until nothing is left, with the
  byte counter of the stream and the lines echoed. An error ends it as \<open>WouldBlock\<close> does.
\<close>

function splice_loop :: "(bytes \<Rightarrow> sys_event list) \<Rightarrow> circ_buffer \<Rightarrow> pipe \<Rightarrow> u64 \<Rightarrow> sys_event list \<Rightarrow>
    string option \<times> circ_buffer \<times> pipe \<times> u64 \<times> sys_event list" where
  "splice_loop echo cb p count out =
     (case splice_from_and_view cb p SPLICE_MAX_XFER_SIZE of
        (Ok None, p', cb') \<Rightarrow> (None, cb', p', count, out)
      | (Ok (Some buf), p', cb') \<Rightarrow>
          splice_loop echo cb' p' (count + of_nat (length buf)) (out @ echo buf)
      | (Err e, p', cb') \<Rightarrow> (None, cb', p', count, out)
      | (Panic m, p', cb') \<Rightarrow> (Some m, cb', p', count, out))"
  by pat_completeness auto
termination
  by (relation "measure (\<lambda>(echo, cb, p, count, out). length (pipe_data p))")
    (auto dest: splice_from_and_view_shrinks [OF sym])

declare splice_loop.simps [simp del]

lemma splice_from_shrinks:
  "splice_from cb p len = (Ok n, p', cb') \<Longrightarrow> 0 < n \<Longrightarrow> length (pipe_data p') < length (pipe_data p)"
  by (auto simp: splice_from_def split: prod.splits outcome.splits option.splits dest: splice_from_and_view_shrinks)

text \<open>\<open>drain_pipe\<close>: the same without an echo, when the process has exited.\<close>

function drain_pipe :: "circ_buffer \<Rightarrow> pipe \<Rightarrow> u64 \<Rightarrow> string option \<times> circ_buffer \<times> pipe \<times> u64" where
  "drain_pipe cb p byte_count =
     (case splice_from cb p SPLICE_MAX_XFER_SIZE of
        (Ok rcvd, p', cb') \<Rightarrow>
          if rcvd = 0 then (None, cb', p', byte_count) else drain_pipe cb' p' (byte_count + of_nat rcvd)
      | (Err e, p', cb') \<Rightarrow> (None, cb', p', byte_count)
      | (Panic m, p', cb') \<Rightarrow> (Some m, cb', p', byte_count))"
  by pat_completeness auto
termination
  by (relation "measure (\<lambda>(cb, p, count). length (pipe_data p))")
    (auto dest: splice_from_shrinks [OF sym])

declare drain_pipe.simps [simp del]

section \<open>App::poll\<close>

record io_event =
  ev_readable :: bool
  ev_read_closed :: bool
  ev_writable :: bool

datatype stdio = Stdout | Stderr

definition get_stdio :: "token \<Rightarrow> app_runtime \<Rightarrow> (stdio \<times> pipe) option" where
  "get_stdio token rt =
     (if token = tk_stdout (rt_tokens rt) then Some (Stdout, rt_stdout rt)
      else if token = tk_stderr (rt_tokens rt) then Some (Stderr, rt_stderr rt)
      else None)"

text \<open>The first half: an event on one of the output pipes.\<close>

definition poll_stdio :: "token \<Rightarrow> io_event \<Rightarrow> app_runtime \<Rightarrow> app \<Rightarrow> 's ctx \<Rightarrow> (app_err, app_runtime) outcome \<times> app \<times> 's ctx" where
  "poll_stdio token event rt a c =
     (case get_stdio token rt of
        None \<Rightarrow> (Ok rt, a, c)
      | Some (stdio, p) \<Rightarrow>
          if ev_readable event
          then (let echo = (\<lambda>buf. if a_echo a then stdout_logger DEFAULT_GUTTER_WIDTH (a_name a) (rt_pid rt) buf (stdio = Stderr) else []);
                    count = (case stdio of Stdout \<Rightarrow> st_stdout_bytes (a_stats a) | Stderr \<Rightarrow> st_stderr_bytes (a_stats a))
                in case splice_loop echo (a_log a) p count [] of
                     (res, cb', p', count', out) \<Rightarrow>
                       let rt' = (case stdio of Stdout \<Rightarrow> rt\<lparr>rt_stdout := p'\<rparr> | Stderr \<Rightarrow> rt\<lparr>rt_stderr := p'\<rparr>);
                           stats' = (case stdio of Stdout \<Rightarrow> (a_stats a)\<lparr>st_stdout_bytes := count'\<rparr>
                                                 | Stderr \<Rightarrow> (a_stats a)\<lparr>st_stderr_bytes := count'\<rparr>);
                           a' = a\<lparr>a_log := cb', a_stats := stats', a_state := Running rt'\<rparr>;
                           c' = c\<lparr>cx_trace := cx_trace c @ out\<rparr>
                       in (case res of None \<Rightarrow> (Ok rt', a', c') | Some m \<Rightarrow> (Panic m, a', c')))
          else (Ok rt, a, c))"

text \<open>
  The second half, once \<open>waitpid\<close> reported an exit: the last output is drained, the runtime torn
  down, and the restart policy consulted.
\<close>

definition poll_exit :: "'s env \<Rightarrow> bool \<Rightarrow> instant \<Rightarrow> return_state \<Rightarrow> app_runtime \<Rightarrow> app \<Rightarrow> 's ctx \<Rightarrow>
    (app_err, unit) outcome \<times> app \<times> 's ctx" where
  "poll_exit E try_restart now return_state rt a c =
     (let a = a\<lparr>a_stats := (a_stats a)\<lparr>st_last_exit_code := exit_code return_state,
                 st_last_exit_reason := Some (exit_reason return_state)\<rparr>,
               a_state := stopped_with_cause return_state\<rparr>
      in case drain_pipe (a_log a) (rt_stdout rt) (st_stdout_bytes (a_stats a)) of
           (Some m, _) \<Rightarrow> (Panic m, a, c)
         | (None, cb1, out', out_bytes) \<Rightarrow>
             case drain_pipe cb1 (rt_stderr rt) (st_stderr_bytes (a_stats a)) of
               (Some m, _) \<Rightarrow> (Panic m, a, c)
             | (None, cb2, err', err_bytes) \<Rightarrow>
                 let uptime = duration_since now (rt_started_at rt);
                     a = a\<lparr>a_log := cb2,
                           a_stats := (a_stats a)\<lparr>st_stdout_bytes := out_bytes, st_stderr_bytes := err_bytes,
                             st_total_uptime := st_total_uptime (a_stats a) + uptime,
                             st_last_run_duration := Some uptime\<rparr>\<rparr>
                 in case rt_stop E (rt\<lparr>rt_stdout := out', rt_stderr := err'\<rparr>) c of
                      (Panic m, c') \<Rightarrow> (Panic m, a, c')
                    | (Err e, c') \<Rightarrow> (Panic ''Failed to stop app runtime'', a, c')
                    | (Ok _, c') \<Rightarrow>
                        if try_restart \<and> \<not> ap_oneshot (a_params a) \<and> \<not> a_stop_requested a
                        then (Ok (), schedule_restart (env_powi E) (env_now E (cx_tick c')) return_state uptime a,
                              c'\<lparr>cx_tick := Suc (cx_tick c')\<rparr>)
                        else (Ok (), a, c'))"

definition app_poll :: "'s env \<Rightarrow> token \<Rightarrow> io_event \<Rightarrow> bool \<Rightarrow> app \<Rightarrow> 's ctx \<Rightarrow> (app_err, unit) outcome \<times> app \<times> 's ctx" where
  "app_poll E token event try_restart a c =
     (case a_state a of
        Stopped _ \<Rightarrow> (Ok (), a, c)
      | Running rt \<Rightarrow>
          (case poll_stdio token event rt a c of
             (Panic m, a', c') \<Rightarrow> (Panic m, a', c')
           | (Err e, a', c') \<Rightarrow> (Err e, a', c')
           | (Ok rt', a', c') \<Rightarrow>
               if token = tk_pidfd (rt_tokens rt') \<and> ev_readable event
               then (let n = cx_tick c'; c' = c'\<lparr>cx_tick := Suc n\<rparr>
                     in case poll_pid (env_macros E) (env_waitpid E n (rt_pid rt')) (rt_pid rt') of
                          Panic m \<Rightarrow> (Panic m, a', c')
                        | Err e \<Rightarrow> (Err e, a', c')
                        | Ok None \<Rightarrow> (Ok (), a', c')
                        | Ok (Some rs) \<Rightarrow> poll_exit E try_restart (env_now E n) rs rt' a' c')
               else (Ok (), a', c')))"


section \<open>What the clients see\<close>

definition status_string :: "app \<Rightarrow> string" where
  "status_string a =
     (case a_state a of
        Running _ \<Rightarrow> ''running''
      | Stopped None \<Rightarrow> ''stopped''
      | Stopped (Some le) \<Rightarrow>
          (case le_cause le of
             Abnormal s \<Rightarrow> ''abnormal(signal '' @ signal_label s @ '')''
           | Completed r \<Rightarrow> ''exited('' @ show_int r @ '')''))"

text \<open>\<open>rt.pid as u32\<close>.\<close>

definition app_pid :: "app \<Rightarrow> nat option" where
  "app_pid a = map_option (\<lambda>rt. nat (rt_pid rt mod 2 ^ 32)) (as_runtime (a_state a))"

definition app_command :: "app \<Rightarrow> string" where
  "app_command a = join '' '' (ap_args (a_params a))"

definition cgroup_path :: "app \<Rightarrow> string option" where
  "cgroup_path a =
     (case a_state a of Running rt \<Rightarrow> Some (''/sys/fs/cgroup/'' @ rt_cgroup rt) | _ \<Rightarrow> None)"

record app_stats =
  stats_uptime :: "duration option"
  stats_total_uptime :: duration
  stats_last_run_duration :: "duration option"
  stats_restart_count :: u32
  stats_last_exit_code :: "int option"
  stats_last_exit_reason :: "string option"
  stats_usage :: cgroup_usage
  stats_stdout_bytes :: u64
  stats_stderr_bytes :: u64

definition stats :: "instant \<Rightarrow> cgroup_counters \<Rightarrow> app \<Rightarrow> app_stats" where
  "stats now counters a =
     (let (uptime, usage) =
            (case a_state a of
               Running rt \<Rightarrow> (Some (duration_since now (rt_started_at rt)), read_cgroup_usage counters)
             | _ \<Rightarrow> (None, cgroup_usage_default));
          s = a_stats a
      in \<lparr>stats_uptime = uptime, stats_total_uptime = st_total_uptime s,
          stats_last_run_duration = st_last_run_duration s, stats_restart_count = st_restart_count s,
          stats_last_exit_code = st_last_exit_code s, stats_last_exit_reason = st_last_exit_reason s,
          stats_usage = usage, stats_stdout_bytes = st_stdout_bytes s, stats_stderr_bytes = st_stderr_bytes s\<rparr>)"

definition log_write_pos :: "app \<Rightarrow> nat" where
  "log_write_pos a = filling (a_log a)"

definition log_start_pos :: "app \<Rightarrow> nat" where
  "log_start_pos a = start_pos (a_log a)"

definition log_buffer_capacity :: "app \<Rightarrow> nat option" where
  "log_buffer_capacity a = Some (cb_capacity (a_log a))"

definition log_bytes_from_cursor :: "app \<Rightarrow> nat \<Rightarrow> log_chunk option" where
  "log_bytes_from_cursor a from = read_from_cursor (a_log a) from"

end
