(* ===== verification/Protocol.thy ===== *)
theory Protocol
  imports App
begin

text \<open>
  The messages of the control socket, \<open>src/src/protocol.rs\<close>, with the error type shared by the
  servers and the clients, \<open>IpcError\<close> of \<open>src/src/ipc.rs\<close>.

  The servers and the clients print and parse messages through a \<open>codec\<close>, of which they rely on
  \<open>codec_laws\<close>. \<open>Protocol_Serde\<close> builds the codec that the derived readers and writers make of any
  JSON text and proves the laws of it.
\<close>

section \<open>Requests and responses\<close>

datatype request =
    ReqList
  | ReqInfo string
  | ReqConfig string
  | ReqStart string
  | ReqStartAll
  | ReqStop string bool
  | ReqStopAll bool

record start_failure =
  sf_name :: string
  sf_message :: string

record stop_failure =
  pf_name :: string
  pf_message :: string

record app_info =
  ai_name :: string
  ai_state :: string
  ai_pid :: "nat option"
  ai_command :: string
  ai_cwd :: string
  ai_uid :: nat
  ai_gid :: nat
  ai_restart_count :: u32
  ai_log_bytes :: u64
  ai_memory_current :: u64
  ai_io_read_bytes :: u64
  ai_io_write_bytes :: u64
  ai_oneshot :: bool
  ai_cpu_weight :: "nat option"
  ai_io_weight :: "nat option"
  ai_runtime :: "duration option"

record log_buffer_debug_info =
  lb_kind :: string
  lb_capacity :: "nat option"
  lb_write_pos :: nat
  lb_start_pos :: nat

record app_debug_info =
  ad_cgroup_config :: app_cgroup_config
  ad_cgroup_path :: "string option"
  ad_log_buffer :: log_buffer_debug_info

record app_config_snapshot =
  ac_name :: string
  ac_command :: string
  ac_workdir :: string
  ac_uid :: nat
  ac_gid :: nat
  ac_env :: "string list"
  ac_oneshot :: bool
  ac_autostart :: bool
  ac_restart :: restart_policy
  ac_cgroup :: app_cgroup_config
  ac_log_buffer_size :: nat

datatype response =
    RespAppList "app_info list"
  | RespInfo string app_info app_stats app_debug_info
  | RespConfig string app_config_snapshot
  | RespStarted string
  | RespStartedAll "string list" "start_failure list"
  | RespStopped string bool
  | RespStoppedAll "string list" "stop_failure list"
  | RespAppNotFound string "string list"
  | RespError string

section \<open>Errors\<close>

datatype ipc_error =
    IpcIo io_error
  | IpcJson string
  | IpcDaemon string
  | IpcAppNotFound string "string list"
  | IpcNotRunning string

text \<open>The \<open>Display\<close> texts; \<open>io_msg\<close> is the one of an \<open>io::Error\<close>.\<close>

definition app_rt_error_msg :: "(io_error \<Rightarrow> string) \<Rightarrow> app_rt_error \<Rightarrow> string" where
  "app_rt_error_msg io_msg e =
     (case e of
        ForkFailed x \<Rightarrow> ''Fork failed '' @ io_msg x
      | RtIo x \<Rightarrow> ''I/O error: '' @ io_msg x
      | TokenAllocation \<Rightarrow> ''Token allocation failed'')"

definition app_err_msg :: "(io_error \<Rightarrow> string) \<Rightarrow> app_err \<Rightarrow> string" where
  "app_err_msg io_msg e =
     (case e of
        RuntimeErr x \<Rightarrow> ''Runtime error: '' @ app_rt_error_msg io_msg x
      | AlreadyRunning \<Rightarrow> ''App already running''
      | NotRunning \<Rightarrow> ''App not running'')"

definition ipc_error_msg :: "(io_error \<Rightarrow> string) \<Rightarrow> ipc_error \<Rightarrow> string" where
  "ipc_error_msg io_msg e =
     (case e of
        IpcIo x \<Rightarrow> ''io error: '' @ io_msg x
      | IpcJson m \<Rightarrow> ''failed to serialize/deserialize json: '' @ m
      | IpcDaemon m \<Rightarrow> ''daemon returned an error: '' @ m
      | IpcAppNotFound name apps \<Rightarrow>
          ''no such app '' @ [CHR 0x27] @ name @ [CHR 0x27] @ '' (available: '' @ (if apps = [] then ''none'' else join '', '' apps) @ '')''
      | IpcNotRunning path \<Rightarrow> ''could not connect to daemon socket '' @ path @ '' (is lway running?)'')"

section \<open>The JSON codec\<close>

text \<open>
  \<open>serde_json::to_string\<close> and \<open>serde_json::from_str\<close> at the two message types; a failure is
  its message. \<open>cd_io_msg\<close> is the \<open>Display\<close> of \<open>io::Error\<close>.
\<close>

record codec =
  cd_print_request :: "request \<Rightarrow> (string, string) outcome"
  cd_parse_request :: "string \<Rightarrow> (string, request) outcome"
  cd_print_response :: "response \<Rightarrow> (string, string) outcome"
  cd_parse_response :: "string \<Rightarrow> (string, response) outcome"
  cd_io_msg :: "io_error \<Rightarrow> string"

text \<open>
  What is documented of the compact formatter: it succeeds on these types (no map with non-string
  keys, and floats other than finite ones print as null), writes no line break and no blank
  around the value, always at least one byte and valid UTF-8, and the parser inverts it. A
  parser never panics.
\<close>

definition one_line :: "string \<Rightarrow> bool" where
  "one_line s \<longleftrightarrow> s \<noteq> '''' \<and> CHR 0x0A \<notin> set s \<and> trim s = s \<and> valid_utf8 (as_bytes s)"

text \<open>
  Responses made of names, messages and flags only. Of the others nothing is assumed: a parsed
  float may differ from the printed one in its last digit.
\<close>

definition plain_response :: "response \<Rightarrow> bool" where
  "plain_response r =
     (case r of
        RespAppList _ \<Rightarrow> False
      | RespInfo _ _ _ _ \<Rightarrow> False
      | RespConfig _ _ \<Rightarrow> False
      | _ \<Rightarrow> True)"

definition codec_laws :: "codec \<Rightarrow> bool" where
  "codec_laws J \<longleftrightarrow>
     (\<forall>q. \<exists>s. cd_print_request J q = Ok s \<and> one_line s \<and> cd_parse_request J s = Ok q)
   \<and> (\<forall>r. \<exists>s. cd_print_response J r = Ok s \<and> one_line s \<and> (plain_response r \<longrightarrow> cd_parse_response J s = Ok r))
   \<and> (\<forall>s m. cd_parse_request J s \<noteq> Panic m)"

lemma codec_request:
  assumes "codec_laws J"
  obtains s where "cd_print_request J q = Ok s" and "one_line s" and "cd_parse_request J s = Ok q"
  using assms unfolding codec_laws_def by blast

lemma codec_response:
  assumes "codec_laws J"
  obtains s where "cd_print_response J r = Ok s" and "one_line s"
  using assms unfolding codec_laws_def by blast

lemma codec_plain:
  assumes "codec_laws J" and "plain_response r" and "cd_print_response J r = Ok s"
  shows "cd_parse_response J s = Ok r"
  using assms unfolding codec_laws_def by (metis outcome.inject(1))

lemma codec_no_panic: "codec_laws J \<Longrightarrow> cd_parse_request J s \<noteq> Panic m"
  unfolding codec_laws_def by blast

end
