(* ===== verification/Ipc.thy ===== *)
theory Ipc
  imports Protocol
begin

text \<open>
  The control socket, \<open>src/src/ipc.rs\<close>: connections that carry newline-delimited JSON requests
  and are answered from the supervised apps. Apps are shared with the supervisor, so the
  handlers take and return the list of apps and the context.

  The map from tokens to connections is an association list with distinct keys. A \<open>VecDeque\<close>
  is the list of its bytes; how much of it its first slice holds is up to the standard library
  (\<open>cn_split\<close>, a function of its length).
\<close>

section \<open>Connections\<close>

record connection =
  cn_stream :: sock
  cn_read_buf :: bytes
  cn_write_buf :: bytes
  cn_close_after_flush :: bool
  cn_writable_registered :: bool
  cn_split :: "nat \<Rightarrow> nat"

definition connection_new :: "sock \<Rightarrow> (nat \<Rightarrow> nat) \<Rightarrow> connection" where
  "connection_new stream split =
     \<lparr>cn_stream = stream, cn_read_buf = [], cn_write_buf = [], cn_close_after_flush = False,
      cn_writable_registered = False, cn_split = split\<rparr>"

record server =
  sv_connections :: "(token \<times> connection) list"
  sv_max_connections :: nat

definition DEFAULT_MAX_CONNECTIONS :: nat where
  "DEFAULT_MAX_CONNECTIONS = 32"

definition server_new :: "nat \<Rightarrow> server" where
  "server_new max_connections = \<lparr>sv_connections = [], sv_max_connections = max_connections\<rparr>"

definition is_known :: "server \<Rightarrow> token \<Rightarrow> bool" where
  "is_known sv tok \<longleftrightarrow> map_of (sv_connections sv) tok \<noteq> None"

definition set_conn :: "token \<Rightarrow> connection \<Rightarrow> server \<Rightarrow> server" where
  "set_conn tok conn sv = sv\<lparr>sv_connections := AList.update tok conn (sv_connections sv)\<rparr>"

text \<open>\<open>queue_response\<close>: the JSON line joins the write buffer.\<close>

definition queue_response :: "codec \<Rightarrow> response \<Rightarrow> connection \<Rightarrow> (ipc_error, connection) outcome" where
  "queue_response J response conn =
     (case cd_print_response J response of
        Ok line \<Rightarrow> Ok (conn\<lparr>cn_write_buf := cn_write_buf conn @ as_bytes (line @ [CHR 0x0A])\<rparr>)
      | Err m \<Rightarrow> Err (IpcJson m)
      | Panic m \<Rightarrow> Panic m)"

section \<open>Accepting\<close>

text \<open>
  \<open>write_all\<close> of the standard library, to a non-blocking stream: until everything is written,
  or a write fails or makes no progress (\<open>WriteZero\<close>). Its retry of an interrupted write is not
  modelled: a non-blocking write never waits, so it is not interrupted.
\<close>

function write_all :: "sock \<Rightarrow> bytes \<Rightarrow> (io_error, unit) outcome \<times> sock" where
  "write_all s buf =
     (if buf = [] then (Ok (), s)
      else case sock_write s buf of
        (Ok n, s') \<Rightarrow> if n = 0 then (Err WriteZero, s') else write_all s' (drop n buf)
      | (Err e, s') \<Rightarrow> (Err e, s')
      | (Panic m, s') \<Rightarrow> (Panic m, s'))"
  by pat_completeness auto
termination
  by (relation "measure (\<lambda>(s, buf). length buf)") auto

declare write_all.simps [simp del]

definition over_capacity :: response where
  "over_capacity = RespError ''too many control connections, try again later''"

text \<open>\<open>reject_over_capacity\<close>: what the refused stream received, as an event; failures are ignored.\<close>

definition reject_over_capacity :: "codec \<Rightarrow> sock \<Rightarrow> sys_event list" where
  "reject_over_capacity J stream =
     (case cd_print_response J over_capacity of
        Ok line \<Rightarrow> [Refused (sk_out (snd (write_all stream (as_bytes (line @ [CHR 0x0A])))))]
      | _ \<Rightarrow> [])"

text \<open>
  \<open>accept_all\<close>: \<open>pending\<close> lists what the successive calls of \<open>accept\<close> return, until one would
  block.
\<close>

fun accept_all :: "'s env \<Rightarrow> codec \<Rightarrow> (io_error, sock \<times> (nat \<Rightarrow> nat)) outcome list \<Rightarrow> server \<Rightarrow> 's ctx \<Rightarrow>
    (ipc_error, unit) outcome \<times> server \<times> 's ctx" where
  "accept_all E J [] sv c = (Ok (), sv, c)"
| "accept_all E J (Err e # pending) sv c = (if e = WouldBlock then Ok () else Err (IpcIo e), sv, c)"
| "accept_all E J (Panic m # pending) sv c = (Panic m, sv, c)"
| "accept_all E J (Ok (stream, split) # pending) sv c =
     (if sv_max_connections sv \<le> length (sv_connections sv)
      then accept_all E J pending sv (c\<lparr>cx_trace := cx_trace c @ reject_over_capacity J stream\<rparr>)
      else case allocate (env_slab E) (cx_slab c) of
        (None, ts) \<Rightarrow>
          accept_all E J pending sv (c\<lparr>cx_slab := ts, cx_trace := cx_trace c @ reject_over_capacity J stream\<rparr>)
      | (Some tok, ts) \<Rightarrow>
          (case env_register E (cx_tick c) of
             Some e \<Rightarrow> (Err (IpcIo e), sv, c\<lparr>cx_slab := ts, cx_tick := Suc (cx_tick c)\<rparr>)
           | None \<Rightarrow>
               accept_all E J pending (set_conn tok (connection_new stream split) sv)
                 (c\<lparr>cx_slab := ts, cx_tick := Suc (cx_tick c)\<rparr>)))"

section \<open>What the daemon reports of an app\<close>

text \<open>\<open>App::stats\<close> reads the clock and the cgroup: one more interaction.\<close>

definition read_stats :: "'s env \<Rightarrow> app \<Rightarrow> 's ctx \<Rightarrow> app_stats \<times> 's ctx" where
  "read_stats E a c = (stats (env_now E (cx_tick c)) (env_usage E (cx_tick c)) a, c\<lparr>cx_tick := Suc (cx_tick c)\<rparr>)"

definition app_info_of :: "app \<Rightarrow> app_stats \<Rightarrow> app_info" where
  "app_info_of a s =
     (let p = a_params a
      in \<lparr>ai_name = a_name a, ai_state = status_string a, ai_pid = app_pid a, ai_command = app_command a,
          ai_cwd = ap_cwd p, ai_uid = ap_uid p, ai_gid = ap_gid p, ai_restart_count = stats_restart_count s,
          ai_log_bytes = stats_stdout_bytes s + stats_stderr_bytes s,
          ai_memory_current = cu_memory_current (stats_usage s), ai_io_read_bytes = cu_io_read_bytes (stats_usage s),
          ai_io_write_bytes = cu_io_write_bytes (stats_usage s), ai_oneshot = ap_oneshot p,
          ai_cpu_weight = cpu_weight (ap_cgroup p), ai_io_weight = io_weight (ap_cgroup p),
          ai_runtime = (case stats_uptime s of Some d \<Rightarrow> Some d | None \<Rightarrow> stats_last_run_duration s)\<rparr>)"

definition app_info :: "'s env \<Rightarrow> app \<Rightarrow> 's ctx \<Rightarrow> app_info \<times> 's ctx" where
  "app_info E a c = (case read_stats E a c of (s, c') \<Rightarrow> (app_info_of a s, c'))"

definition app_debug_info :: "app \<Rightarrow> app_debug_info" where
  "app_debug_info a =
     \<lparr>ad_cgroup_config = ap_cgroup (a_params a), ad_cgroup_path = cgroup_path a,
      ad_log_buffer = \<lparr>lb_kind = circ_kind, lb_capacity = log_buffer_capacity a, lb_write_pos = log_write_pos a,
        lb_start_pos = log_start_pos a\<rparr>\<rparr>"

definition app_config_snapshot :: "app \<Rightarrow> app_config_snapshot" where
  "app_config_snapshot a =
     (let p = a_params a
      in \<lparr>ac_name = a_name a, ac_command = app_command a, ac_workdir = ap_cwd p, ac_uid = ap_uid p, ac_gid = ap_gid p,
          ac_env = ap_env p, ac_oneshot = ap_oneshot p, ac_autostart = ap_autostart p, ac_restart = ap_restart p,
          ac_cgroup = ap_cgroup p, ac_log_buffer_size = ap_log_buffer_size p\<rparr>)"

fun list_infos :: "'s env \<Rightarrow> app list \<Rightarrow> 's ctx \<Rightarrow> app_info list \<times> 's ctx" where
  "list_infos E [] c = ([], c)"
| "list_infos E (a # apps) c =
     (case app_info E a c of (i, c1) \<Rightarrow> case list_infos E apps c1 of (is, c2) \<Rightarrow> (i # is, c2))"


section \<open>Requests\<close>

text \<open>
  \<open>apps.iter_mut().find(...)\<close> followed by an operation on the app found: the first app of that
  name is replaced by its new state; \<open>None\<close> when there is none.
\<close>

fun with_app :: "string \<Rightarrow> (app \<Rightarrow> 's ctx \<Rightarrow> 'r \<times> app \<times> 's ctx) \<Rightarrow> app list \<Rightarrow> 's ctx \<Rightarrow> 'r option \<times> app list \<times> 's ctx" where
  "with_app name f [] c = (None, [], c)"
| "with_app name f (a # apps) c =
     (if a_name a = name then (case f a c of (r, a', c') \<Rightarrow> (Some r, a' # apps, c'))
      else case with_app name f apps c of (r, apps', c') \<Rightarrow> (r, a # apps', c'))"

definition app_names :: "app list \<Rightarrow> string list" where
  "app_names apps = map a_name apps"

definition not_found :: "string \<Rightarrow> app list \<Rightarrow> response" where
  "not_found name apps = RespAppNotFound name (app_names apps)"

fun start_all :: "'s env \<Rightarrow> codec \<Rightarrow> app list \<Rightarrow> 's ctx \<Rightarrow>
    (unit, string list \<times> start_failure list) outcome \<times> app list \<times> 's ctx" where
  "start_all E J [] c = (Ok ([], []), [], c)"
| "start_all E J (a # apps) c =
     (case app_start E a c of
        (Panic m, a', c1) \<Rightarrow> (Panic m, a' # apps, c1)
      | (r, a', c1) \<Rightarrow>
          (case start_all E J apps c1 of
             (Ok (started, failed), apps', c2) \<Rightarrow>
               ((case r of
                   Err e \<Rightarrow> Ok (started, \<lparr>sf_name = a_name a', sf_message = app_err_msg (cd_io_msg J) e\<rparr> # failed)
                 | _ \<Rightarrow> Ok (a_name a' # started, failed)), a' # apps', c2)
           | (r', apps', c2) \<Rightarrow> (r', a' # apps', c2)))"

fun stop_all :: "'s env \<Rightarrow> codec \<Rightarrow> bool \<Rightarrow> app list \<Rightarrow> 's ctx \<Rightarrow>
    (unit, string list \<times> stop_failure list) outcome \<times> app list \<times> 's ctx" where
  "stop_all E J force [] c = (Ok ([], []), [], c)"
| "stop_all E J force (a # apps) c =
     (case app_stop E force a c of
        (Panic m, a', c1) \<Rightarrow> (Panic m, a' # apps, c1)
      | (r, a', c1) \<Rightarrow>
          (case stop_all E J force apps c1 of
             (Ok (stopped, failed), apps', c2) \<Rightarrow>
               ((case r of
                   Err e \<Rightarrow> Ok (stopped, \<lparr>pf_name = a_name a', pf_message = app_err_msg (cd_io_msg J) e\<rparr> # failed)
                 | _ \<Rightarrow> Ok (a_name a' # stopped, failed)), a' # apps', c2)
           | (r', apps', c2) \<Rightarrow> (r', a' # apps', c2)))"

text \<open>The response to one request, with its effects on the apps.\<close>

definition info_of :: "'s env \<Rightarrow> app \<Rightarrow> 's ctx \<Rightarrow> response \<times> app \<times> 's ctx" where
  "info_of E a c =
     (case app_info E a c of (i, c1) \<Rightarrow> case read_stats E a c1 of (s, c2) \<Rightarrow>
        (RespInfo (a_name a) i s (app_debug_info a), a, c2))"

definition dispatch_request :: "'s env \<Rightarrow> codec \<Rightarrow> request \<Rightarrow> app list \<Rightarrow> 's ctx \<Rightarrow>
    (unit, response) outcome \<times> app list \<times> 's ctx" where
  "dispatch_request E J q apps c =
     (case q of
        ReqList \<Rightarrow> (case list_infos E apps c of (is, c') \<Rightarrow> (Ok (RespAppList is), apps, c'))
      | ReqInfo name \<Rightarrow>
          (case with_app name (info_of E) apps c of
             (Some r, apps', c') \<Rightarrow> (Ok r, apps', c')
           | (None, apps', c') \<Rightarrow> (Ok (not_found name apps), apps', c'))
      | ReqConfig name \<Rightarrow>
          (case with_app name (\<lambda>a c. (RespConfig (a_name a) (app_config_snapshot a), a, c)) apps c of
             (Some r, apps', c') \<Rightarrow> (Ok r, apps', c')
           | (None, apps', c') \<Rightarrow> (Ok (not_found name apps), apps', c'))
      | ReqStart name \<Rightarrow>
          (case with_app name (app_start E) apps c of
             (Some (Ok _), apps', c') \<Rightarrow> (Ok (RespStarted name), apps', c')
           | (Some (Err e), apps', c') \<Rightarrow> (Ok (RespError (app_err_msg (cd_io_msg J) e)), apps', c')
           | (Some (Panic m), apps', c') \<Rightarrow> (Panic m, apps', c')
           | (None, apps', c') \<Rightarrow> (Ok (not_found name apps), apps', c'))
      | ReqStartAll \<Rightarrow>
          (case start_all E J apps c of
             (Ok (started, failed), apps', c') \<Rightarrow> (Ok (RespStartedAll started failed), apps', c')
           | (Err e, apps', c') \<Rightarrow> (Err e, apps', c')
           | (Panic m, apps', c') \<Rightarrow> (Panic m, apps', c'))
      | ReqStop name force \<Rightarrow>
          (case with_app name (app_stop E force) apps c of
             (Some (Ok was_running), apps', c') \<Rightarrow> (Ok (RespStopped name was_running), apps', c')
           | (Some (Err e), apps', c') \<Rightarrow> (Ok (RespError (app_err_msg (cd_io_msg J) e)), apps', c')
           | (Some (Panic m), apps', c') \<Rightarrow> (Panic m, apps', c')
           | (None, apps', c') \<Rightarrow> (Ok (not_found name apps), apps', c'))
      | ReqStopAll force \<Rightarrow>
          (case stop_all E J force apps c of
             (Ok (stopped, failed), apps', c') \<Rightarrow> (Ok (RespStoppedAll stopped failed), apps', c')
           | (Err e, apps', c') \<Rightarrow> (Err e, apps', c')
           | (Panic m, apps', c') \<Rightarrow> (Panic m, apps', c')))"

section \<open>Reading\<close>

text \<open>The line up to and including the first newline, and the rest; \<open>None\<close> without a newline.\<close>

definition newline :: byte where
  "newline = 10"

definition take_line :: "bytes \<Rightarrow> (bytes \<times> bytes) option" where
  "take_line buf =
     (case dropWhile (\<lambda>b. b \<noteq> newline) buf of
        [] \<Rightarrow> None
      | _ # rest \<Rightarrow> Some (takeWhile (\<lambda>b. b \<noteq> newline) buf @ [newline], rest))"

lemma take_line_shorter: "take_line buf = Some (line, rest) \<Longrightarrow> length rest < length buf"
proof -
  assume "take_line buf = Some (line, rest)"
  then obtain b where "dropWhile (\<lambda>b. b \<noteq> newline) buf = b # rest"
    by (auto simp: take_line_def split: list.splits)
  then show ?thesis
    using length_dropWhile_le [of "\<lambda>b. b \<noteq> newline" buf] by simp
qed

text \<open>The response to one line: to the request it holds, or that it holds none.\<close>

definition answer :: "'s env \<Rightarrow> codec \<Rightarrow> string \<Rightarrow> app list \<Rightarrow> 's ctx \<Rightarrow> (unit, response) outcome \<times> app list \<times> 's ctx" where
  "answer E J trimmed apps c =
     (case cd_parse_request J trimmed of
        Ok q \<Rightarrow> dispatch_request E J q apps c
      | Err m \<Rightarrow> (Ok (RespError m), apps, c)
      | Panic m \<Rightarrow> (Panic m, apps, c))"

text \<open>
  The loop over complete lines: blank lines are skipped, every other line is answered, and the
  connection is then closed once the answers are out. An answer that cannot be printed ends the
  loop with its error.
\<close>

function process_lines :: "'s env \<Rightarrow> codec \<Rightarrow> connection \<Rightarrow> app list \<Rightarrow> 's ctx \<Rightarrow>
    (ipc_error, unit) outcome \<times> connection \<times> app list \<times> 's ctx" where
  "process_lines E J conn apps c =
     (case take_line (cn_read_buf conn) of
        None \<Rightarrow> (Ok (), conn, apps, c)
      | Some (line, rest) \<Rightarrow>
          (let conn = conn\<lparr>cn_read_buf := rest\<rparr>; trimmed = trim (from_utf8_lossy line)
           in if trimmed = '''' then process_lines E J conn apps c
              else case answer E J trimmed apps c of
                     (Ok response, apps', c') \<Rightarrow>
                       (case queue_response J response conn of
                          Ok conn' \<Rightarrow> process_lines E J (conn'\<lparr>cn_close_after_flush := True\<rparr>) apps' c'
                        | Err e \<Rightarrow> (Err e, conn, apps', c')
                        | Panic m \<Rightarrow> (Panic m, conn, apps', c'))
                   | (Err e, apps', c') \<Rightarrow> (Panic ''unreachable'', conn, apps', c')
                   | (Panic m, apps', c') \<Rightarrow> (Panic m, conn, apps', c')))"
  by pat_completeness auto
termination
  by (relation "measure (\<lambda>(E, J, conn, apps, c). length (cn_read_buf conn))")
    (auto dest: take_line_shorter simp: queue_response_def split: outcome.splits)

declare process_lines.simps [simp del]

definition handle_readable :: "'s env \<Rightarrow> codec \<Rightarrow> token \<Rightarrow> app list \<Rightarrow> server \<Rightarrow> 's ctx \<Rightarrow>
    (ipc_error, unit) outcome \<times> app list \<times> server \<times> 's ctx" where
  "handle_readable E J tok apps sv c =
     (case map_of (sv_connections sv) tok of
        None \<Rightarrow> (Ok (), apps, sv, c)
      | Some conn \<Rightarrow>
          (case read_all (cn_stream conn) (cn_read_buf conn) of
             (Err e, buf, s) \<Rightarrow> (Err (IpcIo e), apps, set_conn tok (conn\<lparr>cn_stream := s, cn_read_buf := buf\<rparr>) sv, c)
           | (Panic m, buf, s) \<Rightarrow> (Panic m, apps, sv, c)
           | (Ok eof, buf, s) \<Rightarrow>
               (case process_lines E J (conn\<lparr>cn_stream := s, cn_read_buf := buf,
                       cn_close_after_flush := cn_close_after_flush conn \<or> eof\<rparr>) apps c of
                  (r, conn', apps', c') \<Rightarrow> (r, apps', set_conn tok conn' sv, c'))))"

section \<open>Writing and closing\<close>

function write_loop :: "sock \<Rightarrow> bytes \<Rightarrow> (nat \<Rightarrow> nat) \<Rightarrow> (io_error, unit) outcome \<times> bytes \<times> sock" where
  "write_loop s buf split =
     (if buf = [] then (Ok (), buf, s)
      else case sock_write s (take (transfer (split (length buf)) (length buf)) buf) of
        (Ok n, s') \<Rightarrow> if n = 0 then (Ok (), buf, s') else write_loop s' (drop n buf) split
      | (Err e, s') \<Rightarrow> (if e = WouldBlock then Ok () else Err e, buf, s')
      | (Panic m, s') \<Rightarrow> (Panic m, buf, s'))"
  by pat_completeness auto
termination
  by (relation "measure (\<lambda>(s, buf, split). length buf)") auto

declare write_loop.simps [simp del]

definition handle_writable :: "token \<Rightarrow> server \<Rightarrow> (ipc_error, unit) outcome \<times> server" where
  "handle_writable tok sv =
     (case map_of (sv_connections sv) tok of
        None \<Rightarrow> (Ok (), sv)
      | Some conn \<Rightarrow>
          (case write_loop (cn_stream conn) (cn_write_buf conn) (cn_split conn) of
             (r, buf, s) \<Rightarrow> (map_err IpcIo r, set_conn tok (conn\<lparr>cn_stream := s, cn_write_buf := buf\<rparr>) sv)))"

definition close_conn :: "'s env \<Rightarrow> token \<Rightarrow> server \<Rightarrow> 's ctx \<Rightarrow> (ipc_error, unit) outcome \<times> server \<times> 's ctx" where
  "close_conn E tok sv c =
     (case map_of (sv_connections sv) tok of
        None \<Rightarrow> (Ok (), sv, c)
      | Some conn \<Rightarrow>
          (let sv = sv\<lparr>sv_connections := AList.delete tok (sv_connections sv)\<rparr>
           in case free (env_slab E) (cx_slab c) tok of
                None \<Rightarrow> (Panic ''invalid key'', sv, c)
              | Some ts \<Rightarrow> (Ok (), sv, c\<lparr>cx_slab := ts\<rparr>)))"

definition reconcile :: "'s env \<Rightarrow> token \<Rightarrow> server \<Rightarrow> 's ctx \<Rightarrow> (ipc_error, unit) outcome \<times> server \<times> 's ctx" where
  "reconcile E tok sv c =
     (case map_of (sv_connections sv) tok of
        None \<Rightarrow> (Ok (), sv, c)
      | Some conn \<Rightarrow>
          if cn_close_after_flush conn \<and> cn_write_buf conn = [] then close_conn E tok sv c
          else let wants_writable = (cn_write_buf conn \<noteq> [])
               in if wants_writable \<noteq> cn_writable_registered conn
                  then (case env_register E (cx_tick c) of
                          None \<Rightarrow> (Ok (), set_conn tok (conn\<lparr>cn_writable_registered := wants_writable\<rparr>) sv,
                                   c\<lparr>cx_tick := Suc (cx_tick c)\<rparr>)
                        | Some e \<Rightarrow> (Ok (), sv, c\<lparr>cx_tick := Suc (cx_tick c)\<rparr>))
                  else (Ok (), sv, c))"

end
