(* ===== verification/LogIpc.thy ===== *)
theory LogIpc
  imports Protocol
begin

text \<open>
  The log socket, \<open>src/src/log_ipc.rs\<close>: connections that name one app and are sent its raw
  log bytes from the ring buffer, by a cursor per connection.

  The map from tokens to connections is an association list with distinct keys; its order is
  the iteration order of the \<open>HashMap\<close>, on which nothing depends but the order in which
  \<open>push_updates\<close> serves the connections. The results of \<open>accept\<close> and the registry's answers
  are inputs.
\<close>

section \<open>Connections\<close>

record subscription =
  sub_name :: string
  sub_follow :: bool
  sub_cursor :: nat
  sub_dump_until :: "nat option"

datatype log_conn_state = AwaitingRequest | Streaming subscription

record log_conn =
  lconn_stream :: sock
  lconn_read_buf :: bytes
  lconn_state :: log_conn_state
  lconn_close_after_flush :: bool
  lconn_write_blocked :: bool
  lconn_writable_registered :: bool

definition log_conn_new :: "sock \<Rightarrow> log_conn" where
  "log_conn_new stream =
     \<lparr>lconn_stream = stream, lconn_read_buf = [], lconn_state = AwaitingRequest, lconn_close_after_flush = False,
      lconn_write_blocked = False, lconn_writable_registered = False\<rparr>"

record log_server =
  ls_connections :: "(token \<times> log_conn) list"
  ls_max_connections :: nat

definition LOG_DEFAULT_MAX_CONNECTIONS :: nat where
  "LOG_DEFAULT_MAX_CONNECTIONS = 32"

definition log_server_new :: "nat \<Rightarrow> log_server" where
  "log_server_new max_connections = \<lparr>ls_connections = [], ls_max_connections = max_connections\<rparr>"

definition log_is_known :: "log_server \<Rightarrow> token \<Rightarrow> bool" where
  "log_is_known sv tok \<longleftrightarrow> map_of (ls_connections sv) tok \<noteq> None"

definition set_log_conn :: "token \<Rightarrow> log_conn \<Rightarrow> log_server \<Rightarrow> log_server" where
  "set_log_conn tok conn sv = sv\<lparr>ls_connections := AList.update tok conn (ls_connections sv)\<rparr>"

section \<open>Accepting\<close>

text \<open>
  \<open>accept_all\<close>: \<open>pending\<close> lists what the successive calls of \<open>accept\<close> return, until one would
  block. A registration that fails ends the loop; its token stays allocated.
\<close>

fun log_accept_all :: "'s env \<Rightarrow> (io_error, sock) outcome list \<Rightarrow> log_server \<Rightarrow> 's ctx \<Rightarrow>
    (ipc_error, unit) outcome \<times> log_server \<times> 's ctx" where
  "log_accept_all E [] sv c = (Ok (), sv, c)"
| "log_accept_all E (Err e # pending) sv c = (if e = WouldBlock then Ok () else Err (IpcIo e), sv, c)"
| "log_accept_all E (Panic m # pending) sv c = (Panic m, sv, c)"
| "log_accept_all E (Ok stream # pending) sv c =
     (if ls_max_connections sv \<le> length (ls_connections sv) then log_accept_all E pending sv c
      else case allocate (env_slab E) (cx_slab c) of
        (None, ts) \<Rightarrow> log_accept_all E pending sv (c\<lparr>cx_slab := ts\<rparr>)
      | (Some tok, ts) \<Rightarrow>
          (case env_register E (cx_tick c) of
             Some e \<Rightarrow> (Err (IpcIo e), sv, c\<lparr>cx_slab := ts, cx_tick := Suc (cx_tick c)\<rparr>)
           | None \<Rightarrow>
               log_accept_all E pending (set_log_conn tok (log_conn_new stream) sv)
                 (c\<lparr>cx_slab := ts, cx_tick := Suc (cx_tick c)\<rparr>)))"

section \<open>Sending\<close>

text \<open>\<open>apps.iter_mut().find(|a| a.name() == name)\<close>.\<close>

definition find_app :: "string \<Rightarrow> app list \<Rightarrow> app option" where
  "find_app name apps = find (\<lambda>a. a_name a = name) apps"

text \<open>
  The loop of \<open>try_send\<close>: from the cursor, straight out of the ring into the socket. The result
  is whether the socket blocked (or the error), with the cursor and the socket. \<open>None\<close> from the
  ring is a panic.
\<close>

function send_loop :: "(nat \<Rightarrow> log_chunk option) \<Rightarrow> nat \<Rightarrow> sock \<Rightarrow> (io_error, bool) outcome \<times> nat \<times> sock" where
  "send_loop read cursor s =
     (case read cursor of
        None \<Rightarrow> (Panic ''read_from_cursor'', cursor, s)
      | Some chunk \<Rightarrow>
          (let cursor = usize_add cursor (lc_missed chunk)
           in case lc_buffer chunk of
                None \<Rightarrow> (Ok False, cursor, s)
              | Some buffer \<Rightarrow>
                  (case sock_write s buffer of
                     (Ok n, s') \<Rightarrow> if n = 0 then (Ok False, cursor, s') else send_loop read (usize_add cursor n) s'
                   | (Err e, s') \<Rightarrow> if e = WouldBlock then (Ok True, cursor, s') else (Err e, cursor, s')
                   | (Panic m, s') \<Rightarrow> (Panic m, cursor, s'))))"
  by pat_completeness auto
termination
proof (relation "measure (\<lambda>(read, cursor, s). sk_room s)", goal_cases)
  case (2 read cursor s chunk c1 buffer x s' n)
  then have "sock_write s buffer = (Ok n, s')" by simp
  from sock_write_OkD(3) [OF this] 2 show ?case by simp
qed simp

declare send_loop.simps [simp del]

definition past_bound :: "nat option \<Rightarrow> nat \<Rightarrow> bool" where
  "past_bound bound cursor = (case bound of Some b \<Rightarrow> b \<le> cursor | None \<Rightarrow> False)"

definition log_try_send :: "app list \<Rightarrow> token \<Rightarrow> log_server \<Rightarrow> (ipc_error, unit) outcome \<times> log_server" where
  "log_try_send apps tok sv =
     (case map_of (ls_connections sv) tok of
        None \<Rightarrow> (Ok (), sv)
      | Some conn \<Rightarrow>
          (case lconn_state conn of
             AwaitingRequest \<Rightarrow> (Ok (), sv)
           | Streaming sub \<Rightarrow>
               (case find_app (sub_name sub) apps of
                  None \<Rightarrow> (Ok (), set_log_conn tok (conn\<lparr>lconn_close_after_flush := True\<rparr>) sv)
                | Some app \<Rightarrow>
                    (case send_loop (log_bytes_from_cursor app) (sub_cursor sub) (lconn_stream conn) of
                       (r, cursor, s') \<Rightarrow>
                         let conn = conn\<lparr>lconn_stream := s', lconn_state := Streaming (sub\<lparr>sub_cursor := cursor\<rparr>)\<rparr>
                         in case r of
                              Ok blocked \<Rightarrow>
                                let done = \<not> blocked \<and> past_bound (sub_dump_until sub) cursor
                                in (Ok (), set_log_conn tok
                                      (conn\<lparr>lconn_write_blocked := blocked,
                                            lconn_close_after_flush := lconn_close_after_flush conn \<or> done\<rparr>) sv)
                            | Err e \<Rightarrow> (Err (IpcIo e), set_log_conn tok conn sv)
                            | Panic m \<Rightarrow> (Panic m, set_log_conn tok conn sv)))))"

section \<open>Requests\<close>

text \<open>
  A complete request at the front of the read buffer: follow flag, name length, name; and the
  bytes after it.
\<close>

definition parse_log_request :: "bytes \<Rightarrow> (bool \<times> string \<times> bytes) option" where
  "parse_log_request buf =
     (if length buf < 2 then None
      else let name_len = unat (buf ! 1)
           in if length buf < 2 + name_len then None
              else Some (buf ! 0 \<noteq> 0, from_utf8_lossy (drop 2 (take (2 + name_len) buf)), drop (2 + name_len) buf))"

definition log_handle_readable :: "app list \<Rightarrow> token \<Rightarrow> log_server \<Rightarrow> (ipc_error, unit) outcome \<times> log_server" where
  "log_handle_readable apps tok sv =
     (case map_of (ls_connections sv) tok of
        None \<Rightarrow> (Ok (), sv)
      | Some conn \<Rightarrow>
          (case read_all (lconn_stream conn) (lconn_read_buf conn) of
             (Err e, buf, s) \<Rightarrow> (Err (IpcIo e), set_log_conn tok (conn\<lparr>lconn_stream := s, lconn_read_buf := buf\<rparr>) sv)
           | (Panic m, buf, s) \<Rightarrow> (Panic m, sv)
           | (Ok eof, buf, s) \<Rightarrow>
               let conn = conn\<lparr>lconn_stream := s, lconn_read_buf := buf, lconn_close_after_flush := lconn_close_after_flush conn \<or> eof\<rparr>
               in case lconn_state conn of
                    Streaming _ \<Rightarrow> log_try_send apps tok (set_log_conn tok conn sv)
                  | AwaitingRequest \<Rightarrow>
                      (case parse_log_request buf of
                         None \<Rightarrow> (Ok (), set_log_conn tok conn sv)
                       | Some (follow, name, rest) \<Rightarrow>
                           let conn = conn\<lparr>lconn_read_buf := rest\<rparr>;
                               write_pos = (if name = '''' then None else map_option log_write_pos (find_app name apps))
                           in case write_pos of
                                None \<Rightarrow> (Ok (), set_log_conn tok (conn\<lparr>lconn_close_after_flush := True\<rparr>) sv)
                              | Some write_pos \<Rightarrow>
                                  log_try_send apps tok (set_log_conn tok
                                    (conn\<lparr>lconn_state := Streaming
                                      \<lparr>sub_name = name, sub_follow = follow, sub_cursor = 0,
                                       sub_dump_until = (if follow then None else Some write_pos)\<rparr>\<rparr>) sv))))"

definition log_handle_writable :: "app list \<Rightarrow> token \<Rightarrow> log_server \<Rightarrow> (ipc_error, unit) outcome \<times> log_server" where
  "log_handle_writable apps tok sv = log_try_send apps tok sv"

section \<open>Closing\<close>

text \<open>The result of \<open>deregister\<close> is ignored.\<close>

definition log_close :: "'s env \<Rightarrow> token \<Rightarrow> log_server \<Rightarrow> 's ctx \<Rightarrow> (ipc_error, unit) outcome \<times> log_server \<times> 's ctx" where
  "log_close E tok sv c =
     (case map_of (ls_connections sv) tok of
        None \<Rightarrow> (Ok (), sv, c)
      | Some conn \<Rightarrow>
          (let sv = sv\<lparr>ls_connections := AList.delete tok (ls_connections sv)\<rparr>
           in case free (env_slab E) (cx_slab c) tok of
                None \<Rightarrow> (Panic ''invalid key'', sv, c)
              | Some ts \<Rightarrow> (Ok (), sv, c\<lparr>cx_slab := ts\<rparr>)))"

text \<open>A refused \<open>reregister\<close> leaves the old interest, to be tried again at the next call.\<close>

definition log_reconcile :: "'s env \<Rightarrow> token \<Rightarrow> log_server \<Rightarrow> 's ctx \<Rightarrow> (ipc_error, unit) outcome \<times> log_server \<times> 's ctx" where
  "log_reconcile E tok sv c =
     (case map_of (ls_connections sv) tok of
        None \<Rightarrow> (Ok (), sv, c)
      | Some conn \<Rightarrow>
          if lconn_close_after_flush conn \<and> \<not> lconn_write_blocked conn then log_close E tok sv c
          else let wants_writable = lconn_write_blocked conn
               in if wants_writable \<noteq> lconn_writable_registered conn
                  then (case env_register E (cx_tick c) of
                          None \<Rightarrow> (Ok (), set_log_conn tok (conn\<lparr>lconn_writable_registered := wants_writable\<rparr>) sv,
                                   c\<lparr>cx_tick := Suc (cx_tick c)\<rparr>)
                        | Some e \<Rightarrow> (Ok (), sv, c\<lparr>cx_tick := Suc (cx_tick c)\<rparr>))
                  else (Ok (), sv, c))"

section \<open>Pushing new output\<close>

definition is_following :: "log_conn \<Rightarrow> bool" where
  "is_following conn = (case lconn_state conn of Streaming sub \<Rightarrow> sub_follow sub | AwaitingRequest \<Rightarrow> False)"

fun push_tokens :: "'s env \<Rightarrow> app list \<Rightarrow> token list \<Rightarrow> log_server \<Rightarrow> 's ctx \<Rightarrow>
    (ipc_error, unit) outcome \<times> log_server \<times> 's ctx" where
  "push_tokens E apps [] sv c = (Ok (), sv, c)"
| "push_tokens E apps (tok # toks) sv c =
     (case log_try_send apps tok sv of
        (Panic m, sv') \<Rightarrow> (Panic m, sv', c)
      | (Err e, sv') \<Rightarrow>
          (case log_close E tok sv' c of
             (Panic m, sv'', c') \<Rightarrow> (Panic m, sv'', c')
           | (_, sv'', c') \<Rightarrow> push_tokens E apps toks sv'' c')
      | (Ok _, sv') \<Rightarrow>
          (case log_reconcile E tok sv' c of
             (Panic m, sv'', c') \<Rightarrow> (Panic m, sv'', c')
           | (_, sv'', c') \<Rightarrow> push_tokens E apps toks sv'' c'))"

definition push_updates :: "'s env \<Rightarrow> app list \<Rightarrow> log_server \<Rightarrow> 's ctx \<Rightarrow>
    (ipc_error, unit) outcome \<times> log_server \<times> 's ctx" where
  "push_updates E apps sv c =
     push_tokens E apps (map fst (filter (\<lambda>(tok, conn). is_following conn) (ls_connections sv))) sv c"

end
