(* ===== verification/Config.thy ===== *)
theory Config
  imports AppRuntime
begin

text \<open>
  The configuration: \<open>src/src/config.rs\<close>, \<open>src/src/parser.rs\<close>, the lookups of
  \<open>src/src/support/uidgid.rs\<close>, and the part of \<open>main\<close> that turns an app's configuration into
  its parameters. The parsers of a configuration and the file system answer through records of
  parameters; what the derived readers make of a node of YAML is in \<open>Config_Serde\<close>.
\<close>

section \<open>Users and groups\<close>

text \<open>\<open>UserId\<close>, a numeric id or a name.\<close>

datatype user_id = Id nat | Name string

text \<open>
  \<open>get_uid\<close> and \<open>get_gid\<close>: a name with a NUL byte is no \<open>CString\<close>; \<open>lookup\<close> is the database
  behind \<open>getpwnam\<close> or \<open>getgrnam\<close>.
\<close>

definition get_id :: "(string \<Rightarrow> nat option) \<Rightarrow> string \<Rightarrow> nat option" where
  "get_id lookup name = (if has_nul name then None else lookup name)"

record app_config =
  cf_name :: "string option"
  cf_command :: string
  cf_workdir :: "string option"
  cf_user :: "user_id option"
  cf_group :: "user_id option"
  cf_env :: "(string \<times> string) list option" \<comment> \<open>in the iteration order of the \<open>HashMap\<close>\<close>
  cf_oneshot :: bool
  cf_autostart :: bool
  cf_restart :: restart_policy
  cf_cgroup :: app_cgroup_config
  cf_log_buffer_size :: "nat option"

definition default_autostart :: bool where
  "default_autostart = True"

definition resolve_id :: "(string \<Rightarrow> nat option) \<Rightarrow> user_id option \<Rightarrow> nat option" where
  "resolve_id lookup u =
     (case u of
        Some (Id i) \<Rightarrow> Some i
      | Some (Name n) \<Rightarrow> get_id lookup n
      | None \<Rightarrow> None)"

definition resolved_uid :: "(string \<Rightarrow> nat option) \<Rightarrow> app_config \<Rightarrow> nat option" where
  "resolved_uid getpwnam cfg = resolve_id getpwnam (cf_user cfg)"

definition resolved_gid :: "(string \<Rightarrow> nat option) \<Rightarrow> app_config \<Rightarrow> nat option" where
  "resolved_gid getgrnam cfg = resolve_id getgrnam (cf_group cfg)"

section \<open>The global configuration\<close>

datatype config_error =
    ConfigIo string io_error
  | ConfigParse string string
  | InvalidLogBufferSize nat nat nat

definition div_ceil :: "nat \<Rightarrow> nat \<Rightarrow> nat" where
  "div_ceil a b = a div b + (if a mod b = 0 then 0 else 1)"

definition validate_log_buffer_size :: "nat \<Rightarrow> nat \<Rightarrow> (config_error, unit) outcome" where
  "validate_log_buffer_size page_size sz =
     (if \<not> page_size dvd sz
      then (if page_size = 0 then Panic ''attempt to divide by zero''
            else Err (InvalidLogBufferSize sz page_size ((max (div_ceil sz page_size) 1 * page_size) mod usize_bound)))
      else Ok ())"

record global_config =
  gc_apps_dir :: string
  gc_apps :: "app_config list"
  gc_log_buffer_size :: nat
  gc_max_mio_tokens :: nat
  gc_max_control_connections :: nat
  gc_max_log_connections :: nat

definition global_config_default :: global_config where
  "global_config_default =
     \<lparr>gc_apps_dir = ''.'', gc_apps = [], gc_log_buffer_size = default_log_buffer_size, gc_max_mio_tokens = 128,
      gc_max_control_connections = 32, gc_max_log_connections = 32\<rparr>"

text \<open>
  The file system and the YAML parser. A directory listing is the paths of its entries, each of
  which can fail.
\<close>

record fs_api =
  fs_read_to_string :: "string \<Rightarrow> (io_error, string) outcome"
  fs_canonicalize :: "string \<Rightarrow> string option"
  fs_read_dir :: "string \<Rightarrow> (io_error, (io_error, string) outcome list) outcome"
  fs_is_file :: "string \<Rightarrow> bool"
  fs_parse_global :: "string \<Rightarrow> (string, global_config) outcome"
  fs_parse_app :: "string \<Rightarrow> (string, app_config) outcome"

definition load :: "fs_api \<Rightarrow> nat \<Rightarrow> string \<Rightarrow> (config_error, global_config) outcome" where
  "load F page_size path =
     (case map_err (ConfigIo path) (fs_read_to_string F path) of
        Err e \<Rightarrow> Err e | Panic m \<Rightarrow> Panic m
      | Ok yaml \<Rightarrow>
          (case map_err (ConfigParse path) (fs_parse_global F yaml) of
             Err e \<Rightarrow> Err e | Panic m \<Rightarrow> Panic m
           | Ok cfg \<Rightarrow>
               (case validate_log_buffer_size page_size (gc_log_buffer_size cfg) of
                  Err e \<Rightarrow> Err e | Panic m \<Rightarrow> Panic m
                | Ok _ \<Rightarrow> Ok cfg)))"

section \<open>Scanning the directory of apps\<close>

text \<open>\<open>Path::file_name\<close> and \<open>Path::extension\<close> of a path that does not end in \<open>..\<close>.\<close>

definition file_name :: "string \<Rightarrow> string" where
  "file_name path = last (str_split CHR ''/'' path)"

definition path_extension :: "string \<Rightarrow> string option" where
  "path_extension path =
     (let parts = str_split CHR ''.'' (file_name path)
      in if length parts \<le> 1 \<or> (length parts = 2 \<and> hd parts = '''') then None else Some (last parts))"

definition ascii_lower :: "char \<Rightarrow> char" where
  "ascii_lower ch = (if 65 \<le> (of_char ch :: nat) \<and> (of_char ch :: nat) \<le> 90 then char_of ((of_char ch :: nat) + 32) else ch)"

definition eq_ignore_ascii_case :: "string \<Rightarrow> string \<Rightarrow> bool" where
  "eq_ignore_ascii_case a b \<longleftrightarrow> map ascii_lower a = map ascii_lower b"

definition is_yaml :: "string \<Rightarrow> bool" where
  "is_yaml path =
     (case path_extension path of
        Some ext \<Rightarrow> eq_ignore_ascii_case ext ''yaml'' \<or> eq_ignore_ascii_case ext ''yml''
      | None \<Rightarrow> False)"

text \<open>
  One entry of the listing: at most one app. An unreadable entry, a file that is no YAML, the
  global configuration itself and a file that fails to parse are skipped.
\<close>

definition scan_entry :: "fs_api \<Rightarrow> string option \<Rightarrow> (io_error, string) outcome \<Rightarrow> app_config list" where
  "scan_entry F excluded entry =
     (case entry of
        Ok path \<Rightarrow>
          if \<not> fs_is_file F path \<or> \<not> is_yaml path \<or> excluded = fs_canonicalize F path then []
          else (case fs_read_to_string F path of
                  Ok yaml \<Rightarrow> (case fs_parse_app F yaml of Ok app \<Rightarrow> [app] | _ \<Rightarrow> [])
                | _ \<Rightarrow> [])
      | _ \<Rightarrow> [])"

definition scan_apps_dir :: "fs_api \<Rightarrow> string \<Rightarrow> string \<Rightarrow> app_config list" where
  "scan_apps_dir F dir config_path =
     (let excluded = fs_canonicalize F config_path
      in case fs_read_dir F dir of
           Ok entries \<Rightarrow> concat (map (scan_entry F excluded) entries)
         | _ \<Rightarrow> [])"

definition all_apps :: "fs_api \<Rightarrow> global_config \<Rightarrow> string \<Rightarrow> app_config list" where
  "all_apps F cfg config_path = gc_apps cfg @ scan_apps_dir F (gc_apps_dir cfg) config_path"

section \<open>From the configuration to the parameters of an app\<close>

text \<open>
  The identity of the daemon and its user databases: \<open>getcwd\<close>, \<open>geteuid\<close>, \<open>getegid\<close>,
  \<open>getpwnam\<close>, \<open>getgrnam\<close>.
\<close>

definition get_cwd_path :: "io_error \<times> bytes option \<Rightarrow> (io_error, bytes) outcome" where
  "get_cwd_path r = (case snd r of None \<Rightarrow> Err (fst r) | Some buf \<Rightarrow> Ok (takeWhile (\<lambda>b. b \<noteq> 0) buf))"

definition get_current_cwd :: "io_error \<times> bytes option \<Rightarrow> (io_error, string) outcome" where
  "get_current_cwd r =
     (case get_cwd_path r of Ok cwd \<Rightarrow> Ok (from_utf8_lossy cwd) | Err e \<Rightarrow> Err e | Panic m \<Rightarrow> Panic m)"

record host =
  ho_getcwd :: "io_error \<times> bytes option" \<comment> \<open>errno, and the buffer unless it failed\<close>
  ho_uid :: nat
  ho_gid :: nat
  ho_getpwnam :: "string \<Rightarrow> nat option"
  ho_getgrnam :: "string \<Rightarrow> nat option"

text \<open>
  The body of the loop of \<open>main\<close> over the configured apps, up to \<open>App::create\<close>: \<open>Err\<close> is the
  exit with status 1.
\<close>

definition app_params_of :: "host \<Rightarrow> nat \<Rightarrow> nat \<Rightarrow> app_config \<Rightarrow> (config_error, app_params) outcome" where
  "app_params_of H page_size default_size cfg =
     (case (case cf_workdir cfg of Some d \<Rightarrow> Ok d | None \<Rightarrow> expect ''get current cwd'' (get_current_cwd (ho_getcwd H))) of
        Err e \<Rightarrow> Err e | Panic m \<Rightarrow> Panic m
      | Ok cwd \<Rightarrow>
          (let uid = unwrap_or (resolved_uid (ho_getpwnam H) cfg) (ho_uid H);
               gid = unwrap_or (resolved_gid (ho_getgrnam H) cfg) (ho_gid H);
               parts = str_split CHR '' '' (cf_command cfg);
               name = unwrap_or (cf_name cfg) (hd parts);
               env = (case cf_env cfg of Some m \<Rightarrow> map (\<lambda>(k, v). k @ ''='' @ v) m | None \<Rightarrow> []);
               log_buffer_size = unwrap_or (cf_log_buffer_size cfg) default_size
           in case validate_log_buffer_size page_size log_buffer_size of
                Err e \<Rightarrow> Err e | Panic m \<Rightarrow> Panic m
              | Ok _ \<Rightarrow>
                  Ok \<lparr>ap_cwd = cwd, ap_name = name, ap_prog = hd parts, ap_args = parts, ap_uid = uid, ap_gid = gid,
                      ap_env = env, ap_oneshot = cf_oneshot cfg, ap_cgroup = cf_cgroup cfg,
                      ap_autostart = cf_autostart cfg, ap_restart = cf_restart cfg,
                      ap_log_buffer_size = log_buffer_size\<rparr>))"

end
