(* ===== verification/Supervisor.thy ===== *)
theory Supervisor
  imports Ipc LogIpc Config
begin

text \<open>
  The supervisor, \<open>src/src/main.rs\<close>: start-up, the event loop that shares the apps between the
  kernel's events and the two sockets, and shutdown.

  The state of the daemon is the record \<open>daemon\<close>: the apps, the two servers, and the shutdown
  flags of \<open>Runtime\<close>; the token slab of \<open>Runtime\<close> is part of the context. What the kernel
  answers while an event is handled (the signal read from the \<open>signalfd\<close>, the connections
  pending on a listener) comes with the event.
\<close>

section \<open>Constants\<close>

definition SIGINT_THRESHOLD :: nat where
  "SIGINT_THRESHOLD = 2"

definition UNIX_LISTENER_TOKEN :: token where
  "UNIX_LISTENER_TOKEN = Token 0"

definition SIGNALFD_TOKEN :: token where
  "SIGNALFD_TOKEN = Token 1"

definition LOG_LISTENER_TOKEN :: token where
  "LOG_LISTENER_TOKEN = Token 2"

definition RESERVED_MIO_TOKENS :: nat where
  "RESERVED_MIO_TOKENS = 3"

definition MAX_MIO_TOKENS :: nat where
  "MAX_MIO_TOKENS = 128"

section \<open>State\<close>

record daemon =
  dm_apps :: "app list"
  dm_stopping :: bool
  dm_sigint_count :: nat
  dm_ipc :: server
  dm_log :: log_server

record poll_event =
  pe_token :: token
  pe_io :: io_event
  pe_signal :: "int \<times> u32" \<comment> \<open>result and contents of a read of the signal descriptor\<close>
  pe_control_pending :: "(io_error, sock \<times> (nat \<Rightarrow> nat)) outcome list"
  pe_log_pending :: "(io_error, sock) outcome list"

text \<open>\<open>Runtime::init\<close>: the context with an empty slab above the reserved tokens.\<close>

definition runtime_init :: "'s env \<Rightarrow> nat \<Rightarrow> 's ctx" where
  "runtime_init E max_mio_tokens =
     \<lparr>cx_slab = token_slab_new (env_slab E) max_mio_tokens RESERVED_MIO_TOKENS, cx_tick = 0, cx_trace = []\<rparr>"

section \<open>Start-up\<close>

text \<open>The loop over the configured apps: an invalid size exits (\<open>Err\<close>), a failed creation panics.\<close>

fun create_apps :: "'s env \<Rightarrow> host \<Rightarrow> nat \<Rightarrow> bool \<Rightarrow> app_config list \<Rightarrow> ('s ctx, config_error, app list) run" where
  "create_apps E H default_size echo [] = ret []"
| "create_apps E H default_size echo (cfg # cfgs) =
     bindM (lift_outcome (app_params_of H (env_page_size E) default_size cfg)) (\<lambda>params.
     bindM (\<lambda>c. case app_create E params echo c of (r, c') \<Rightarrow> (expect ''run_app'' r, c')) (\<lambda>a.
     bindM (create_apps E H default_size echo cfgs) (\<lambda>as. ret (a # as))))"

definition daemon_init :: "'s env \<Rightarrow> host \<Rightarrow> fs_api \<Rightarrow> global_config \<Rightarrow> string \<Rightarrow> bool \<Rightarrow>
    (config_error, daemon) outcome \<times> 's ctx" where
  "daemon_init E H F cfg config_path echo =
     bindM (create_apps E H (gc_log_buffer_size cfg) echo (all_apps F cfg config_path)) (\<lambda>apps.
       ret \<lparr>dm_apps = apps, dm_stopping = False, dm_sigint_count = 0,
            dm_ipc = server_new (gc_max_control_connections cfg), dm_log = log_server_new (gc_max_log_connections cfg)\<rparr>)
     (runtime_init E (gc_max_mio_tokens cfg))"

section \<open>The event loop\<close>

text \<open>How long \<open>poll\<close> may block: until the first pending restart; \<open>None\<close> is for ever.\<close>

fun min_deadline :: "app list \<Rightarrow> instant option" where
  "min_deadline [] = None"
| "min_deadline (a # apps) =
     (case pending_restart_deadline a of
        None \<Rightarrow> min_deadline apps
      | Some d \<Rightarrow> (case min_deadline apps of None \<Rightarrow> Some d | Some d' \<Rightarrow> Some (min d d')))"

definition poll_timeout :: "instant \<Rightarrow> daemon \<Rightarrow> duration option" where
  "poll_timeout now d = map_option (\<lambda>deadline. duration_since deadline now) (min_deadline (dm_apps d))"

text \<open>An operation on every app in turn; a panic ends it.\<close>

fun for_apps :: "(app \<Rightarrow> 's ctx \<Rightarrow> ('e, 'r) outcome \<times> app \<times> 's ctx) \<Rightarrow> app list \<Rightarrow> 's ctx \<Rightarrow>
    string option \<times> app list \<times> 's ctx" where
  "for_apps f [] c = (None, [], c)"
| "for_apps f (a # apps) c =
     (case f a c of
        (Panic m, a', c1) \<Rightarrow> (Some m, a' # apps, c1)
      | (_, a', c1) \<Rightarrow> (case for_apps f apps c1 of (p, apps', c2) \<Rightarrow> (p, a' # apps', c2)))"

definition on_apps :: "(app \<Rightarrow> 's ctx \<Rightarrow> ('e, 'r) outcome \<times> app \<times> 's ctx) \<Rightarrow> daemon \<Rightarrow> 's ctx \<Rightarrow>
    string option \<times> daemon \<times> 's ctx" where
  "on_apps f d c = (case for_apps f (dm_apps d) c of (p, apps, c') \<Rightarrow> (p, d\<lparr>dm_apps := apps\<rparr>, c'))"

text \<open>The panic of an outcome, if it is one; errors are logged.\<close>

fun panic_of :: "('e, 'a) outcome \<Rightarrow> string option" where
  "panic_of (Panic m) = Some m"
| "panic_of _ = None"

definition close_control :: "'s env \<Rightarrow> token \<Rightarrow> daemon \<Rightarrow> 's ctx \<Rightarrow> string option \<times> daemon \<times> 's ctx" where
  "close_control E tok d c = (case close_conn E tok (dm_ipc d) c of (r, sv, c') \<Rightarrow> (panic_of r, d\<lparr>dm_ipc := sv\<rparr>, c'))"

definition close_log :: "'s env \<Rightarrow> token \<Rightarrow> daemon \<Rightarrow> 's ctx \<Rightarrow> string option \<times> daemon \<times> 's ctx" where
  "close_log E tok d c = (case log_close E tok (dm_log d) c of (r, sv, c') \<Rightarrow> (panic_of r, d\<lparr>dm_log := sv\<rparr>, c'))"

definition reconcile_control :: "'s env \<Rightarrow> token \<Rightarrow> daemon \<Rightarrow> 's ctx \<Rightarrow> string option \<times> daemon \<times> 's ctx" where
  "reconcile_control E tok d c = (case reconcile E tok (dm_ipc d) c of (r, sv, c') \<Rightarrow> (panic_of r, d\<lparr>dm_ipc := sv\<rparr>, c'))"

definition reconcile_log :: "'s env \<Rightarrow> token \<Rightarrow> daemon \<Rightarrow> 's ctx \<Rightarrow> string option \<times> daemon \<times> 's ctx" where
  "reconcile_log E tok d c = (case log_reconcile E tok (dm_log d) c of (r, sv, c') \<Rightarrow> (panic_of r, d\<lparr>dm_log := sv\<rparr>, c'))"

text \<open>An event on a control connection: read, then write, then reconcile; an error closes.\<close>

definition control_read :: "'s env \<Rightarrow> codec \<Rightarrow> poll_event \<Rightarrow> daemon \<Rightarrow> 's ctx \<Rightarrow>
    (ipc_error, unit) outcome \<times> daemon \<times> 's ctx" where
  "control_read E J ev d c =
     (if ev_readable (pe_io ev)
      then (case handle_readable E J (pe_token ev) (dm_apps d) (dm_ipc d) c of
              (r, apps, sv, c') \<Rightarrow> (r, d\<lparr>dm_apps := apps, dm_ipc := sv\<rparr>, c'))
      else (Ok (), d, c))"

definition control_write :: "poll_event \<Rightarrow> daemon \<Rightarrow> (ipc_error, unit) outcome \<times> daemon" where
  "control_write ev d =
     (if ev_writable (pe_io ev)
      then (case handle_writable (pe_token ev) (dm_ipc d) of (r, sv) \<Rightarrow> (r, d\<lparr>dm_ipc := sv\<rparr>))
      else (Ok (), d))"

definition control_event :: "'s env \<Rightarrow> codec \<Rightarrow> poll_event \<Rightarrow> daemon \<Rightarrow> 's ctx \<Rightarrow> string option \<times> daemon \<times> 's ctx" where
  "control_event E J ev d c =
     (case control_read E J ev d c of
        (Panic m, d, c) \<Rightarrow> (Some m, d, c)
      | (Err e, d, c) \<Rightarrow> close_control E (pe_token ev) d c
      | (Ok _, d, c) \<Rightarrow>
          (case control_write ev d of
             (Panic m, d) \<Rightarrow> (Some m, d, c)
           | (Err e, d) \<Rightarrow> close_control E (pe_token ev) d c
           | (Ok _, d) \<Rightarrow> reconcile_control E (pe_token ev) d c))"

definition log_read :: "poll_event \<Rightarrow> daemon \<Rightarrow> (ipc_error, unit) outcome \<times> daemon" where
  "log_read ev d =
     (if ev_readable (pe_io ev)
      then (case log_handle_readable (dm_apps d) (pe_token ev) (dm_log d) of (r, sv) \<Rightarrow> (r, d\<lparr>dm_log := sv\<rparr>))
      else (Ok (), d))"

definition log_write :: "poll_event \<Rightarrow> daemon \<Rightarrow> (ipc_error, unit) outcome \<times> daemon" where
  "log_write ev d =
     (if ev_writable (pe_io ev)
      then (case log_handle_writable (dm_apps d) (pe_token ev) (dm_log d) of (r, sv) \<Rightarrow> (r, d\<lparr>dm_log := sv\<rparr>))
      else (Ok (), d))"

definition log_event :: "'s env \<Rightarrow> poll_event \<Rightarrow> daemon \<Rightarrow> 's ctx \<Rightarrow> string option \<times> daemon \<times> 's ctx" where
  "log_event E ev d c =
     (case log_read ev d of
        (Panic m, d) \<Rightarrow> (Some m, d, c)
      | (Err e, d) \<Rightarrow> close_log E (pe_token ev) d c
      | (Ok _, d) \<Rightarrow>
          (case log_write ev d of
             (Panic m, d) \<Rightarrow> (Some m, d, c)
           | (Err e, d) \<Rightarrow> close_log E (pe_token ev) d c
           | (Ok _, d) \<Rightarrow> reconcile_log E (pe_token ev) d c))"

text \<open>The body of \<open>for event in events.iter()\<close>.\<close>

definition dispatch_event :: "'s env \<Rightarrow> codec \<Rightarrow> poll_event \<Rightarrow> daemon \<Rightarrow> 's ctx \<Rightarrow> string option \<times> daemon \<times> 's ctx" where
  "dispatch_event E J ev d c =
     (if pe_token ev = SIGNALFD_TOKEN
      then (None,
            if handle_signal_fd (pe_signal ev) = SIGINT
            then d\<lparr>dm_sigint_count := usize_add (dm_sigint_count d) 1, dm_stopping := True\<rparr> else d, c)
      else if pe_token ev = UNIX_LISTENER_TOKEN
      then (case accept_all E J (pe_control_pending ev) (dm_ipc d) c of
              (r, sv, c') \<Rightarrow> (panic_of r, d\<lparr>dm_ipc := sv\<rparr>, c'))
      else if pe_token ev = LOG_LISTENER_TOKEN
      then (case log_accept_all E (pe_log_pending ev) (dm_log d) c of
              (r, sv, c') \<Rightarrow> (panic_of r, d\<lparr>dm_log := sv\<rparr>, c'))
      else if is_known (dm_ipc d) (pe_token ev) then control_event E J ev d c
      else if log_is_known (dm_log d) (pe_token ev) then log_event E ev d c
      else on_apps (app_poll E (pe_token ev) (pe_io ev) (\<not> dm_stopping d)) d c)"

fun dispatch_events :: "'s env \<Rightarrow> codec \<Rightarrow> poll_event list \<Rightarrow> daemon \<Rightarrow> 's ctx \<Rightarrow> string option \<times> daemon \<times> 's ctx" where
  "dispatch_events E J [] d c = (None, d, c)"
| "dispatch_events E J (ev # evs) d c =
     (case dispatch_event E J ev d c of
        (Some m, d', c') \<Rightarrow> (Some m, d', c')
      | (None, d', c') \<Rightarrow> dispatch_events E J evs d' c')"

definition push_logs :: "'s env \<Rightarrow> daemon \<Rightarrow> 's ctx \<Rightarrow> string option \<times> daemon \<times> 's ctx" where
  "push_logs E d c =
     (case push_updates E (dm_apps d) (dm_log d) c of (r, sv, c') \<Rightarrow> (panic_of r, d\<lparr>dm_log := sv\<rparr>, c'))"

text \<open>Restarts whose time has come; one reading of the clock serves all apps.\<close>

definition fire_restarts :: "'s env \<Rightarrow> daemon \<Rightarrow> 's ctx \<Rightarrow> string option \<times> daemon \<times> 's ctx" where
  "fire_restarts E d c =
     on_apps (maybe_restart E (env_now E (cx_tick c)) (\<not> dm_stopping d)) d (c\<lparr>cx_tick := Suc (cx_tick c)\<rparr>)"

definition forward_sigint :: "'s env \<Rightarrow> daemon \<Rightarrow> 's ctx \<Rightarrow> string option \<times> daemon \<times> 's ctx" where
  "forward_sigint E d c =
     (if SIGINT_THRESHOLD \<le> dm_sigint_count d then on_apps (app_stop E True) d c
      else if 0 < dm_sigint_count d then on_apps (app_stop E False) d c
      else (None, d, c))"

definition should_exit :: "bool \<Rightarrow> daemon \<Rightarrow> bool" where
  "should_exit keep_running d \<longleftrightarrow>
     (\<not> keep_running \<or> 0 < dm_sigint_count d)
   \<and> (\<forall>a \<in> set (dm_apps d). \<not> is_running a \<and> pending_restart_deadline a = None)"

text \<open>
  One iteration after \<open>poll\<close> returned \<open>events\<close>: \<open>Ok True\<close> leaves the loop. An error of \<open>poll\<close>
  itself is logged and leaves no events.
\<close>

definition loop_iteration :: "'s env \<Rightarrow> codec \<Rightarrow> bool \<Rightarrow> poll_event list \<Rightarrow> daemon \<Rightarrow> 's ctx \<Rightarrow>
    (unit, bool) outcome \<times> daemon \<times> 's ctx" where
  "loop_iteration E J keep_running events d c =
     (case dispatch_events E J events d c of
        (Some m, d, c) \<Rightarrow> (Panic m, d, c)
      | (None, d, c) \<Rightarrow>
     (case push_logs E d c of
        (Some m, d, c) \<Rightarrow> (Panic m, d, c)
      | (None, d, c) \<Rightarrow>
     (case fire_restarts E d c of
        (Some m, d, c) \<Rightarrow> (Panic m, d, c)
      | (None, d, c) \<Rightarrow>
     (case forward_sigint E d c of
        (Some m, d, c) \<Rightarrow> (Panic m, d, c)
      | (None, d, c) \<Rightarrow> (Ok (should_exit keep_running d), d, c)))))"

end
