(* ===== verification/App_Samples.thy ===== *)
theory App_Samples
  imports App
begin

text \<open>
  A concrete run of one app in the environment \<open>sample_env\<close> of theory AppRuntime: created
  running, its output read at exit, restarted when its delay has passed. The states are written
  out, and the lemmas check by evaluation that the operations of theory App go from one to the
  next; the witnesses of theory App_Correct start from them.
\<close>

definition sample_rt :: app_runtime where
  "sample_rt =
     \<lparr>rt_pid = 100, rt_cgroup = ''lway/web'',
      rt_stdout = \<lparr>pipe_data = [104, 105, 10], pipe_writers = False, pipe_resp = \<lambda>_. SpliceMoves 2\<rparr>,
      rt_stderr = \<lparr>pipe_data = [33], pipe_writers = False, pipe_resp = \<lambda>_. SpliceMoves 100\<rparr>,
      rt_pidfd = 10, rt_tokens = \<lparr>tk_pidfd = Token 3, tk_stdout = Token 4, tk_stderr = Token 5\<rparr>,
      rt_started_at = 5, rt_proper_cleanup = False\<rparr>"

definition sample_app :: app where
  "sample_app =
     \<lparr>a_name = ''web'', a_params = sample_params, a_state = Running sample_rt, a_stats = app_runtime_stats_default,
      a_stop_requested = False,
      a_log = \<lparr>cb_map = \<lparr>rm_size = 8, rm_file = [0, 0, 0, 0, 0, 0, 0, 0]\<rparr>, cb_capacity = 8, cb_write_pos = 0\<rparr>, a_echo = False\<rparr>"

definition sample_ctx1 :: "(nat \<times> token option list) ctx" where
  "sample_ctx1 =
     \<lparr>cx_slab = \<lparr>ts_slab = (8, [Some (Token 3), Some (Token 4), Some (Token 5)]), ts_offset = 3\<rparr>, cx_tick = 2,
      cx_trace = [Spawned ''lway/web'' 100, Registered (Token 3), Registered (Token 4), Registered (Token 5)]\<rparr>"

definition sample_event :: io_event where
  "sample_event = \<lparr>ev_readable = True, ev_read_closed = False, ev_writable = False\<rparr>"

definition sample_down :: app where
  "sample_down = sample_app
     \<lparr>a_state := Stopped (Some \<lparr>le_cause = Completed 1, le_restart_deadline = Some 1000004000\<rparr>),
      a_stats := \<lparr>st_restart_count = 0, st_consecutive_failures = 1, st_last_exit_code = Some 1,
        st_last_exit_reason = Some (exit_reason (Completed 1)), st_stdout_bytes = 3, st_stderr_bytes = 1,
        st_total_uptime = 1995, st_last_run_duration = Some 1995\<rparr>,
      a_log := \<lparr>cb_map = \<lparr>rm_size = 8, rm_file = [104, 105, 10, 33, 0, 0, 0, 0]\<rparr>, cb_capacity = 8, cb_write_pos = 4\<rparr>\<rparr>"

definition sample_ctx2 :: "(nat \<times> token option list) ctx" where
  "sample_ctx2 =
     \<lparr>cx_slab = \<lparr>ts_slab = (8, [None, None, None]), ts_offset = 3\<rparr>, cx_tick = 5,
      cx_trace = [Spawned ''lway/web'' 100, Registered (Token 3), Registered (Token 4), Registered (Token 5),
        Deregistered (Token 3), Deregistered (Token 4), Deregistered (Token 5), CgroupDeleted ''lway/web'']\<rparr>"

definition sample_ctx3 :: "(nat \<times> token option list) ctx" where
  "sample_ctx3 =
     \<lparr>cx_slab = \<lparr>ts_slab = (8, [Some (Token 3), Some (Token 4), Some (Token 5)]), ts_offset = 3\<rparr>, cx_tick = 6,
      cx_trace = cx_trace sample_ctx2
        @ [Spawned ''lway/web'' 100, Registered (Token 3), Registered (Token 4), Registered (Token 5)]\<rparr>"

definition sample_again :: app where
  "sample_again = sample_down
     \<lparr>a_state := Running sample_rt, a_stats := (a_stats sample_down)\<lparr>st_restart_count := 1\<rparr>\<rparr>"

lemmas start_evals =
  bindM_def map_run_err_def rt_start_def next_tick_def rt_spawn_def lift_outcome_def ret_def Let_def emit_def
  sample_params_def sample_spawn_def spawn_into_cgroup_def to_ioresult_def as_c_int_def
  into_nonblocking_read_fd_def into_read_fd_def register_source_def alloc_token_def allocate_def
  usize_add_def usize_bound_def vec_set_def

lemmas splice_evals =
  drain_pipe.simps splice_from_def splice_from_and_view_def splice_def transfer_def SPLICE_MAX_XFER_SIZE_def
  file_write_def usize_add_def usize_bound_def index_range_def get_at_def get_buffer_infos_at_def
  mapped_byte_def upt_rec

lemmas stop_evals =
  rt_stop_def bindM_def next_tick_def rt_stop_body_def deregister_free_def sample_stop_def free_token_def free_def
  usize_sub_def vec_get_def emit_def cgroup_cleanup_def rt_drop_def

lemmas sample_states =
  sample_app_def sample_rt_def sample_ctx1_def sample_event_def sample_down_def sample_ctx2_def

lemma replicate_8: "replicate 8 (x :: byte) = [x, x, x, x, x, x, x, x]"
  by (simp add: numeral_eq_Suc)

lemma sample_create: "app_create sample_env sample_params False sample_ctx = (Ok sample_app, sample_ctx1)"
  by (simp add: app_create_def start_evals sample_ctx_def token_slab_new_def new_sealed_def new_from_memfd_buffer_def
      mmap_ring_buffer_def sys_mmap_def sample_states replicate_8)

lemma sample_exit: "app_poll sample_env (Token 3) sample_event True sample_app sample_ctx1 = (Ok (), sample_down, sample_ctx2)"
  by (simp add: app_poll_def poll_stdio_def get_stdio_def poll_pid_def Let_def poll_exit_def splice_evals stop_evals
      duration_since_def schedule_restart_def sample_params_def restart_policy_default_def restart_delay_default_def
      default_constant_delay_ms_def app_runtime_stats_default_def from_millis_def stopped_with_cause_def exit_code_def
      sample_states)

lemma sample_start: "rt_start sample_env sample_params sample_ctx2 = (Ok sample_rt, sample_ctx3)"
  by (simp add: start_evals sample_ctx2_def sample_ctx3_def sample_rt_def)

lemma sample_restart: "maybe_restart sample_env 2000000000 True sample_down sample_ctx2 = (Ok (), sample_again, sample_ctx3)"
  by (simp add: maybe_restart_def sample_down_def sample_app_def sample_start sample_again_def)

end
