(* ===== verification/App_Correct.thy ===== *)
theory App_Correct
  imports App_Samples
begin

text \<open>
  Correctness of one app (\<open>runtime.rs\<close>): its loops over the pipes, what its operations and the
  exit of its process do, the invariant of every state it reaches, when it is restarted and when
  it is given up.
\<close>

section \<open>Correctness of the loops\<close>

text \<open>
  What a loop over splices leaves: some chunks \<open>bufs\<close> moved from the pipe to the history of the
  ring, in order and none lost, and a kernel that never fails a splice leaves the pipe empty.
\<close>

definition moved :: "circ_buffer \<Rightarrow> bytes \<Rightarrow> pipe \<Rightarrow> bytes list \<Rightarrow> circ_buffer \<Rightarrow> pipe \<Rightarrow> bool" where
  "moved cb hist p bufs cb' p' \<longleftrightarrow>
     pipe_data p = concat bufs @ pipe_data p' \<and> p' = p\<lparr>pipe_data := pipe_data p'\<rparr>
   \<and> ring_holds cb' (hist @ concat bufs) \<and> cb_capacity cb' = cb_capacity cb
   \<and> (\<forall>b \<in> set bufs. b \<noteq> [] \<and> length b \<le> SPLICE_MAX_XFER_SIZE)
   \<and> (pipe_sound p \<longrightarrow> pipe_data p' = [])"

lemma moved_stop:
  "ring_holds cb' hist \<Longrightarrow> cb_capacity cb' = cb_capacity cb \<Longrightarrow> (pipe_sound p \<Longrightarrow> pipe_data p = []) \<Longrightarrow> moved cb hist p [] cb' p"
  by (simp add: moved_def)

lemma moved_step:
  assumes "pipe_data p = bs @ pipe_data p1" and "p1 = p\<lparr>pipe_data := pipe_data p1\<rparr>"
    and "bs \<noteq> []" and "length bs \<le> SPLICE_MAX_XFER_SIZE" and "cb_capacity cb1 = cb_capacity cb"
    and "moved cb1 (hist @ bs) p1 bufs cb' p'"
  shows "moved cb hist p (bs # bufs) cb' p'"
proof -
  have "pipe_sound p1 = pipe_sound p"
    by (subst assms(2)) (simp add: pipe_sound_def)
  moreover have "p' = p\<lparr>pipe_data := pipe_data p'\<rparr>"
    using assms(2,6) unfolding moved_def by (metis pipe.update_convs(1) pipe.surjective pipe.select_convs)
  ultimately show ?thesis
    using assms unfolding moved_def by auto
qed

lemma splice_error_unsound:
  assumes "ring_holds cb hist" and "splice_from_and_view cb p SPLICE_MAX_XFER_SIZE = (Err e, p', cb')" and "pipe_sound p"
  shows "pipe_data p = []"
proof (rule ccontr)
  assume "pipe_data p \<noteq> []"
  have pos: "0 < min SPLICE_MAX_XFER_SIZE (cb_capacity cb - length hist mod cb_capacity cb)"
    by (rule chunk_pos [OF assms(1)]) (simp add: SPLICE_MAX_XFER_SIZE_def)
  from splice_sound [OF assms(3) \<open>pipe_data p \<noteq> []\<close> pos] obtain bs q where
    "splice p (min SPLICE_MAX_XFER_SIZE (cb_capacity cb - length hist mod cb_capacity cb)) = (Ok bs, q)" .
  with assms(2) ring_holdsD [OF assms(1)] show False
    by (auto simp: splice_from_and_view_def Let_def split: if_splits option.splits)
qed

lemma splice_loop_moved:
  assumes "ring_holds cb hist" and "length hist + length (pipe_data p) < usize_bound"
  shows "\<exists>bufs cb' p'. splice_loop echo cb p count out =
      (None, cb', p', count + of_nat (length (concat bufs)), out @ concat (map echo bufs)) \<and> moved cb hist p bufs cb' p'"
  using assms
proof (induction echo cb p count out arbitrary: hist rule: splice_loop.induct)
  case (1 echo cb p count out)
  have "0 < SPLICE_MAX_XFER_SIZE" by (simp add: SPLICE_MAX_XFER_SIZE_def)
  from "1.prems" this show ?case
  proof (cases rule: splice_from_and_view_cases)
    case (err e)
    with splice_error_unsound [OF "1.prems"(1)] "1.prems" show ?thesis
      by (intro exI [of _ "[]"]) (auto simp: splice_loop.simps moved_stop)
  next
    case (none cb' p')
    then show ?thesis
      by (intro exI [of _ "[]"]) (auto simp: splice_loop.simps moved_stop)
  next
    case (some bs p1 cb1)
    have room: "length (hist @ bs) + length (pipe_data p1) < usize_bound"
      using "1.prems"(2) some(3) by simp
    have loop: "splice_loop echo cb p count out = splice_loop echo cb1 p1 (count + of_nat (length bs)) (out @ echo bs)"
      using some(1) by (simp add: splice_loop.simps [of echo cb])
    from "1.IH" [OF some(1) [symmetric] refl refl refl some(6) room] obtain bufs cb' p' where
      "splice_loop echo cb1 p1 (count + of_nat (length bs)) (out @ echo bs) =
         (None, cb', p', count + of_nat (length bs) + of_nat (length (concat bufs)), (out @ echo bs) @ concat (map echo bufs))"
      and m: "moved cb1 (hist @ bs) p1 bufs cb' p'"
      by auto
    with loop moved_step [OF some(3,5,2,4,7) m] show ?thesis
      by (intro exI [of _ "bs # bufs"] exI [of _ cb'] exI [of _ p']) (simp add: add.assoc)
  qed
qed


lemma splice_from_eq:
  assumes "ring_holds cb hist" and "length hist + length (pipe_data p) < usize_bound"
  shows "drain_pipe cb p count =
    (case splice_loop (\<lambda>_. []) cb p count [] of (m, cb', p', count', _) \<Rightarrow> (m, cb', p', count'))"
  using assms
proof (induction "\<lambda>_ :: bytes. [] :: sys_event list" cb p count "[] :: sys_event list" arbitrary: hist rule: splice_loop.induct)
  case (1 cb p count)
  have "0 < SPLICE_MAX_XFER_SIZE" by (simp add: SPLICE_MAX_XFER_SIZE_def)
  from "1.prems" this show ?case
  proof (cases rule: splice_from_and_view_cases)
    case (some bs p1 cb1)
    have room: "length (hist @ bs) + length (pipe_data p1) < usize_bound"
      using "1.prems"(2) some(3) by simp
    have "splice_from cb p SPLICE_MAX_XFER_SIZE = (Ok (length bs), p1, cb1)"
      using some(1) by (simp add: splice_from_def)
    then have "drain_pipe cb p count = drain_pipe cb1 p1 (count + of_nat (length bs))"
      using some(2) by (simp add: drain_pipe.simps [of cb])
    moreover have "splice_loop (\<lambda>_. []) cb p count [] = splice_loop (\<lambda>_. []) cb1 p1 (count + of_nat (length bs)) []"
      using some(1) by (simp add: splice_loop.simps [of _ cb])
    ultimately show ?thesis
      using "1.hyps" [OF some(1) [symmetric] refl refl refl _ some(6) room] by simp
  qed (auto simp: splice_loop.simps drain_pipe.simps splice_from_def)
qed

lemma drain_pipe_moved:
  assumes "ring_holds cb hist" and "length hist + length (pipe_data p) < usize_bound"
  shows "\<exists>bufs cb' p'. drain_pipe cb p count = (None, cb', p', count + of_nat (length (concat bufs))) \<and> moved cb hist p bufs cb' p'"
  using splice_loop_moved [OF assms, of "\<lambda>_. []" count "[]"] splice_from_eq [OF assms]
  by auto


section \<open>Events on the output pipes\<close>

definition app_pending :: "app \<Rightarrow> nat" where
  "app_pending a =
     (case a_state a of Running rt \<Rightarrow> length (pipe_data (rt_stdout rt)) + length (pipe_data (rt_stderr rt)) | _ \<Rightarrow> 0)"

text \<open>
  The log of an app holds the history of its output, and its two byte counters add up to the
  length of that history. Fewer than \<open>2 ^ 64\<close> bytes are ever written.
\<close>

definition log_inv :: "app \<Rightarrow> bytes \<Rightarrow> bool" where
  "log_inv a hist \<longleftrightarrow>
     ring_holds (a_log a) hist \<and> length hist + app_pending a < usize_bound
   \<and> st_stdout_bytes (a_stats a) + st_stderr_bytes (a_stats a) = of_nat (length hist)"

definition echo_of :: "app \<Rightarrow> app_runtime \<Rightarrow> bool \<Rightarrow> bytes \<Rightarrow> sys_event list" where
  "echo_of a rt is_err buf =
     (if a_echo a then stdout_logger DEFAULT_GUTTER_WIDTH (a_name a) (rt_pid rt) buf is_err else [])"

lemma poll_stdio_cases:
  assumes inv: "log_inv a hist" and st: "a_state a = Running rt"
  obtains
    (idle) "poll_stdio token event rt a c = (Ok rt, a, c)"
      and "get_stdio token rt = None \<or> \<not> ev_readable event"
  | (out) bufs cb' p' where "token = tk_stdout (rt_tokens rt)" and "ev_readable event"
      and "moved (a_log a) hist (rt_stdout rt) bufs cb' p'"
      and "poll_stdio token event rt a c = (Ok (rt\<lparr>rt_stdout := p'\<rparr>),
            a\<lparr>a_log := cb', a_stats := (a_stats a)\<lparr>st_stdout_bytes := st_stdout_bytes (a_stats a) + of_nat (length (concat bufs))\<rparr>,
              a_state := Running (rt\<lparr>rt_stdout := p'\<rparr>)\<rparr>,
            c\<lparr>cx_trace := cx_trace c @ concat (map (echo_of a rt False) bufs)\<rparr>)"
  | (err) bufs cb' p' where "token = tk_stderr (rt_tokens rt)" and "ev_readable event"
      and "moved (a_log a) hist (rt_stderr rt) bufs cb' p'"
      and "poll_stdio token event rt a c = (Ok (rt\<lparr>rt_stderr := p'\<rparr>),
            a\<lparr>a_log := cb', a_stats := (a_stats a)\<lparr>st_stderr_bytes := st_stderr_bytes (a_stats a) + of_nat (length (concat bufs))\<rparr>,
              a_state := Running (rt\<lparr>rt_stderr := p'\<rparr>)\<rparr>,
            c\<lparr>cx_trace := cx_trace c @ concat (map (echo_of a rt True) bufs)\<rparr>)"
proof -
  have holds: "ring_holds (a_log a) hist"
    and room: "length hist + length (pipe_data (rt_stdout rt)) < usize_bound"
      "length hist + length (pipe_data (rt_stderr rt)) < usize_bound"
    using inv st by (auto simp: log_inv_def app_pending_def)
  show thesis
  proof (cases "get_stdio token rt = None \<or> \<not> ev_readable event")
    case True
    then show ?thesis
      by (intro idle) (auto simp: poll_stdio_def split: option.split)
  next
    case False
    then have ev: "ev_readable event" by simp
    show ?thesis
    proof (cases "token = tk_stdout (rt_tokens rt)")
      case True
      from splice_loop_moved [OF holds room(1), of "echo_of a rt False" "st_stdout_bytes (a_stats a)" "[]"]
      obtain bufs cb' p' where l: "splice_loop (echo_of a rt False) (a_log a) (rt_stdout rt) (st_stdout_bytes (a_stats a)) [] =
          (None, cb', p', st_stdout_bytes (a_stats a) + of_nat (length (concat bufs)), concat (map (echo_of a rt False) bufs))"
        and m: "moved (a_log a) hist (rt_stdout rt) bufs cb' p'" by auto
      have e: "(\<lambda>buf. if a_echo a then stdout_logger DEFAULT_GUTTER_WIDTH (a_name a) (rt_pid rt) buf (Stdout = Stderr) else [])
          = echo_of a rt False"
        by (simp add: echo_of_def fun_eq_iff)
      show ?thesis
        by (rule out [OF True ev m])
          (simp add: poll_stdio_def get_stdio_def True ev Let_def e l)
    next
      case neq: False
      with False have t: "token = tk_stderr (rt_tokens rt)"
        by (auto simp: get_stdio_def split: if_splits)
      from splice_loop_moved [OF holds room(2), of "echo_of a rt True" "st_stderr_bytes (a_stats a)" "[]"]
      obtain bufs cb' p' where l: "splice_loop (echo_of a rt True) (a_log a) (rt_stderr rt) (st_stderr_bytes (a_stats a)) [] =
          (None, cb', p', st_stderr_bytes (a_stats a) + of_nat (length (concat bufs)), concat (map (echo_of a rt True) bufs))"
        and m: "moved (a_log a) hist (rt_stderr rt) bufs cb' p'" by auto
      have e: "(\<lambda>buf. if a_echo a then stdout_logger DEFAULT_GUTTER_WIDTH (a_name a) (rt_pid rt) buf (Stderr = Stderr) else [])
          = echo_of a rt True"
        by (simp add: echo_of_def fun_eq_iff)
      show ?thesis
        by (rule err [OF t ev m])
          (use neq t in \<open>simp add: poll_stdio_def get_stdio_def ev Let_def e l\<close>)
    qed
  qed
qed


text \<open>Moving output from a pipe to the log keeps the accounting.\<close>

lemma moved_length: "moved cb hist p bufs cb' p' \<Longrightarrow>
    length (pipe_data p) = length (concat bufs) + length (pipe_data p')"
  by (simp add: moved_def)

lemma poll_stdio_inv:
  assumes inv: "log_inv a hist" and st: "a_state a = Running rt"
    and poll: "poll_stdio token event rt a c = (r, a', c')"
  shows "\<exists>rt' hist'. r = Ok rt' \<and> a_state a' = Running rt' \<and> log_inv a' hist'
    \<and> rt_tokens rt' = rt_tokens rt \<and> rt_pid rt' = rt_pid rt \<and> rt_proper_cleanup rt' = rt_proper_cleanup rt
    \<and> cx_slab c' = cx_slab c \<and> a_params a' = a_params a \<and> a_stop_requested a' = a_stop_requested a"
  using inv st
proof (cases rule: poll_stdio_cases [of a hist rt token event c])
  case idle
  with poll st inv show ?thesis by auto
next
  case (out bufs cb' p')
  have "log_inv a' (hist @ concat bufs)"
    using out(3,4) moved_length [OF out(3)] poll inv st
    by (auto simp: log_inv_def app_pending_def moved_def)
  with out poll show ?thesis by (auto simp del: length_concat)
next
  case (err bufs cb' p')
  have "log_inv a' (hist @ concat bufs)"
    using err(3,4) moved_length [OF err(3)] poll inv st
    by (auto simp: log_inv_def app_pending_def moved_def)
  with err poll show ?thesis by (auto simp del: length_concat)
qed


section \<open>The exit of the process\<close>

definition app_tokens :: "app \<Rightarrow> token list" where
  "app_tokens a = (case a_state a of Running rt \<Rightarrow> rt_token_list rt | _ \<Rightarrow> [])"

text \<open>What a running app holds of the shared context.\<close>

definition app_owns :: "'s env \<Rightarrow> app \<Rightarrow> 's ctx \<Rightarrow> bool" where
  "app_owns E a c \<longleftrightarrow>
     ctx_ok E c \<and> distinct (app_tokens a) \<and> set (app_tokens a) \<subseteq> ctx_live E c
   \<and> (\<forall>rt. a_state a = Running rt \<longrightarrow> rt_proper_cleanup rt = False \<and> rt_pid rt \<noteq> 0)"

text \<open>
  The app an exit leaves before the restart policy is consulted: \<open>out\<close> and \<open>err\<close> are the last
  bytes of its two streams.
\<close>

definition settle :: "return_state \<Rightarrow> duration \<Rightarrow> circ_buffer \<Rightarrow> nat \<Rightarrow> nat \<Rightarrow> app \<Rightarrow> app" where
  "settle rs uptime cb out err a =
     a\<lparr>a_state := stopped_with_cause rs, a_log := cb,
       a_stats := (a_stats a)\<lparr>st_last_exit_code := exit_code rs, st_last_exit_reason := Some (exit_reason rs),
         st_stdout_bytes := st_stdout_bytes (a_stats a) + of_nat out,
         st_stderr_bytes := st_stderr_bytes (a_stats a) + of_nat err,
         st_total_uptime := st_total_uptime (a_stats a) + uptime, st_last_run_duration := Some uptime\<rparr>\<rparr>"

lemma rt_stop_pipes: "rt_stop E (rt\<lparr>rt_stdout := p, rt_stderr := q\<rparr>) = rt_stop E rt"
  by (simp add: rt_stop_def rt_stop_body_def cong: outcome.case_cong prod.case_cong)

lemma poll_exit_cases:
  assumes inv: "log_inv a hist" and st: "a_state a = Running rt" and own: "app_owns E a c"
    and exit: "poll_exit E try_restart now rs rt a c = (r, a', c')"
  obtains
    (stuck) i where "r = Panic ''AppRuntime dropped without proper cleanup''" and "i < 3"
      and "st_deregister (env_stop E (cx_tick c)) i \<noteq> None"
  | (exited) outs errs cb1 cb2 p1 p2 n where
      "r = Ok ()" and "moved (a_log a) hist (rt_stdout rt) outs cb1 p1"
      and "moved cb1 (hist @ concat outs) (rt_stderr rt) errs cb2 p2"
      and "ctx_to E c (ctx_live E c - set (rt_token_list rt)) c'"
      and "cx_trace c' = cx_trace c @ map Deregistered (rt_token_list rt)
             @ cgroup_cleanup (env_stop E (cx_tick c)) (rt_cgroup rt)"
      and "a' = (let uptime = duration_since now (rt_started_at rt);
                     s = settle rs uptime cb2 (length (concat outs)) (length (concat errs)) a
                 in if try_restart \<and> \<not> ap_oneshot (a_params a) \<and> \<not> a_stop_requested a
                    then schedule_restart (env_powi E) (env_now E n) rs uptime s else s)"
proof -
  have holds: "ring_holds (a_log a) hist"
    and room: "length hist + length (pipe_data (rt_stdout rt)) + length (pipe_data (rt_stderr rt)) < usize_bound"
    using inv st by (auto simp: log_inv_def app_pending_def)
  from drain_pipe_moved [OF holds, of "rt_stdout rt" "st_stdout_bytes (a_stats a)"] room
  obtain outs cb1 p1 where d1: "drain_pipe (a_log a) (rt_stdout rt) (st_stdout_bytes (a_stats a)) =
      (None, cb1, p1, st_stdout_bytes (a_stats a) + of_nat (length (concat outs)))"
    and m1: "moved (a_log a) hist (rt_stdout rt) outs cb1 p1" by auto
  have "length (hist @ concat outs) + length (pipe_data (rt_stderr rt)) < usize_bound"
    using room moved_length [OF m1] by (simp del: length_concat)
  with m1 drain_pipe_moved [of cb1 "hist @ concat outs" "rt_stderr rt" "st_stderr_bytes (a_stats a)"]
  obtain errs cb2 p2 where d2: "drain_pipe cb1 (rt_stderr rt) (st_stderr_bytes (a_stats a)) =
      (None, cb2, p2, st_stderr_bytes (a_stats a) + of_nat (length (concat errs)))"
    and m2: "moved cb1 (hist @ concat outs) (rt_stderr rt) errs cb2 p2"
    by (auto simp: moved_def)
  let ?uptime = "duration_since now (rt_started_at rt)"
  let ?s = "settle rs ?uptime cb2 (length (concat outs)) (length (concat errs)) a"
  obtain x c1 where P: "rt_stop E rt c = (x, c1)" by force
  have res: "(r, a', c') = (case x of
        Panic m \<Rightarrow> (Panic m, ?s, c1)
      | Err e \<Rightarrow> (Panic ''Failed to stop app runtime'', ?s, c1)
      | Ok _ \<Rightarrow> if try_restart \<and> \<not> ap_oneshot (a_params a) \<and> \<not> a_stop_requested a
                then (Ok (), schedule_restart (env_powi E) (env_now E (cx_tick c1)) rs ?uptime ?s,
                      c1\<lparr>cx_tick := Suc (cx_tick c1)\<rparr>)
                else (Ok (), ?s, c1))"
    using exit
    by (cases x) (auto simp: poll_exit_def Let_def d1 d2 rt_stop_pipes P settle_def)
  have pre: "ctx_ok E c" "set (rt_token_list rt) \<subseteq> ctx_live E c" "distinct (rt_token_list rt)" "rt_proper_cleanup rt = False"
    using own st by (auto simp: app_owns_def app_tokens_def)
  from pre P show thesis
  proof (cases rule: rt_stop_cases)
    case (panicked i)
    with res show ?thesis by (intro stuck [of i]) simp_all
  next
    case stopped
    with res m1 m2 show ?thesis
      by (intro exited [of outs cb1 p1 errs cb2 p2 "cx_tick c1"]) (auto simp: Let_def ctx_to_def split: if_splits)
  qed
qed


section \<open>The restart policy\<close>

definition failures_after :: "restart_policy \<Rightarrow> bool \<Rightarrow> duration \<Rightarrow> u32 \<Rightarrow> u32" where
  "failures_after policy success uptime old =
     (let kept = (if success \<or> from_millis (reset_after_ms policy) \<le> uptime then 0 else old)
      in if success then kept else kept + 1)"

definition gives_up :: "restart_policy \<Rightarrow> bool \<Rightarrow> u32 \<Rightarrow> bool" where
  "gives_up policy success failures \<longleftrightarrow>
     (\<exists>m. max_restart_attempts policy = Some m \<and> m < failures)
   \<or> is_never (if success then on_success policy else on_error policy)"

lemma schedule_restart_eq:
  "schedule_restart pw now rs uptime a =
     (let policy = ap_restart (a_params a);
          n = failures_after policy (rs = Completed 0) uptime (st_consecutive_failures (a_stats a));
          a1 = a\<lparr>a_stats := (a_stats a)\<lparr>st_consecutive_failures := n\<rparr>\<rparr>
      in if gives_up policy (rs = Completed 0) n then a1
         else a1\<lparr>a_state := Stopped (Some \<lparr>le_cause = rs,
                le_restart_deadline = Some (now + delay_for pw (if rs = Completed 0 then on_success policy else on_error policy) (max n 1))\<rparr>)\<rparr>)"
  by (auto simp: schedule_restart_def failures_after_def gives_up_def Let_def split: option.split)

lemma schedule_restart_fields [simp]:
  "a_params (schedule_restart pw now rs uptime a) = a_params a"
  "a_log (schedule_restart pw now rs uptime a) = a_log a"
  "a_stop_requested (schedule_restart pw now rs uptime a) = a_stop_requested a"
  "a_name (schedule_restart pw now rs uptime a) = a_name a"
  "a_echo (schedule_restart pw now rs uptime a) = a_echo a"
  "st_stdout_bytes (a_stats (schedule_restart pw now rs uptime a)) = st_stdout_bytes (a_stats a)"
  "st_stderr_bytes (a_stats (schedule_restart pw now rs uptime a)) = st_stderr_bytes (a_stats a)"
  by (simp_all add: schedule_restart_eq Let_def)

text \<open>
  When a restart may be pending: never after an explicit stop, never for a oneshot app, and
  never beyond the maximal number of attempts.
\<close>

definition restart_sound :: "app \<Rightarrow> bool" where
  "restart_sound a \<longleftrightarrow>
     (pending_restart_deadline a \<noteq> None \<longrightarrow>
        \<not> a_stop_requested a \<and> \<not> ap_oneshot (a_params a)
      \<and> (\<forall>m. max_restart_attempts (ap_restart (a_params a)) = Some m \<longrightarrow> st_consecutive_failures (a_stats a) \<le> m))"

lemma pending_simps [simp]:
  "a_state a = Running rt \<Longrightarrow> pending_restart_deadline a = None"
  "a_state a = Stopped None \<Longrightarrow> pending_restart_deadline a = None"
  "a_state a = stopped_with_cause rs \<Longrightarrow> pending_restart_deadline a = None"
  "a_state a = Stopped (Some le) \<Longrightarrow> pending_restart_deadline a = le_restart_deadline le"
  by (simp_all add: pending_restart_deadline_def stopped_with_cause_def)

lemma settle_fields [simp]:
  "a_state (settle rs u cb n m a) = stopped_with_cause rs" "a_log (settle rs u cb n m a) = cb"
  "a_params (settle rs u cb n m a) = a_params a" "a_stop_requested (settle rs u cb n m a) = a_stop_requested a"
  "a_name (settle rs u cb n m a) = a_name a" "a_echo (settle rs u cb n m a) = a_echo a"
  "st_consecutive_failures (a_stats (settle rs u cb n m a)) = st_consecutive_failures (a_stats a)"
  "st_stdout_bytes (a_stats (settle rs u cb n m a)) = st_stdout_bytes (a_stats a) + of_nat n"
  "st_stderr_bytes (a_stats (settle rs u cb n m a)) = st_stderr_bytes (a_stats a) + of_nat m"
  by (simp_all add: settle_def)

lemma schedule_restart_sound:
  assumes "a_state a = stopped_with_cause rs" and "\<not> ap_oneshot (a_params a)" and "\<not> a_stop_requested a"
  shows "restart_sound (schedule_restart pw now rs uptime a)"
  using assms
  by (auto simp: restart_sound_def schedule_restart_eq gives_up_def Let_def not_less)

lemma schedule_restart_stopped:
  "a_state a = stopped_with_cause rs \<Longrightarrow> \<not> is_running (schedule_restart pw now rs uptime a)"
  by (simp add: is_running_def schedule_restart_eq Let_def stopped_with_cause_def)

section \<open>The invariant of an app\<close>

definition app_inv :: "'s env \<Rightarrow> app \<Rightarrow> 's ctx \<Rightarrow> bool" where
  "app_inv E a c \<longleftrightarrow> app_owns E a c \<and> (\<exists>hist. log_inv a hist) \<and> restart_sound a"

text \<open>Fewer than \<open>2 ^ 64\<close> bytes have been and are about to be written.\<close>

definition log_room :: "app \<Rightarrow> bool" where
  "log_room a \<longleftrightarrow> cb_write_pos (a_log a) + app_pending a < usize_bound"

lemma app_invI: "app_owns E a c \<Longrightarrow> log_inv a hist \<Longrightarrow> restart_sound a \<Longrightarrow> app_inv E a c"
  unfolding app_inv_def by blast

lemma log_inv_cong:
  assumes "log_inv a hist" and "a_log a' = a_log a" and "log_room a'"
    and "st_stdout_bytes (a_stats a') = st_stdout_bytes (a_stats a)"
    and "st_stderr_bytes (a_stats a') = st_stderr_bytes (a_stats a)"
  shows "log_inv a' hist"
  using assms by (auto simp: log_inv_def log_room_def dest: ring_holdsD(5))

lemma not_running_tokens: "\<not> is_running a \<Longrightarrow> app_tokens a = []" "\<not> is_running a \<Longrightarrow> app_pending a = 0"
  by (auto simp: is_running_def app_tokens_def app_pending_def split: app_state.splits)

lemma app_owns_stopped: "\<not> is_running a \<Longrightarrow> app_owns E a c = ctx_ok E c"
  by (auto simp: app_owns_def not_running_tokens is_running_def)


lemma rt_start_ctx:
  assumes "ctx_ok E c" and "rt_start E params c = (r, c')"
  shows "ctx_ok E c' \<and> ctx_live E c \<subseteq> ctx_live E c' \<and> ctx_cap E c' = ctx_cap E c"
  using assms(1) by (cases rule: rt_start_cases [OF assms]) (auto dest: ctx_toD)

lemma rt_start_owns:
  assumes ok: "ctx_ok E c" and run: "rt_start E params c = (Ok rt, c')" and st: "a_state a = Running rt"
  shows "app_owns E a c'" and "restart_sound a"
    and "set (app_tokens a) \<inter> ctx_live E c = {}" and "ctx_live E c' = ctx_live E c \<union> set (app_tokens a)"
  using ok run
  by (cases rule: rt_start_cases;
      use st in \<open>auto simp: app_owns_def app_tokens_def restart_sound_def dest: ctx_toD\<close>)+

lemma app_start_inv:
  assumes inv: "app_inv E a c" and run: "app_start E a c = (r, a', c')" and room: "log_room a'"
  shows "app_inv E a' c' \<or> (\<exists>m. r = Panic m)"
proof -
  from inv obtain hist where h: "log_inv a hist" and own: "app_owns E a c" and rs: "restart_sound a"
    by (auto simp: app_inv_def)
  have ok: "ctx_ok E c" using own by (simp add: app_owns_def)
  show ?thesis
  proof (cases "a_state a")
    case (Running rt)
    with run inv show ?thesis by (simp add: app_start_def)
  next
    case (Stopped le)
    obtain x c1 where P: "rt_start E (a_params a) c = (x, c1)" by force
    show ?thesis
    proof (cases x)
      case (Ok rt)
      with run Stopped P have a': "a' = a\<lparr>a_state := Running rt, a_stats := (a_stats a)\<lparr>st_consecutive_failures := 0\<rparr>,
          a_stop_requested := False\<rparr>" and c': "c' = c1"
        by (simp_all add: app_start_def)
      with rt_start_owns [OF ok, of "a_params a" rt c1 a'] P Ok log_inv_cong [OF h _ room]
      show ?thesis by (auto intro: app_invI)
    next
      case (Err e)
      with run Stopped P have "a' = a" and "c' = c1" by (simp_all add: app_start_def)
      with rt_start_ctx [OF ok P] h rs Stopped show ?thesis
        by (auto intro!: app_invI simp: app_owns_stopped is_running_def)
    next
      case (Panic m)
      with run Stopped P show ?thesis by (auto simp: app_start_def)
    qed
  qed
qed

lemma send_signal_keeps: "keeps_slab (send_signal E rt s)"
  unfolding send_signal_def by (intro keeps_slabs)

lemma app_stop_cases:
  assumes "app_stop E force a c = (r, a', c')"
  obtains
    (signalled) rt where "a_state a = Running rt" and "a' = a\<lparr>a_stop_requested := True\<rparr>"
      and "cx_slab c' = cx_slab c" and "r \<noteq> Ok False"
  | (cancelled) le where "a_state a = Stopped (Some le)" and "le_restart_deadline le \<noteq> None" and "r = Ok True" and "c' = c"
      and "a' = a\<lparr>a_state := stopped_with_cause (le_cause le), a_stop_requested := True\<rparr>"
  | (idle) "\<not> is_running a" and "pending_restart_deadline a = None" and "r = Ok False" and "a' = a" and "c' = c"
proof (cases "a_state a")
  case (Running rt)
  obtain x c1 where P: "(if force then send_sigkill E rt c else send_sigterm E rt c) = (x, c1)" by force
  then have "cx_slab c1 = cx_slab c"
    by (auto simp: send_sigkill_def send_sigterm_def split: if_splits dest: keeps_slabD [OF send_signal_keeps])
  with P assms Running show thesis
    by (intro signalled) (auto simp: app_stop_def split: outcome.splits)
next
  case (Stopped le)
  show thesis
  proof (cases "pending_restart_deadline a")
    case None
    with assms Stopped show ?thesis
      by (intro idle) (auto simp: app_stop_def is_running_def pending_restart_deadline_def split: option.splits)
  next
    case (Some d)
    with assms Stopped obtain l where "le = Some l" and "le_restart_deadline l = Some d"
      by (auto simp: pending_restart_deadline_def split: option.splits)
    with assms Stopped show ?thesis
      by (intro cancelled [of l]) (auto simp: app_stop_def stopped_with_cause_def)
  qed
qed

lemma app_stop_inv:
  assumes inv: "app_inv E a c" and run: "app_stop E force a c = (r, a', c')"
  shows "app_inv E a' c'"
proof -
  from inv obtain hist where h: "log_inv a hist" and own: "app_owns E a c" and rs: "restart_sound a"
    by (auto simp: app_inv_def)
  from run show ?thesis
  proof (cases rule: app_stop_cases)
    case (signalled rt)
    with h own show ?thesis
      by (intro app_invI [of E a' c' hist])
        (auto simp: app_owns_def app_tokens_def log_inv_def app_pending_def restart_sound_def)
  next
    case (cancelled le)
    with h own show ?thesis
      by (intro app_invI [of E a' c' hist])
        (auto simp: app_owns_def app_tokens_def log_inv_def app_pending_def restart_sound_def stopped_with_cause_def)
  qed (use inv in simp)
qed


lemma maybe_restart_cases:
  assumes run: "maybe_restart E now allow a c = (r, a', c')"
  obtains
    (untouched) "r = Ok ()" and "a' = a" and "c' = c"
      and "\<And>d. pending_restart_deadline a = Some d \<Longrightarrow> allow \<and> now < d"
  | (denied) le d where "r = Ok ()" and "a_state a = Stopped (Some le)" and "le_restart_deadline le = Some d"
      and "\<not> allow" and "a' = a\<lparr>a_state := stopped_with_cause (le_cause le)\<rparr>" and "c' = c"
  | (failed) le d e where "r = Ok ()" and "a_state a = Stopped (Some le)" and "le_restart_deadline le = Some d"
      and "allow" and "d \<le> now" and "rt_start E (a_params a) c = (Err e, c')"
      and "a' = a\<lparr>a_state := stopped_with_cause (le_cause le)\<rparr>"
  | (restarted) le d rt where "r = Ok ()" and "a_state a = Stopped (Some le)" and "le_restart_deadline le = Some d"
      and "allow" and "d \<le> now" and "rt_start E (a_params a) c = (Ok rt, c')"
      and "a' = a\<lparr>a_stats := (a_stats a)\<lparr>st_restart_count := st_restart_count (a_stats a) + 1\<rparr>, a_state := Running rt\<rparr>"
  | (panicked) m where "r = Panic m" and "rt_start E (a_params a) c = (Panic m, c')"
proof (cases "\<exists>le d. a_state a = Stopped (Some le) \<and> le_restart_deadline le = Some d")
  case False
  with run show thesis
    by (intro untouched)
      (auto simp: maybe_restart_def pending_restart_deadline_def split: app_state.splits option.splits)
next
  case True
  then obtain le d where st: "a_state a = Stopped (Some le)" and d: "le_restart_deadline le = Some d" by blast
  show thesis
  proof (cases "allow \<and> d \<le> now")
    case False
    with st d run show ?thesis
      by (cases allow) (auto simp: maybe_restart_def intro: untouched denied [OF _ st d])
  next
    case True
    then have "\<not> now < d" and allow by simp_all
    note eq = run [unfolded maybe_restart_def st app_state.case option.case d, simplified \<open>\<not> now < d\<close> \<open>allow\<close> if_False if_True simp_thms]
    obtain x c1 where P: "rt_start E (a_params a) c = (x, c1)" by force
    show ?thesis
    proof (cases x)
      case (Ok rt)
      with eq P True show ?thesis by (intro restarted [OF _ st d]) auto
    next
      case (Err e)
      with eq P True show ?thesis by (intro failed [OF _ st d]) auto
    next
      case (Panic m)
      with eq P show ?thesis by (auto intro: panicked)
    qed
  qed
qed

lemma maybe_restart_inv:
  assumes inv: "app_inv E a c" and run: "maybe_restart E now allow a c = (r, a', c')" and room: "log_room a'"
  shows "app_inv E a' c' \<or> (\<exists>m. r = Panic m)"
proof -
  from inv obtain hist where h: "log_inv a hist" and own: "app_owns E a c" and rs: "restart_sound a"
    by (auto simp: app_inv_def)
  have ok: "ctx_ok E c" using own by (simp add: app_owns_def)
  from run show ?thesis
  proof (cases rule: maybe_restart_cases)
    case (denied le d)
    with h room ok log_inv_cong [OF h _ room] show ?thesis
      by (intro disjI1 app_invI [of E a' c' hist])
        (simp_all add: app_owns_stopped is_running_def restart_sound_def stopped_with_cause_def)
  next
    case (failed le d e)
    with rt_start_ctx [OF ok failed(6)] log_inv_cong [OF h _ room] show ?thesis
      by (intro disjI1 app_invI [of E a' c' hist])
        (simp_all add: app_owns_stopped is_running_def restart_sound_def stopped_with_cause_def)
  next
    case (restarted le d rt)
    with rt_start_owns [OF ok restarted(6), of a'] log_inv_cong [OF h _ room] show ?thesis
      by (intro disjI1 app_invI [of E a' c' hist]) simp_all
  qed (use inv in simp_all)
qed


lemma app_poll_cases:
  assumes inv: "log_inv a hist" and own: "app_owns E a c" and run: "app_poll E token event tr a c = (r, a', c')"
  obtains
    (ignored) "\<not> is_running a" and "r = Ok ()" and "a' = a" and "c' = c"
  | (stdio) rt rt' where "a_state a = Running rt" and "r = Ok ()"
      and "token \<noteq> tk_pidfd (rt_tokens rt) \<or> \<not> ev_readable event"
      and "poll_stdio token event rt a c = (Ok rt', a', c')"
  | (alive) rt where "a_state a = Running rt" and "token = tk_pidfd (rt_tokens rt)" and "ev_readable event"
      and "fst (env_waitpid E (cx_tick c) (rt_pid rt)) = 0" and "r = Ok ()" and "a' = a" and "c' = c\<lparr>cx_tick := Suc (cx_tick c)\<rparr>"
  | (exited) rt rs where "a_state a = Running rt" and "token = tk_pidfd (rt_tokens rt)" and "ev_readable event"
      and "fst (env_waitpid E (cx_tick c) (rt_pid rt)) = rt_pid rt"
      and "poll_pid (env_macros E) (env_waitpid E (cx_tick c) (rt_pid rt)) (rt_pid rt) = (Ok (Some rs) :: (app_err, _) outcome)"
      and "poll_exit E tr (env_now E (cx_tick c)) rs rt a (c\<lparr>cx_tick := Suc (cx_tick c)\<rparr>) = (r, a', c')"
  | (panicked) m rt where "r = Panic m" and "a_state a = Running rt"
      and "fst (env_waitpid E (cx_tick c) (rt_pid rt)) \<notin> {0, rt_pid rt}"
proof (cases "a_state a")
  case (Stopped le)
  with run show thesis
    by (intro ignored) (auto simp: app_poll_def is_running_def)
next
  case (Running rt)
  have d: "distinct (rt_token_list rt)" and pid: "rt_pid rt \<noteq> 0"
    using own Running by (auto simp: app_owns_def app_tokens_def)
  show thesis
  proof (cases "token = tk_pidfd (rt_tokens rt) \<and> ev_readable event")
    case True
    with d have "get_stdio token rt = None"
      by (auto simp: get_stdio_def rt_token_list_def)
    then have "poll_stdio token event rt a c = (Ok rt, a, c)"
      by (simp add: poll_stdio_def)
    with run Running True show ?thesis
      by (cases "poll_pid (env_macros E) (env_waitpid E (cx_tick c) (rt_pid rt)) (rt_pid rt) :: (app_err, _) outcome")
        (auto simp: app_poll_def Let_def poll_pid_def pid split: if_splits option.splits
          intro: alive exited panicked)
  next
    case False
    obtain x a1 c1 where P: "poll_stdio token event rt a c = (x, a1, c1)" by (metis prod_cases3)
    from poll_stdio_inv [OF inv Running P] obtain rt' where
      rt': "x = Ok rt'" "rt_tokens rt' = rt_tokens rt" by blast
    with run Running False P show ?thesis
      by (intro stdio [of rt rt']) (auto simp: app_poll_def)
  qed
qed

lemma poll_exit_inv:
  assumes inv: "log_inv a hist" and st: "a_state a = Running rt" and own: "app_owns E a c"
    and exit: "poll_exit E tr now rs rt a c = (r, a', c')"
  shows "app_inv E a' c' \<and> \<not> is_running a' \<or> (\<exists>m. r = Panic m)"
  using inv st own exit
proof (cases rule: poll_exit_cases)
  case (exited outs errs cb1 cb2 p1 p2 n)
  let ?h = "(hist @ concat outs) @ concat errs"
  let ?u = "duration_since now (rt_started_at rt)"
  define s where "s = settle rs ?u cb2 (length (concat outs)) (length (concat errs)) a"
  have s: "a_state s = stopped_with_cause rs" by (simp add: s_def)
  then have sr: "\<not> is_running s" by (simp add: is_running_def stopped_with_cause_def)
  have len: "length ?h \<le> length hist + app_pending a"
    using st moved_length [OF exited(2)] moved_length [OF exited(3)] by (simp add: app_pending_def)
  have "log_inv s ?h"
    using inv exited(2,3) len not_running_tokens [OF sr]
    by (simp add: log_inv_def moved_def s_def del: length_concat)
  moreover have "\<not> is_running a' \<and> restart_sound a' \<and> a_log a' = a_log s
      \<and> st_stdout_bytes (a_stats a') = st_stdout_bytes (a_stats s)
      \<and> st_stderr_bytes (a_stats a') = st_stderr_bytes (a_stats s)"
    using exited(6) schedule_restart_stopped [OF s] schedule_restart_sound [OF s] s sr
    by (auto simp: Let_def s_def [symmetric] restart_sound_def) (simp_all add: s_def)
  ultimately have "log_inv a' ?h" "\<not> is_running a'" "restart_sound a'"
    using not_running_tokens(2) [of a'] not_running_tokens(2) [OF sr] by (auto simp: log_inv_def)
  with exited(4) show ?thesis
    by (auto intro!: app_invI simp: app_owns_stopped dest: ctx_toD)
qed auto

lemma app_poll_inv:
  assumes inv: "app_inv E a c" and run: "app_poll E token event tr a c = (r, a', c')"
  shows "app_inv E a' c' \<or> (\<exists>m. r = Panic m)"
proof -
  from inv obtain hist where h: "log_inv a hist" and own: "app_owns E a c" and rs: "restart_sound a"
    by (auto simp: app_inv_def)
  have own': "app_owns E a (c\<lparr>cx_tick := Suc (cx_tick c)\<rparr>)"
    using own by (simp add: app_owns_def)
  from h own run show ?thesis
  proof (cases rule: app_poll_cases)
    case (stdio rt rt')
    from poll_stdio_inv [OF h stdio(1,4)] own rs stdio(1) show ?thesis
      by (auto intro!: app_invI simp: app_owns_def app_tokens_def restart_sound_def rt_token_list_def)
  next
    case (alive rt)
    with h own' rs show ?thesis by (auto intro: app_invI)
  next
    case (exited rt rs)
    from poll_exit_inv [OF h exited(1) own' exited(6)] show ?thesis by auto
  qed (use inv in auto)
qed


section \<open>The app under the event loop\<close>

text \<open>
  What can happen to an app: the four operations of the daemon, the process writing into its
  pipes, and the rest of the daemon using the shared context without touching what the app owns.
  A panic ends the daemon, so it is no step.
\<close>

datatype app_action =
    ActStart
  | ActStop bool
  | ActRestart instant bool
  | ActPoll token io_event bool
  | ActOutput
  | ActOther

fun is_panic :: "('e, 'a) outcome \<Rightarrow> bool" where
  "is_panic (Panic m) = True"
| "is_panic _ = False"

inductive app_step :: "'s env \<Rightarrow> app \<times> 's ctx \<Rightarrow> app_action \<Rightarrow> app \<times> 's ctx \<Rightarrow> bool" for E where
  step_start: "app_start E a c = (r, a', c') \<Longrightarrow> \<not> is_panic r \<Longrightarrow> log_room a' \<Longrightarrow> app_step E (a, c) ActStart (a', c')"
| step_stop: "app_stop E force a c = (r, a', c') \<Longrightarrow> app_step E (a, c) (ActStop force) (a', c')"
| step_restart: "maybe_restart E now allow a c = (r, a', c') \<Longrightarrow> \<not> is_panic r \<Longrightarrow> log_room a' \<Longrightarrow>
    app_step E (a, c) (ActRestart now allow) (a', c')"
| step_poll: "app_poll E token event tr a c = (r, a', c') \<Longrightarrow> \<not> is_panic r \<Longrightarrow>
    app_step E (a, c) (ActPoll token event tr) (a', c')"
| step_output: "a_state a = Running rt \<Longrightarrow> a' = a\<lparr>a_state := Running (rt\<lparr>rt_stdout := p, rt_stderr := q\<rparr>)\<rparr> \<Longrightarrow>
    log_room a' \<Longrightarrow> app_step E (a, c) ActOutput (a', c)"
| step_other: "app_owns E a c' \<Longrightarrow> app_step E (a, c) ActOther (a, c')"

inductive app_steps :: "'s env \<Rightarrow> app \<times> 's ctx \<Rightarrow> app_action list \<Rightarrow> app \<times> 's ctx \<Rightarrow> bool" for E where
  steps_nil: "app_steps E s [] s"
| steps_cons: "app_step E s act s' \<Longrightarrow> app_steps E s' acts s'' \<Longrightarrow> app_steps E s (act # acts) s''"

inductive_cases app_stepE: "app_step E (a, c) act (a', c')"

text \<open>The states an app gets into, from its creation on.\<close>

inductive app_reach :: "'s env \<Rightarrow> app \<times> 's ctx \<Rightarrow> bool" for E where
  reach_create: "ctx_ok E c \<Longrightarrow> 0 < ap_log_buffer_size params \<Longrightarrow> ap_log_buffer_size params < usize_bound \<Longrightarrow>
    app_create E params echo c = (Ok a, c') \<Longrightarrow> log_room a \<Longrightarrow> app_reach E (a, c')"
| reach_step: "app_reach E s \<Longrightarrow> app_step E s act s' \<Longrightarrow> app_reach E s'"

lemma app_create_cases:
  assumes "app_create E params echo c = (Ok a, c')"
  obtains (autostarted) rt c1 where "ap_autostart params" and "rt_start E params c = (Ok rt, c1)"
      and "a_state a = Running rt" and "cx_slab c' = cx_slab c1"
  | (dormant) "\<not> ap_autostart params" and "a_state a = Stopped None" and "cx_slab c' = cx_slab c"
  using assms
  by (auto simp: app_create_def bindM_Ok run_simps map_run_err_def split: if_splits prod.splits)

lemma app_create_log:
  assumes "app_create E params echo c = (Ok a, c')" and "0 < ap_log_buffer_size params"
    and "ap_log_buffer_size params < usize_bound"
  shows "ring_holds (a_log a) []" and "cb_capacity (a_log a) = ap_log_buffer_size params"
    and "a_stats a = app_runtime_stats_default" and "a_params a = params" and "a_stop_requested a = False"
proof -
  from assms(1) obtain n m where "new_sealed (env_memfd E n) (''logbuf-'' @ ap_name params) (ap_log_buffer_size params) = Ok m"
    and "new_from_memfd_buffer (env_page_size E) (env_mmap E n) m = Ok (a_log a)"
    by (auto simp: app_create_def bindM_Ok run_simps)
  from new_buffer_holds [OF assms(2,3) this]
  show "ring_holds (a_log a) []" and "cb_capacity (a_log a) = ap_log_buffer_size params" .
  from assms(1) show "a_stats a = app_runtime_stats_default" "a_params a = params" "a_stop_requested a = False"
    by (auto simp: app_create_def bindM_Ok)
qed


lemma app_create_inv:
  assumes ok: "ctx_ok E c" and size: "0 < ap_log_buffer_size params" "ap_log_buffer_size params < usize_bound"
    and create: "app_create E params echo c = (Ok a, c')" and room: "log_room a"
  shows "app_inv E a c'"
proof -
  note L = app_create_log [OF create size]
  have "log_inv a []"
    using L room by (simp add: log_inv_def log_room_def ring_holdsD app_runtime_stats_default_def)
  with create show ?thesis
  proof (cases rule: app_create_cases)
    case (autostarted rt c1)
    from rt_start_owns [OF ok autostarted(2,3)] autostarted(4) \<open>log_inv a []\<close> show ?thesis
      by (auto intro!: app_invI simp: app_owns_def)
  next
    case dormant
    with ok \<open>log_inv a []\<close> show ?thesis
      by (auto intro!: app_invI simp: app_owns_stopped is_running_def restart_sound_def)
  qed
qed

lemma app_step_inv:
  assumes "app_inv E a c" and "app_step E (a, c) act (a', c')"
  shows "app_inv E a' c'"
  using assms(2)
proof (rule app_stepE)
  fix r
  assume "\<not> is_panic r" and "log_room a'" and "app_start E a c = (r, a', c')"
  with app_start_inv [OF assms(1)] show ?thesis by fastforce
next
  fix force r
  assume "app_stop E force a c = (r, a', c')"
  with app_stop_inv [OF assms(1)] show ?thesis by blast
next
  fix now allow r
  assume "\<not> is_panic r" and "log_room a'" and "maybe_restart E now allow a c = (r, a', c')"
  with maybe_restart_inv [OF assms(1)] show ?thesis by fastforce
next
  fix token event tr r
  assume "\<not> is_panic r" and "app_poll E token event tr a c = (r, a', c')"
  with app_poll_inv [OF assms(1)] show ?thesis by fastforce
next
  fix rt p q
  assume "a_state a = Running rt" and "c' = c"
    and "log_room (a\<lparr>a_state := Running (rt\<lparr>rt_stdout := p, rt_stderr := q\<rparr>)\<rparr>)"
    and "a' = a\<lparr>a_state := Running (rt\<lparr>rt_stdout := p, rt_stderr := q\<rparr>)\<rparr>"
  moreover obtain hist where "log_inv a hist" and "app_owns E a c" and "restart_sound a"
    using assms(1) by (auto simp: app_inv_def)
  ultimately show ?thesis
    using log_inv_cong [of a hist a']
    by (auto intro!: app_invI simp: app_owns_def app_tokens_def rt_token_list_def restart_sound_def)
next
  assume "app_owns E a c'" and "a' = a"
  with assms(1) show ?thesis by (auto simp: app_inv_def)
qed

lemma app_reach_app_inv: "app_reach E s \<Longrightarrow> app_inv E (fst s) (snd s)"
proof (induction rule: app_reach.induct)
  case (reach_create c params echo a c')
  then show ?case by (simp add: app_create_inv)
next
  case (reach_step s act s')
  then show ?case by (metis app_step_inv prod.collapse)
qed

lemma reach_inv: "app_reach E (a, c) \<Longrightarrow> app_inv E a c"
  using app_reach_app_inv [of E "(a, c)"] by simp


section \<open>When an app is restarted\<close>

text \<open>An app that is down with no restart pending does not move until it is started.\<close>

lemma settled_step:
  assumes down: "\<not> is_running a" "pending_restart_deadline a = None"
    and step: "app_step E (a, c) act (a', c')" and act: "act \<noteq> ActStart"
  shows "a' = a"
  using step
proof (rule app_stepE)
  fix force r
  assume "app_stop E force a c = (r, a', c')"
  then show ?thesis
    by (cases rule: app_stop_cases) (use down in \<open>auto simp: is_running_def\<close>)
next
  fix now allow r
  assume "maybe_restart E now allow a c = (r, a', c')" and "\<not> is_panic r"
  then show ?thesis
    by (cases rule: maybe_restart_cases) (use down in auto)
next
  fix token event tr r
  assume "app_poll E token event tr a c = (r, a', c')"
  with down show ?thesis
    by (auto simp: app_poll_def is_running_def split: app_state.splits)
next
  fix rt p q
  assume "a_state a = Running rt"
  with down show ?thesis by (simp add: is_running_def)
qed (use act in simp_all)

lemma settled_steps:
  "app_steps E s acts s' \<Longrightarrow> \<not> is_running (fst s) \<Longrightarrow> pending_restart_deadline (fst s) = None \<Longrightarrow>
     ActStart \<notin> set acts \<Longrightarrow> fst s' = fst s"
proof (induction rule: app_steps.induct)
  case (steps_cons s act s' acts s'')
  then have "fst s' = fst s"
    by (metis settled_step list.set_intros(1) prod.collapse)
  with steps_cons show ?case by simp
qed simp

text \<open>
  C19. An app that was stopped on request, or that is a oneshot, stays exactly as it is once its
  process is down: no event, no passing deadline and no further stop request brings it back or
  changes any of its fields; only an explicit start does.
\<close>

theorem stopped_or_oneshot_stays_down:
  assumes reach: "app_reach E (a, c)" and down: "\<not> is_running a"
    and why: "a_stop_requested a \<or> ap_oneshot (a_params a)"
    and steps: "app_steps E (a, c) acts (a', c')" and no_start: "ActStart \<notin> set acts"
  shows "a' = a"
proof -
  from reach_inv [OF reach] why have "pending_restart_deadline a = None"
    by (auto simp: app_inv_def restart_sound_def)
  with settled_steps [OF steps] down no_start show ?thesis by simp
qed

text \<open>The actions of the event loop once a shutdown has been requested.\<close>

fun shutting_down :: "app_action \<Rightarrow> bool" where
  "shutting_down ActStart = False"
| "shutting_down (ActRestart now allow) = (\<not> allow)"
| "shutting_down (ActPoll token event tr) = (\<not> tr)"
| "shutting_down _ = True"

lemma shutdown_step:
  assumes inv: "app_inv E a c" and step: "app_step E (a, c) act (a', c')" and act: "shutting_down act"
  shows "(is_running a' \<longrightarrow> is_running a) \<and> (pending_restart_deadline a' \<noteq> None \<longrightarrow> a' = a)"
  using step
proof (rule app_stepE)
  fix force r
  assume "app_stop E force a c = (r, a', c')"
  then show ?thesis
    by (cases rule: app_stop_cases) (auto simp: is_running_def stopped_with_cause_def)
next
  fix now allow r
  assume run: "maybe_restart E now allow a c = (r, a', c')" and "\<not> is_panic r" and "act = ActRestart now allow"
  with act have "\<not> allow" and "\<not> is_panic r" by simp_all
  from run show ?thesis
    by (cases rule: maybe_restart_cases)
      (use \<open>\<not> allow\<close> \<open>\<not> is_panic r\<close> in \<open>auto simp: is_running_def stopped_with_cause_def\<close>)
next
  fix token event tr r
  assume poll: "app_poll E token event tr a c = (r, a', c')" and ok: "\<not> is_panic r" and "act = ActPoll token event tr"
  with act have "\<not> tr" by simp
  from inv obtain hist where h: "log_inv a hist" and own: "app_owns E a c"
    by (auto simp: app_inv_def)
  have own': "app_owns E a (c\<lparr>cx_tick := Suc (cx_tick c)\<rparr>)"
    using own by (simp add: app_owns_def)
  from h own poll show ?thesis
  proof (cases rule: app_poll_cases)
    case (stdio rt rt')
    with poll_stdio_inv [OF h stdio(1,4)] show ?thesis
      by (auto simp: is_running_def)
  next
    case (exited rt rs)
    from h exited(1) own' exited(6) show ?thesis
    proof (cases rule: poll_exit_cases)
      case (exited outs errs cb1 cb2 p1 p2 n)
      with \<open>\<not> tr\<close> show ?thesis
        by (simp add: is_running_def stopped_with_cause_def settle_def Let_def)
    qed (use ok in simp)
  qed (use ok in auto)
qed (use act in \<open>auto simp: is_running_def\<close>)

text \<open>
  Once the daemon shuts down (restarts no longer allowed, exits no longer rescheduled), an
  app that is down stays down and an app that goes down has no restart pending: nothing is
  respawned, and the exit of the last app leaves nothing to wait for.
\<close>

theorem shutdown_spawns_nothing:
  assumes "app_reach E (a, c)" and "app_step E (a, c) act (a', c')" and "shutting_down act"
  shows "(\<not> is_running a \<longrightarrow> \<not> is_running a') \<and> (is_running a \<and> \<not> is_running a' \<longrightarrow> pending_restart_deadline a' = None)"
proof -
  have "app_inv E a c"
    by (rule reach_inv [OF assms(1)])
  from shutdown_step [OF this assms(2,3)] show ?thesis by auto
qed

text \<open>
  C4. A restart happens only when all of its conditions hold: one was pending, restarts are
  allowed, its deadline has passed, the app was not stopped on request, is no oneshot, and has
  not exceeded its maximal number of consecutive failures; the restart counter then goes up by
  one, and the failure counter is left alone.
\<close>

theorem restart_conditions:
  assumes reach: "app_reach E (a, c)" and down: "\<not> is_running a"
    and run: "maybe_restart E now allow a c = (r, a', c')" and up: "is_running a'"
  shows "\<exists>d. pending_restart_deadline a = Some d \<and> d \<le> now \<and> allow
    \<and> \<not> a_stop_requested a \<and> \<not> ap_oneshot (a_params a)
    \<and> \<not> (\<exists>m. max_restart_attempts (ap_restart (a_params a)) = Some m \<and> m < st_consecutive_failures (a_stats a))
    \<and> st_restart_count (a_stats a') = st_restart_count (a_stats a) + 1
    \<and> st_consecutive_failures (a_stats a') = st_consecutive_failures (a_stats a)"
proof -
  have sound: "restart_sound a"
    using reach_inv [OF reach] by (simp add: app_inv_def)
  from run show ?thesis
  proof (cases rule: maybe_restart_cases)
    case (restarted le d rt)
    with sound show ?thesis
      by (intro exI [of _ d]) (auto simp: restart_sound_def not_less)
  next
    case (panicked m)
    with run have "a' = a"
      by (auto simp: maybe_restart_def split: app_state.splits option.splits if_splits prod.splits outcome.splits)
    with up down show ?thesis by simp
  qed (use up down in \<open>auto simp: is_running_def stopped_with_cause_def\<close>)
qed


section \<open>The last output of a process\<close>

lemma log_inv_hist: "log_inv a hist' \<Longrightarrow> ring_holds (a_log a) hist \<Longrightarrow> log_inv a hist"
  using ring_holdsD(5) [of "a_log a" hist] ring_holdsD(5) [of "a_log a" hist']
  by (simp add: log_inv_def)

lemma moved_sound: "moved cb hist p bufs cb' p' \<Longrightarrow> pipe_sound p \<Longrightarrow> concat bufs = pipe_data p"
  by (simp add: moved_def)

text \<open>
  C15. When \<open>waitpid\<close> reports the exit of an app, no output is lost and nothing is leaked: every
  byte still in its two pipes ends up in the log, stdout before stderr, and is counted; the app
  is down and knows how it ended and how long it ran; and exactly its three tokens are returned
  to the allocator.
\<close>

theorem exit_collects_everything:
  assumes reach: "app_reach E (a, c)" and st: "a_state a = Running rt"
    and event: "token = tk_pidfd (rt_tokens rt)" "ev_readable event"
    and waited: "fst (env_waitpid E (cx_tick c) (rt_pid rt)) = rt_pid rt"
    and sound: "pipe_sound (rt_stdout rt)" "pipe_sound (rt_stderr rt)"
    and epoll: "\<forall>i<3. st_deregister (env_stop E (Suc (cx_tick c))) i = None"
    and hist: "ring_holds (a_log a) hist"
  shows "\<exists>a' c' rs. app_poll E token event tr a c = (Ok (), a', c') \<and> \<not> is_running a'
    \<and> poll_pid (env_macros E) (env_waitpid E (cx_tick c) (rt_pid rt)) (rt_pid rt) = (Ok (Some rs) :: (app_err, _) outcome)
    \<and> ring_holds (a_log a') (hist @ pipe_data (rt_stdout rt) @ pipe_data (rt_stderr rt))
    \<and> st_stdout_bytes (a_stats a') = st_stdout_bytes (a_stats a) + of_nat (length (pipe_data (rt_stdout rt)))
    \<and> st_stderr_bytes (a_stats a') = st_stderr_bytes (a_stats a) + of_nat (length (pipe_data (rt_stderr rt)))
    \<and> st_last_exit_code (a_stats a') = exit_code rs
    \<and> st_total_uptime (a_stats a') = st_total_uptime (a_stats a) + duration_since (env_now E (cx_tick c)) (rt_started_at rt)
    \<and> ctx_live E c' = ctx_live E c - set (rt_token_list rt)"
proof -
  from reach_inv [OF reach] obtain h where "log_inv a h" and own: "app_owns E a c"
    by (auto simp: app_inv_def)
  note h = log_inv_hist [OF this(1) hist]
  have own': "app_owns E a (c\<lparr>cx_tick := Suc (cx_tick c)\<rparr>)"
    using own by (simp add: app_owns_def)
  obtain r a' c' where P: "app_poll E token event tr a c = (r, a', c')" by (metis prod_cases3)
  have pid: "rt_pid rt \<noteq> 0" and d: "distinct (rt_token_list rt)"
    using own st by (auto simp: app_owns_def app_tokens_def)
  obtain rs where w: "poll_pid (env_macros E) (env_waitpid E (cx_tick c) (rt_pid rt)) (rt_pid rt) = (Ok (Some rs) :: (app_err, _) outcome)"
    using waited by (simp add: poll_pid_def)
  have "poll_stdio token event rt a c = (Ok rt, a, c)"
    using d event by (simp add: poll_stdio_def get_stdio_def rt_token_list_def)
  then have ex: "poll_exit E tr (env_now E (cx_tick c)) rs rt a (c\<lparr>cx_tick := Suc (cx_tick c)\<rparr>) = (r, a', c')"
    using P st event w by (simp add: app_poll_def Let_def)
  from h st own' ex show ?thesis
  proof (cases rule: poll_exit_cases)
    case (stuck i)
    with epoll show ?thesis by simp
  next
    case (exited outs errs cb1 cb2 p1 p2 n)
    note o = moved_sound [OF exited(2) sound(1)] and e = moved_sound [OF exited(3) sound(2)]
    define s where "s = settle rs (duration_since (env_now E (cx_tick c)) (rt_started_at rt)) cb2
      (length (concat outs)) (length (concat errs)) a"
    have s: "a_state s = stopped_with_cause rs" by (simp add: s_def)
    have a': "a' = (if tr \<and> \<not> ap_oneshot (a_params a) \<and> \<not> a_stop_requested a
        then schedule_restart (env_powi E) (env_now E n) rs (duration_since (env_now E (cx_tick c)) (rt_started_at rt)) s else s)"
      using exited(6) by (simp add: s_def Let_def)
    have "\<not> is_running a'" "a_log a' = cb2"
      and "st_last_exit_code (a_stats a') = exit_code rs"
      and "st_total_uptime (a_stats a') = st_total_uptime (a_stats a) + duration_since (env_now E (cx_tick c)) (rt_started_at rt)"
      and "st_stdout_bytes (a_stats a') = st_stdout_bytes (a_stats a) + of_nat (length (pipe_data (rt_stdout rt)))"
      and "st_stderr_bytes (a_stats a') = st_stderr_bytes (a_stats a) + of_nat (length (pipe_data (rt_stderr rt)))"
      using schedule_restart_stopped [OF s] o e
      by (auto simp: a' schedule_restart_eq Let_def s_def settle_def is_running_def stopped_with_cause_def)
    moreover have "ring_holds cb2 (hist @ pipe_data (rt_stdout rt) @ pipe_data (rt_stderr rt))"
      using exited(3) o e by (simp add: moved_def)
    ultimately show ?thesis
      using P exited(1,4) w by (auto dest: ctx_toD)
  qed
qed


lemma output_event_drained:
  assumes inv: "app_inv E a c" and st: "a_state a = Running rt"
    and event: "token = tk_stdout (rt_tokens rt)" "ev_readable event"
    and sound: "pipe_sound (rt_stdout rt)" and hist: "ring_holds (a_log a) hist"
  shows "\<exists>bufs cb p. concat bufs = pipe_data (rt_stdout rt) \<and> pipe_data p = []
    \<and> (\<forall>b \<in> set bufs. b \<noteq> [] \<and> length b \<le> SPLICE_MAX_XFER_SIZE)
    \<and> ring_holds cb (hist @ pipe_data (rt_stdout rt)) \<and> cb_capacity cb = cb_capacity (a_log a)
    \<and> app_poll E token event tr a c =
        (Ok (), a\<lparr>a_log := cb, a_state := Running (rt\<lparr>rt_stdout := p\<rparr>),
            a_stats := (a_stats a)\<lparr>st_stdout_bytes := st_stdout_bytes (a_stats a) + of_nat (length (pipe_data (rt_stdout rt)))\<rparr>\<rparr>,
         c\<lparr>cx_trace := cx_trace c @ concat (map (echo_of a rt False) bufs)\<rparr>)"
proof -
  from inv obtain h where "log_inv a h" and own: "app_owns E a c"
    by (auto simp: app_inv_def)
  note h = log_inv_hist [OF this(1) hist]
  have d: "distinct (rt_token_list rt)"
    using own st by (auto simp: app_owns_def app_tokens_def)
  from h st show ?thesis
  proof (cases rule: poll_stdio_cases [of a hist rt token event c])
    case (out bufs cb' p')
    have poll: "app_poll E token event tr a c = (case poll_stdio token event rt a c of
        (Panic m, a', c') \<Rightarrow> (Panic m, a', c') | (Err e, a', c') \<Rightarrow> (Err e, a', c') | (Ok rt', a', c') \<Rightarrow> (Ok (), a', c'))"
      using st d event out(4) by (auto simp: app_poll_def rt_token_list_def)
    show ?thesis
      using out(3,4) moved_sound [OF out(3) sound] poll sound
      by (intro exI [of _ bufs] exI [of _ cb'] exI [of _ p']) (simp add: moved_def del: length_concat)
  next
    case idle
    with event show ?thesis by (simp add: get_stdio_def)
  next
    case err
    with d event show ?thesis by (simp add: rt_token_list_def)
  qed
qed

text \<open>
  A readable event on an output pipe drains it: with a kernel that does not fail, every
  pending byte is appended to the log and counted for its stream, the lines echoed are those of
  the chunks moved (none when echoing is off), each at most 16 KiB, and nothing else of the app
  changes.
\<close>

theorem output_event_drains_pipe:
  assumes reach: "app_reach E (a, c)" and st: "a_state a = Running rt"
    and event: "token = tk_stdout (rt_tokens rt)" "ev_readable event"
    and sound: "pipe_sound (rt_stdout rt)" and hist: "ring_holds (a_log a) hist"
  shows "\<exists>bufs cb p. concat bufs = pipe_data (rt_stdout rt) \<and> pipe_data p = []
    \<and> (\<forall>b \<in> set bufs. b \<noteq> [] \<and> length b \<le> SPLICE_MAX_XFER_SIZE)
    \<and> ring_holds cb (hist @ pipe_data (rt_stdout rt)) \<and> cb_capacity cb = cb_capacity (a_log a)
    \<and> app_poll E token event tr a c =
        (Ok (), a\<lparr>a_log := cb, a_state := Running (rt\<lparr>rt_stdout := p\<rparr>),
            a_stats := (a_stats a)\<lparr>st_stdout_bytes := st_stdout_bytes (a_stats a) + of_nat (length (pipe_data (rt_stdout rt)))\<rparr>\<rparr>,
         c\<lparr>cx_trace := cx_trace c @ concat (map (echo_of a rt False) bufs)\<rparr>)"
  by (rule output_event_drained [OF reach_inv [OF reach] st event sound hist])

section \<open>Crash loops\<close>

text \<open>Consecutive exits of an app, each handled by \<open>schedule_restart\<close>: state, uptime and clock.\<close>

fun crash_loop :: "(f64 \<Rightarrow> int \<Rightarrow> f64) \<Rightarrow> (return_state \<times> duration \<times> instant) list \<Rightarrow> app \<Rightarrow> app" where
  "crash_loop pw [] a = a"
| "crash_loop pw ((rs, uptime, now) # xs) a =
     crash_loop pw xs (schedule_restart pw now rs uptime (a\<lparr>a_state := stopped_with_cause rs\<rparr>))"

definition quick_crash :: "restart_policy \<Rightarrow> return_state \<times> duration \<times> instant \<Rightarrow> bool" where
  "quick_crash policy x \<longleftrightarrow> (case x of (rs, uptime, now) \<Rightarrow> rs \<noteq> Completed 0 \<and> uptime < from_millis (reset_after_ms policy))"

lemma crash_loop_append: "crash_loop pw (xs @ ys) a = crash_loop pw ys (crash_loop pw xs a)"
  by (induction pw xs a rule: crash_loop.induct) simp_all

lemma crash_loop_failures:
  "\<forall>x \<in> set xs. quick_crash (ap_restart (a_params a)) x \<Longrightarrow>
     st_consecutive_failures (a_stats (crash_loop pw xs a)) = st_consecutive_failures (a_stats a) + of_nat (length xs)
   \<and> a_params (crash_loop pw xs a) = a_params a"
  by (induction pw xs a rule: crash_loop.induct)
    (auto simp: quick_crash_def schedule_restart_eq failures_after_def Let_def)

text \<open>
  C18. A crash loop ends: with \<open>max_restart_attempts\<close> set to \<open>m\<close>, an app that keeps failing
  before \<open>reset_after_ms\<close> is rescheduled after each of its first \<open>m\<close> failures and given up on at
  failure \<open>m + 1\<close>, and stays given up on for every later one.
\<close>

theorem crash_loop_gives_up:
  assumes crashes: "\<forall>x \<in> set xs. quick_crash (ap_restart (a_params a)) x" and some: "xs \<noteq> []"
    and fresh: "st_consecutive_failures (a_stats a) = 0" and short: "length xs < 2 ^ 32"
    and m: "max_restart_attempts (ap_restart (a_params a)) = Some m"
    and retry: "\<not> is_never (on_error (ap_restart (a_params a)))"
  shows "pending_restart_deadline (crash_loop pw xs a) \<noteq> None \<longleftrightarrow> length xs \<le> unat m"
proof -
  define ys where "ys = butlast xs"
  obtain rs uptime now where xs: "xs = ys @ [(rs, uptime, now)]"
    using some by (metis append_butlast_last_id prod_cases3 ys_def)
  define b where "b = crash_loop pw ys a"
  have b: "st_consecutive_failures (a_stats b) = of_nat (length ys)" "a_params b = a_params a"
    using crash_loop_failures [of ys a pw] crashes fresh by (auto simp: xs b_def)
  have last: "quick_crash (ap_restart (a_params a)) (rs, uptime, now)"
    using crashes by (simp add: xs)
  have n: "(of_nat (length ys) + 1 :: u32) = of_nat (length xs)"
    by (simp add: xs)
  have le: "(m < of_nat (length xs)) \<longleftrightarrow> unat m < length xs"
    using short by (simp add: word_less_nat_alt unat_of_nat)
  have "crash_loop pw xs a = schedule_restart pw now rs uptime (b\<lparr>a_state := stopped_with_cause rs\<rparr>)"
    by (simp add: xs crash_loop_append b_def)
  with b last m retry n le show ?thesis
    by (simp add: schedule_restart_eq failures_after_def gives_up_def quick_crash_def Let_def not_less)
qed

lemma crash_loop_gives_up_witness:
  "\<exists>a. pending_restart_deadline (crash_loop (\<lambda>_ _. Fin 1) [(Completed 1, 5, 10), (Abnormal 9, 7, 20), (Completed 2, 0, 30)] a) = None
     \<and> pending_restart_deadline (crash_loop (\<lambda>_ _. Fin 1) [(Completed 1, 5, 10), (Abnormal 9, 7, 20)] a) \<noteq> None"
proof -
  define policy where "policy = restart_policy_default\<lparr>max_restart_attempts := Some 2\<rparr>"
  define a where "a = \<lparr>a_name = ''web'', a_params = sample_params\<lparr>ap_restart := policy\<rparr>, a_state = Stopped None,
    a_stats = app_runtime_stats_default, a_stop_requested = False,
    a_log = \<lparr>cb_map = \<lparr>rm_size = 4, rm_file = [0, 0, 0, 0]\<rparr>, cb_capacity = 4, cb_write_pos = 0\<rparr>, a_echo = False\<rparr>"
  let ?xs = "[(Completed 1, 5, 10), (Abnormal 9, 7, 20), (Completed 2, 0, 30)]"
  have "\<forall>x \<in> set ?xs. quick_crash (ap_restart (a_params a)) x" and m: "max_restart_attempts (ap_restart (a_params a)) = Some 2"
    and f: "st_consecutive_failures (a_stats a) = 0" and r: "\<not> is_never (on_error (ap_restart (a_params a)))"
    by (simp_all add: a_def policy_def quick_crash_def restart_policy_default_def from_millis_def
        app_runtime_stats_default_def restart_delay_default_def)
  with crash_loop_gives_up [of ?xs a 2] crash_loop_gives_up [of "take 2 ?xs" a 2] show ?thesis
    by (intro exI [of _ a]) simp
qed


section \<open>Stop requests\<close>

text \<open>
  A stop request sends exactly one signal, to the process of a running app and no other:
  SIGKILL when forced, SIGTERM otherwise. It reports success exactly when the kernel took the
  signal, leaves the process to its exit event, and marks the app so that the exit is not
  followed by a restart; a pending restart is cancelled without any signal, and an app that is
  down with nothing pending is left alone.
\<close>

theorem app_stop_spec:
  "app_stop E force a c =
     (case a_state a of
        Running rt \<Rightarrow>
          (let resp = env_kill E (cx_tick c)
           in (if snd resp < 0 then Err (RuntimeErr (RtIo (fst resp))) else Ok True, a\<lparr>a_stop_requested := True\<rparr>,
               c\<lparr>cx_tick := Suc (cx_tick c),
                 cx_trace := cx_trace c @ [Signalled (rt_pid rt) (if force then SIGKILL else SIGTERM)]\<rparr>))
      | Stopped le \<Rightarrow>
          (if pending_restart_deadline a = None then (Ok False, a, c)
           else (Ok True, a\<lparr>a_state := stopped_with_cause (le_cause (the le)), a_stop_requested := True\<rparr>, c)))"
proof (cases "a_state a")
  case (Running rt)
  then show ?thesis
    by (simp add: app_stop_def send_sigkill_def send_sigterm_def send_signal_def bindM_def next_tick_def emit_def
        to_ioresult_def lift_outcome_def ret_def Let_def)
next
  case (Stopped le)
  then show ?thesis
    by (simp add: app_stop_def pending_restart_deadline_def stopped_with_cause_def split: option.split)
qed

section \<open>Tokens over a life cycle\<close>

text \<open>
  One run of an app costs nothing in the end: after a start and the exit of the process, the
  live tokens are those from before the start, so an app can be restarted for ever without
  exhausting the allocator.
\<close>

theorem start_exit_token_balance:
  assumes reach: "app_reach E (a, c)" and down: "\<not> is_running a"
    and start: "app_start E a c = (Ok (), a1, c1)" and room: "log_room a1"
    and st: "a_state a1 = Running rt" and event: "token = tk_pidfd (rt_tokens rt)" "ev_readable event"
    and poll: "app_poll E token event tr a1 c1 = (Ok (), a2, c2)" and exit: "\<not> is_running a2"
  shows "ctx_live E c2 = ctx_live E c \<and> ctx_cap E c2 = ctx_cap E c"
proof -
  have inv: "app_inv E a c" using reach_inv [OF reach] by simp
  then have ok: "ctx_ok E c" by (simp add: app_inv_def app_owns_def)
  from down start st have rt: "rt_start E (a_params a) c = (Ok rt, c1)"
    by (auto simp: app_start_def is_running_def split: app_state.splits prod.splits outcome.splits)
  have inv1: "app_inv E a1 c1"
    using app_start_inv [OF inv start room] by simp
  then obtain h where h: "log_inv a1 h" and own1: "app_owns E a1 c1"
    by (auto simp: app_inv_def)
  have own': "app_owns E a1 (c1\<lparr>cx_tick := Suc (cx_tick c1)\<rparr>)"
    using own1 by (simp add: app_owns_def)
  note S = rt_start_owns [OF ok rt st]
  have tok: "app_tokens a1 = rt_token_list rt" using st by (simp add: app_tokens_def)
  from rt_start_ctx [OF ok rt] have cap: "ctx_cap E c1 = ctx_cap E c" by simp
  from h own1 poll show ?thesis
  proof (cases rule: app_poll_cases)
    case (exited rt' rs)
    then have "rt' = rt" using st by simp
    with exited have pe: "poll_exit E tr (env_now E (cx_tick c1)) rs rt a1 (c1\<lparr>cx_tick := Suc (cx_tick c1)\<rparr>) = (Ok (), a2, c2)"
      by simp
    from h st own' pe show ?thesis
    proof (cases rule: poll_exit_cases)
      case (exited outs errs cb1 cb2 p1 p2 n)
      from ctx_toD(2,3) [OF exited(4)] S(3,4) tok cap show ?thesis by auto
    qed simp
  qed (use st event exit in \<open>simp_all add: is_running_def\<close>)
qed

section \<open>Starts that fail\<close>





section \<open>Witnesses\<close>

lemma ring_holds_empty: "ring_holds (a_log sample_app) []"
  by (simp add: ring_holds_def ring_map_ok_def sample_app_def usize_bound_def)

lemma sample_reach: "app_reach sample_env (sample_app, sample_ctx1)"
  by (rule reach_create [OF sample_ctx_ok _ _ sample_create])
    (simp_all add: sample_params_def log_room_def app_pending_def sample_app_def sample_rt_def usize_bound_def)

lemma sample_down_reach: "app_reach sample_env (sample_down, sample_ctx2)"
  by (rule reach_step [OF sample_reach step_poll [OF sample_exit]]) simp

lemma sample_dereg: "st_deregister sample_stop i = None"
  by (simp add: sample_stop_def)

lemma sample_app_simps [simp]:
  "a_state sample_app = Running sample_rt" "a_log sample_down = \<lparr>cb_map = \<lparr>rm_size = 8, rm_file = [104, 105, 10, 33, 0, 0, 0, 0]\<rparr>, cb_capacity = 8, cb_write_pos = 4\<rparr>"
  "rt_tokens sample_rt = \<lparr>tk_pidfd = Token 3, tk_stdout = Token 4, tk_stderr = Token 5\<rparr>" "rt_pid sample_rt = 100"
  "pending_restart_deadline sample_down = Some 1000004000" "\<not> is_running sample_down" "is_running sample_again"
  "ev_readable sample_event" "pipe_sound (rt_stdout sample_rt)" "pipe_sound (rt_stderr sample_rt)"
  by (simp_all add: sample_app_def sample_rt_def sample_down_def sample_again_def is_running_def sample_event_def pipe_sound_def)


lemma stopped_or_oneshot_stays_down_witness:
  "\<exists>a acts. acts \<noteq> [] \<and> (\<forall>a' c'. app_steps sample_env (a, sample_ctx2) acts (a', c') \<longrightarrow> a' = a)"
proof -
  let ?a = "sample_down\<lparr>a_state := stopped_with_cause (Completed 1), a_stop_requested := True\<rparr>"
  have "app_stop sample_env False sample_down sample_ctx2 = (Ok True, ?a, sample_ctx2)"
    by (simp add: app_stop_def sample_down_def stopped_with_cause_def)
  then have reach: "app_reach sample_env (?a, sample_ctx2)"
    by (rule reach_step [OF sample_down_reach step_stop])
  have "\<not> is_running ?a" "a_stop_requested ?a \<or> ap_oneshot (a_params ?a)"
    by (simp_all add: is_running_def stopped_with_cause_def)
  from stopped_or_oneshot_stays_down [OF reach this, of "[ActRestart 3000000000 True, ActStop True]"] show ?thesis
    by (intro exI [of _ ?a] exI [of _ "[ActRestart 3000000000 True, ActStop True]"]) simp
qed

lemma shutdown_spawns_nothing_witness:
  "\<exists>a' c'. app_step sample_env (sample_down, sample_ctx2) (ActRestart 2000000000 False) (a', c') \<and> \<not> is_running a'"
proof -
  obtain a' c' where "maybe_restart sample_env 2000000000 False sample_down sample_ctx2 = (Ok (), a', c')"
    and "a' = sample_down\<lparr>a_state := stopped_with_cause (Completed 1)\<rparr>"
    by (simp add: maybe_restart_def sample_down_def)
  then have "app_step sample_env (sample_down, sample_ctx2) (ActRestart 2000000000 False) (a', c')"
    by (intro step_restart [where r = "Ok ()"])
      (simp_all add: log_room_def app_pending_def stopped_with_cause_def usize_bound_def)
  with shutdown_spawns_nothing [OF sample_down_reach this] show ?thesis by auto
qed

lemma restart_conditions_witness:
  "\<exists>d. pending_restart_deadline sample_down = Some d \<and> d \<le> 2000000000
     \<and> st_restart_count (a_stats sample_again) = st_restart_count (a_stats sample_down) + 1"
  using restart_conditions [OF sample_down_reach _ sample_restart] by auto

lemma exit_collects_everything_witness:
  "\<exists>a' c'. app_poll sample_env (Token 3) sample_event False sample_app sample_ctx1 = (Ok (), a', c')
     \<and> ring_holds (a_log a') [104, 105, 10, 33]"
proof -
  have "\<forall>i<3. st_deregister (env_stop sample_env (Suc (cx_tick sample_ctx1))) i = None"
    by (simp add: sample_dereg)
  moreover have "Token 3 = tk_pidfd (rt_tokens sample_rt)" "ev_readable sample_event"
    "fst (env_waitpid sample_env (cx_tick sample_ctx1) (rt_pid sample_rt)) = rt_pid sample_rt"
    by simp_all
  moreover have "pipe_data (rt_stdout sample_rt) = [104, 105, 10]" "pipe_data (rt_stderr sample_rt) = [33]"
    by (simp_all add: sample_rt_def)
  ultimately show ?thesis
    using exit_collects_everything [OF sample_reach, of sample_rt "Token 3" sample_event "[]" False] ring_holds_empty
    by fastforce
qed

lemma output_event_drains_pipe_witness:
  "\<exists>a' c'. app_poll sample_env (Token 4) sample_event True sample_app sample_ctx1 = (Ok (), a', c')
     \<and> ring_holds (a_log a') [104, 105, 10] \<and> is_running a'"
proof -
  from output_event_drains_pipe [OF sample_reach _ _ _ _ ring_holds_empty, of sample_rt "Token 4" sample_event True]
  obtain cb p c' where "ring_holds cb (pipe_data (rt_stdout sample_rt))"
    and "app_poll sample_env (Token 4) sample_event True sample_app sample_ctx1 =
        (Ok (), sample_app\<lparr>a_log := cb, a_state := Running (sample_rt\<lparr>rt_stdout := p\<rparr>),
            a_stats := (a_stats sample_app)\<lparr>st_stdout_bytes := st_stdout_bytes (a_stats sample_app)
              + of_nat (length (pipe_data (rt_stdout sample_rt)))\<rparr>\<rparr>, c')"
    by auto
  moreover have "pipe_data (rt_stdout sample_rt) = [104, 105, 10]"
    by (simp add: sample_rt_def)
  ultimately show ?thesis
    by (auto simp: is_running_def)
qed


lemma start_exit_token_balance_witness:
  "\<exists>a2 c2. app_poll sample_env (Token 3) sample_event True
       (sample_down\<lparr>a_state := Running sample_rt, a_stats := (a_stats sample_down)\<lparr>st_consecutive_failures := 0\<rparr>\<rparr>) sample_ctx3
     = (Ok (), a2, c2) \<and> ctx_live sample_env c2 = ctx_live sample_env sample_ctx2"
proof -
  let ?a1 = "sample_down\<lparr>a_state := Running sample_rt, a_stats := (a_stats sample_down)\<lparr>st_consecutive_failures := 0\<rparr>\<rparr>"
  have start: "app_start sample_env sample_down sample_ctx2 = (Ok (), ?a1, sample_ctx3)"
    using sample_start by (simp add: app_start_def sample_down_def sample_app_def)
  have room: "log_room ?a1" and st: "a_state ?a1 = Running sample_rt"
    by (simp_all add: log_room_def app_pending_def sample_rt_def usize_bound_def)
  have "\<exists>a2 c2. app_poll sample_env (Token 3) sample_event True ?a1 sample_ctx3 = (Ok (), a2, c2) \<and> \<not> is_running a2"
    by (simp add: app_poll_def poll_stdio_def get_stdio_def poll_pid_def Let_def poll_exit_def splice_evals stop_evals
      sample_ctx3_def sample_ctx2_def sample_rt_def sample_down_def sample_app_def sample_event_def is_running_def
      schedule_restart_def stopped_with_cause_def)
  then obtain a2 c2 where poll: "app_poll sample_env (Token 3) sample_event True ?a1 sample_ctx3 = (Ok (), a2, c2)"
    and "\<not> is_running a2" by blast
  from start_exit_token_balance [OF sample_down_reach _ start room st _ _ poll] this(2) poll show ?thesis
    by simp
qed


end
