(* ===== verification/Ownership.thy ===== *)
theory Ownership
  imports App_Correct LogIpc Ipc
begin

text \<open>
  Who owns which token. Apps, control connections and log connections share one allocator; the
  relation \<open>transfers\<close> is the contract every operation keeps towards the others: starting from
  an owner of the tokens \<open>T\<close> it ends with an owner of \<open>T'\<close>, takes nothing that somebody else
  holds and frees nothing that is not its own. It composes (\<open>transfers_trans\<close>) and frames
  (\<open>transfers_frame\<close>), so the invariant of the whole daemon follows operation by operation.

  The locale \<open>app_operation\<close> is the interface between the supervisor's loops over its apps and
  the operations of one app; it is interpreted on each of them.
\<close>

section \<open>Transfers\<close>

definition transfers :: "'s env \<Rightarrow> 's ctx \<Rightarrow> token set \<Rightarrow> 's ctx \<Rightarrow> token set \<Rightarrow> bool" where
  "transfers E c T c' T' \<longleftrightarrow>
     ctx_ok E c' \<and> ctx_cap E c' = ctx_cap E c \<and> ts_offset (cx_slab c') = ts_offset (cx_slab c)
   \<and> T' \<subseteq> ctx_live E c' \<and> ctx_live E c - T \<subseteq> ctx_live E c' \<and> T' \<inter> (ctx_live E c - T) = {}"

lemma transfersD:
  assumes "transfers E c T c' T'"
  shows "ctx_ok E c'" and "ctx_cap E c' = ctx_cap E c" and "ts_offset (cx_slab c') = ts_offset (cx_slab c)"
    and "T' \<subseteq> ctx_live E c'" and "ctx_live E c - T \<subseteq> ctx_live E c'" and "T' \<inter> (ctx_live E c - T) = {}"
  using assms by (simp_all add: transfers_def)

lemma transfers_same: "ctx_ok E c \<Longrightarrow> cx_slab c' = cx_slab c \<Longrightarrow> T \<subseteq> ctx_live E c \<Longrightarrow> transfers E c T c' T"
  by (auto simp: transfers_def)

lemma transfers_trans:
  assumes "transfers E c T c1 T1" and "transfers E c1 T1 c2 T2"
  shows "transfers E c T c2 T2"
  using assms unfolding transfers_def by (auto; blast)

text \<open>Whatever anybody else owns is untouched and stays disjoint.\<close>

lemma transfers_other:
  assumes "transfers E c T c' T'" and "Q \<subseteq> ctx_live E c" and "Q \<inter> T = {}"
  shows "Q \<subseteq> ctx_live E c'" and "Q \<inter> T' = {}"
  using assms unfolding transfers_def by blast+

lemma transfers_frame:
  assumes "transfers E c T c' T'" and "Q \<subseteq> ctx_live E c" and "Q \<inter> T = {}"
  shows "transfers E c (T \<union> Q) c' (T' \<union> Q)"
  using transfers_other [OF assms] assms unfolding transfers_def by blast

lemma transfers_ctx_to:
  assumes "ctx_to E c L c'" and "L = (ctx_live E c - T) \<union> T'" and "T' \<inter> (ctx_live E c - T) = {}"
  shows "transfers E c T c' T'"
  using assms by (auto simp: transfers_def dest: ctx_toD)

lemma transfers_slab_eq: "cx_slab c1 = cx_slab c \<Longrightarrow> transfers E c1 T c' T' = transfers E c T c' T'"
  by (simp add: transfers_def)

lemma transfers_slab_eq': "cx_slab c1 = cx_slab c' \<Longrightarrow> transfers E c T c1 T' = transfers E c T c' T'"
  by (simp add: transfers_def)

lemma transfers_grow: "ctx_ok E c' \<Longrightarrow> ctx_live E c \<subseteq> ctx_live E c' \<Longrightarrow> ctx_cap E c' = ctx_cap E c \<Longrightarrow>
    ts_offset (cx_slab c') = ts_offset (cx_slab c) \<Longrightarrow> transfers E c T c' {}"
  by (auto simp: transfers_def)

section \<open>The operations of one app\<close>

lemma rt_start_transfers:
  assumes "ctx_ok E c" and "rt_start E params c = (r, c')"
  shows "transfers E c {} c' (case r of Ok rt \<Rightarrow> set (rt_token_list rt) | _ \<Rightarrow> {})"
  using assms
proof (cases rule: rt_start_cases)
  case aborted
  with assms(1) show ?thesis
    by (cases r) (auto simp: transfers_def)
next
  case (failed e L)
  with ctx_toD [OF failed(2)] show ?thesis
    by (auto intro!: transfers_grow)
next
  case (started rt)
  then show ?thesis
    by (auto intro!: transfers_ctx_to [OF started(4)])
qed

lemma app_start_transfers:
  assumes own: "app_owns E a c" and run: "app_start E a c = (r, a', c')"
  shows "transfers E c (set (app_tokens a)) c' (set (app_tokens a'))"
proof -
  have ok: "ctx_ok E c" and sub: "set (app_tokens a) \<subseteq> ctx_live E c"
    using own by (simp_all add: app_owns_def)
  show ?thesis
  proof (cases "a_state a")
    case (Running rt)
    with run have "a' = a" "c' = c" by (simp_all add: app_start_def)
    with ok sub show ?thesis by (simp add: transfers_same)
  next
    case (Stopped le)
    obtain x c1 where P: "rt_start E (a_params a) c = (x, c1)" by force
    from rt_start_transfers [OF ok P] run Stopped P show ?thesis
      by (cases x) (auto simp: app_start_def app_tokens_def)
  qed
qed

lemma app_stop_transfers:
  assumes own: "app_owns E a c" and run: "app_stop E force a c = (r, a', c')"
  shows "transfers E c (set (app_tokens a)) c' (set (app_tokens a'))"
proof -
  have ok: "ctx_ok E c" and sub: "set (app_tokens a) \<subseteq> ctx_live E c"
    using own by (simp_all add: app_owns_def)
  from run show ?thesis
    by (cases rule: app_stop_cases)
      (use ok sub in \<open>auto intro!: transfers_same simp: app_tokens_def stopped_with_cause_def\<close>)
qed

lemma maybe_restart_transfers:
  assumes own: "app_owns E a c" and run: "maybe_restart E now allow a c = (r, a', c')" and ok_r: "\<not> is_panic r"
  shows "transfers E c (set (app_tokens a)) c' (set (app_tokens a'))"
proof -
  have ok: "ctx_ok E c" and sub: "set (app_tokens a) \<subseteq> ctx_live E c"
    using own by (simp_all add: app_owns_def)
  from run show ?thesis
  proof (cases rule: maybe_restart_cases)
    case (failed le d e)
    with rt_start_transfers [OF ok failed(6)] show ?thesis
      by (simp add: app_tokens_def stopped_with_cause_def)
  next
    case (restarted le d rt)
    with rt_start_transfers [OF ok restarted(6)] show ?thesis
      by (simp add: app_tokens_def)
  qed (use ok sub ok_r in \<open>auto intro!: transfers_same simp: app_tokens_def stopped_with_cause_def\<close>)
qed

lemma app_poll_transfers:
  assumes inv: "log_inv a hist" and own: "app_owns E a c"
    and run: "app_poll E token event tr a c = (r, a', c')" and ok_r: "\<not> is_panic r"
  shows "transfers E c (set (app_tokens a)) c' (set (app_tokens a'))"
proof -
  have ok: "ctx_ok E c" and sub: "set (app_tokens a) \<subseteq> ctx_live E c"
    using own by (simp_all add: app_owns_def)
  have own': "app_owns E a (c\<lparr>cx_tick := Suc (cx_tick c)\<rparr>)"
    using own by (simp add: app_owns_def)
  from inv own run show ?thesis
  proof (cases rule: app_poll_cases)
    case (stdio rt rt')
    with poll_stdio_inv [OF inv stdio(1,4)] have "app_tokens a' = app_tokens a" "cx_slab c' = cx_slab c"
      by (auto simp: app_tokens_def rt_token_list_def)
    with ok sub show ?thesis by (simp add: transfers_same)
  next
    case (exited rt rs)
    from poll_exit_inv [OF inv exited(1) own' exited(6)] ok_r have "\<not> is_running a'" by auto
    then have t': "app_tokens a' = []" by (rule not_running_tokens)
    have t: "app_tokens a = rt_token_list rt" using exited(1) by (simp add: app_tokens_def)
    from inv exited(1) own' exited(6) show ?thesis
    proof (cases rule: poll_exit_cases)
      case (exited outs errs cb1 cb2 p1 p2 n)
      from transfers_ctx_to [OF exited(4), of "set (rt_token_list rt)" "{}"] t t' show ?thesis
        by (simp add: transfers_slab_eq [of "c\<lparr>cx_tick := Suc (cx_tick c)\<rparr>" c])
    qed (use ok_r in simp)
  qed (use ok sub ok_r in \<open>auto intro: transfers_same\<close>)
qed


section \<open>The interface of an operation on one app\<close>

text \<open>\<open>pipe(2)\<close> creates an empty pipe.\<close>

definition fresh_pipes :: "'s env \<Rightarrow> bool" where
  "fresh_pipes E \<longleftrightarrow>
     (\<forall>n p. sp_stdout_pipe (env_spawn E n) = Ok p \<or> sp_stderr_pipe (env_spawn E n) = Ok p \<longrightarrow> pipe_data p = [])"

lemma into_nonblocking_same: "into_nonblocking_read_fd r p = Ok q \<Longrightarrow> q = p"
  by (auto simp: into_nonblocking_read_fd_def into_read_fd_def split: outcome.splits)

lemma rt_spawn_pipes:
  "rt_spawn r params c = (Ok (o1, e1, rest), c') \<Longrightarrow> sp_stdout_pipe r = Ok o1 \<and> sp_stderr_pipe r = Ok e1"
  by (auto simp: rt_spawn_def bindM_Ok split: option.splits if_splits)

lemma rt_start_fresh:
  assumes "fresh_pipes E" and "rt_start E params c = (Ok rt, c')"
  shows "pipe_data (rt_stdout rt) = []" and "pipe_data (rt_stderr rt) = []"
proof -
  from assms(2) obtain n o1 e1 where "sp_stdout_pipe (env_spawn E n) = Ok o1" "sp_stderr_pipe (env_spawn E n) = Ok e1"
    and "rt_stdout rt = o1" "rt_stderr rt = e1"
    by (auto simp: rt_start_def bindM_Ok Let_def dest!: rt_spawn_pipes into_nonblocking_same)
  with assms(1) show "pipe_data (rt_stdout rt) = []" "pipe_data (rt_stderr rt) = []"
    unfolding fresh_pipes_def by blast+
qed

locale app_operation =
  fixes E :: "'s env" and f :: "app \<Rightarrow> 's ctx \<Rightarrow> ('e, 'r) outcome \<times> app \<times> 's ctx"
  assumes op_inv: "fresh_pipes E \<Longrightarrow> app_inv E a c \<Longrightarrow> f a c = (r, a', c') \<Longrightarrow> \<not> is_panic r \<Longrightarrow> app_inv E a' c'"
    and op_transfers: "app_inv E a c \<Longrightarrow> f a c = (r, a', c') \<Longrightarrow> \<not> is_panic r \<Longrightarrow>
      transfers E c (set (app_tokens a)) c' (set (app_tokens a'))"
    and op_name: "f a c = (r, a', c') \<Longrightarrow> a_name a' = a_name a"
begin

text \<open>One operation, seen by everybody who holds tokens outside the app.\<close>

lemma op_others:
  assumes "fresh_pipes E" and "app_inv E a c" and "f a c = (r, a', c')" and "\<not> is_panic r"
    and "Q \<subseteq> ctx_live E c" and "Q \<inter> set (app_tokens a) = {}"
  shows "app_inv E a' c'" and "Q \<subseteq> ctx_live E c'" and "Q \<inter> set (app_tokens a') = {}"
    and "transfers E c (set (app_tokens a) \<union> Q) c' (set (app_tokens a') \<union> Q)"
  using op_inv [OF assms(1-4)] transfers_other [OF op_transfers [OF assms(2-4)] assms(5,6)]
    transfers_frame [OF op_transfers [OF assms(2-4)] assms(5,6)]
  by simp_all

end

lemma app_inv_frame: "app_inv E a c \<Longrightarrow> ctx_ok E c' \<Longrightarrow> set (app_tokens a) \<subseteq> ctx_live E c' \<Longrightarrow> app_inv E a c'"
  by (auto simp: app_inv_def app_owns_def)

lemma app_inv_room: "app_inv E a c \<Longrightarrow> log_room a"
  by (auto simp: app_inv_def log_inv_def log_room_def dest: ring_holdsD(5))

lemma app_inv_live: "app_inv E a c \<Longrightarrow> set (app_tokens a) \<subseteq> ctx_live E c \<and> distinct (app_tokens a) \<and> ctx_ok E c"
  by (auto simp: app_inv_def app_owns_def)

lemma app_start_room:
  assumes fresh: "fresh_pipes E" and inv: "app_inv E a c" and run: "app_start E a c = (r, a', c')"
  shows "log_room a' \<and> a_name a' = a_name a"
proof (cases "a_state a")
  case (Running rt)
  with run app_inv_room [OF inv] show ?thesis by (simp add: app_start_def)
next
  case (Stopped le)
  obtain x c1 where P: "rt_start E (a_params a) c = (x, c1)" by force
  have "cb_write_pos (a_log a) < usize_bound"
    using app_inv_room [OF inv] by (simp add: log_room_def)
  with app_inv_room [OF inv] run Stopped P rt_start_fresh [OF fresh, of "a_params a" c] show ?thesis
    by (cases x) (auto simp: app_start_def log_room_def app_pending_def)
qed

lemma maybe_restart_room:
  assumes fresh: "fresh_pipes E" and inv: "app_inv E a c" and run: "maybe_restart E now allow a c = (r, a', c')"
    and ok: "\<not> is_panic r"
  shows "log_room a'"
proof -
  have room: "log_room a" "cb_write_pos (a_log a) < usize_bound"
    using app_inv_room [OF inv] by (simp_all add: log_room_def)
  from run show ?thesis
    by (cases rule: maybe_restart_cases)
      (use room ok rt_start_fresh [OF fresh, of "a_params a" c] in
        \<open>auto simp: log_room_def app_pending_def stopped_with_cause_def\<close>)
qed

lemma maybe_restart_name: "maybe_restart E now allow a c = (r, a', c') \<Longrightarrow> a_name a' = a_name a"
  by (auto simp: maybe_restart_def split: app_state.splits option.splits if_splits prod.splits outcome.splits)

lemma app_start_name: "app_start E a c = (r, a', c') \<Longrightarrow> a_name a' = a_name a"
  by (auto simp: app_start_def split: app_state.splits prod.splits outcome.splits)

lemma app_stop_name: "app_stop E force a c = (r, a', c') \<Longrightarrow> a_name a' = a_name a"
  by (erule app_stop_cases) auto

lemma poll_stdio_name: "poll_stdio token event rt a c = (r, a', c') \<Longrightarrow> a_name a' = a_name a"
  by (auto simp: poll_stdio_def Let_def split: option.splits if_splits prod.splits stdio.splits)

lemma poll_exit_name: "poll_exit E tr now rs rt a c = (r, a', c') \<Longrightarrow> a_name a' = a_name a"
  by (auto simp: poll_exit_def Let_def split: option.splits if_splits prod.splits outcome.splits)

lemma app_poll_name: "app_poll E token event tr a c = (r, a', c') \<Longrightarrow> a_name a' = a_name a"
  by (auto simp: app_poll_def Let_def split: app_state.splits prod.splits outcome.splits option.splits if_splits
      dest!: poll_stdio_name poll_exit_name)

interpretation start_op: app_operation E "app_start E" for E :: "'s env"
proof
  fix a a' :: app and c c' :: "'s ctx" and r
  assume inv: "app_inv E a c" and run: "app_start E a c = (r, a', c')" and ok: "\<not> is_panic r"
  show "transfers E c (set (app_tokens a)) c' (set (app_tokens a'))"
    using app_start_transfers run inv by (auto simp: app_inv_def)
  assume "fresh_pipes E"
  from app_start_inv [OF inv run] app_start_room [OF this inv run] ok show "app_inv E a' c'"
    by auto
qed (rule app_start_name)

interpretation stop_op: app_operation E "app_stop E force" for E :: "'s env" and force
proof
  fix a a' :: app and c c' :: "'s ctx" and r
  assume inv: "app_inv E a c" and run: "app_stop E force a c = (r, a', c')"
  show "transfers E c (set (app_tokens a)) c' (set (app_tokens a'))"
    using app_stop_transfers run inv by (auto simp: app_inv_def)
  show "app_inv E a' c'"
    by (rule app_stop_inv [OF inv run])
qed (rule app_stop_name)

interpretation restart_op: app_operation E "maybe_restart E now allow" for E :: "'s env" and now allow
proof
  fix a a' :: app and c c' :: "'s ctx" and r
  assume inv: "app_inv E a c" and run: "maybe_restart E now allow a c = (r, a', c')" and ok: "\<not> is_panic r"
  show "transfers E c (set (app_tokens a)) c' (set (app_tokens a'))"
    using maybe_restart_transfers run inv ok by (auto simp: app_inv_def)
  assume "fresh_pipes E"
  from maybe_restart_inv [OF inv run] maybe_restart_room [OF this inv run ok] ok show "app_inv E a' c'"
    by auto
qed (rule maybe_restart_name)

interpretation poll_op: app_operation E "app_poll E token event tr" for E :: "'s env" and token event tr
proof
  fix a a' :: app and c c' :: "'s ctx" and r
  assume inv: "app_inv E a c" and run: "app_poll E token event tr a c = (r, a', c')" and ok: "\<not> is_panic r"
  show "transfers E c (set (app_tokens a)) c' (set (app_tokens a'))"
    using app_poll_transfers run inv ok by (auto simp: app_inv_def)
  from app_poll_inv [OF inv run] ok show "app_inv E a' c'"
    by auto
qed (rule app_poll_name)


section \<open>The interface of an operation on a table of connections\<close>

text \<open>
  The contract of the two servers towards the daemon: an operation on a table whose keys are
  distinct live tokens leaves such a table, and transfers exactly the keys.
\<close>

locale table_operation =
  fixes E :: "'s env" and f :: "'v \<Rightarrow> 's ctx \<Rightarrow> (ipc_error, unit) outcome \<times> 'v \<times> 's ctx"
    and keys :: "'v \<Rightarrow> token list"
  assumes op_keys: "ctx_ok E c \<Longrightarrow> distinct (keys v) \<Longrightarrow> set (keys v) \<subseteq> ctx_live E c \<Longrightarrow> f v c = (r, v', c') \<Longrightarrow>
      \<not> is_panic r \<Longrightarrow> distinct (keys v') \<and> transfers E c (set (keys v)) c' (set (keys v'))"
begin

lemma table_others:
  assumes "ctx_ok E c" and "distinct (keys v)" and "set (keys v) \<subseteq> ctx_live E c" and "f v c = (r, v', c')"
    and "\<not> is_panic r" and "Q \<subseteq> ctx_live E c" and "Q \<inter> set (keys v) = {}"
  shows "distinct (keys v')" and "set (keys v') \<subseteq> ctx_live E c'" and "Q \<subseteq> ctx_live E c'"
    and "Q \<inter> set (keys v') = {}" and "ctx_ok E c'"
  using op_keys [OF assms(1-5)] transfers_other [OF _ assms(6,7), of c' "set (keys v')"]
  by (auto dest: transfersD)

end

lemma keys_update: "map fst (AList.update k v al) = (if k \<in> set (map fst al) then map fst al else map fst al @ [k])"
  by (simp add: update_keys)

lemma keys_delete: "map fst (AList.delete k al) = filter (\<lambda>t. t \<noteq> k) (map fst al)"
  by (auto simp: delete_keys removeAll_filter_not_eq intro!: filter_cong)

lemma map_of_key: "map_of al k = Some v \<Longrightarrow> k \<in> set (map fst al)"
  by (metis domI dom_map_of_conv_image_fst image_set)

text \<open>Allocating one token for a table, and giving one back.\<close>

lemma allocate_transfers:
  assumes "ctx_ok E c" and "T \<subseteq> ctx_live E c" and "allocate (env_slab E) (cx_slab c) = (Some t, ts)" and "cx_slab c' = ts"
  shows "t \<notin> ctx_live E c" and "transfers E c T c' (insert t T)"
  using allocate_SomeD [OF assms(1,3)] assms(2,4) by (auto simp: transfers_def)

lemma allocate_leaks:
  assumes "ctx_ok E c" and "T \<subseteq> ctx_live E c" and "allocate (env_slab E) (cx_slab c) = (Some t, ts)" and "cx_slab c' = ts"
  shows "transfers E c T c' T"
  using allocate_SomeD [OF assms(1,3)] assms(2,4) by (auto simp: transfers_def)

lemma free_transfers:
  fixes E :: "'s env" and c :: "'s ctx"
  assumes "ctx_ok E c" and "T \<subseteq> ctx_live E c" and "t \<in> T"
  obtains ts where "free (env_slab E) (cx_slab c) t = Some ts"
    and "\<And>c' :: 's ctx. cx_slab c' = ts \<Longrightarrow> transfers E c T c' (T - {t})"
proof -
  have "t \<in> ctx_live E c" using assms(2,3) by blast
  from free_live [OF assms(1) this] obtain ts where "free (env_slab E) (cx_slab c) t = Some ts"
    "slab_ok (env_slab E) ts" "live (env_slab E) ts = ctx_live E c - {t}"
    "slab_cap (env_slab E) ts = ctx_cap E c" "ts_offset ts = ts_offset (cx_slab c)" .
  with assms(2,3) show thesis
    by (intro that [of ts]) (auto simp: transfers_def)
qed

section \<open>The log server\<close>

definition log_keys :: "log_server \<Rightarrow> token list" where
  "log_keys sv = map fst (ls_connections sv)"

lemma log_keys_set: "map_of (ls_connections sv) tok = Some conn \<Longrightarrow> log_keys (set_log_conn tok conn' sv) = log_keys sv"
  using map_of_key [of "ls_connections sv" tok conn] by (simp add: log_keys_def set_log_conn_def keys_update)

lemma log_max_set [simp]: "ls_max_connections (set_log_conn tok conn sv) = ls_max_connections sv"
  by (simp add: set_log_conn_def)

lemma log_keys_delete [simp]:
  "log_keys (sv\<lparr>ls_connections := AList.delete tok (ls_connections sv)\<rparr>) = filter (\<lambda>t. t \<noteq> tok) (log_keys sv)"
  by (simp add: log_keys_def keys_delete)

lemma log_keys_new: "tok \<notin> set (log_keys sv) \<Longrightarrow> log_keys (set_log_conn tok conn sv) = log_keys sv @ [tok]"
  by (simp add: log_keys_def set_log_conn_def keys_update)

lemma log_accept_all_keys:
  assumes "ctx_ok E c" and "distinct (log_keys sv)" and "set (log_keys sv) \<subseteq> ctx_live E c"
    and "log_accept_all E pending sv c = (r, sv', c')"
  shows "distinct (log_keys sv') \<and> transfers E c (set (log_keys sv)) c' (set (log_keys sv'))
    \<and> ls_max_connections sv' = ls_max_connections sv
    \<and> length (log_keys sv') \<le> max (length (log_keys sv)) (ls_max_connections sv)"
  using assms
proof (induction E pending sv c rule: log_accept_all.induct)
  case (4 E stream pending sv c)
  obtain a ts where A: "allocate (env_slab E) (cx_slab c) = (a, ts)" by force
  show ?case
  proof (cases "ls_max_connections sv \<le> length (ls_connections sv)")
    case True
    with 4 show ?thesis by simp
  next
    case False
    show ?thesis
    proof (cases a)
      case None
      with A allocate_NoneD have "ts = cx_slab c" by blast
      with 4 False A None show ?thesis
        by (simp add: transfers_slab_eq [of "c\<lparr>cx_slab := cx_slab c\<rparr>" c])
    next
      case (Some t)
      let ?c1 = "c\<lparr>cx_slab := ts, cx_tick := Suc (cx_tick c)\<rparr>"
      have al: "allocate (env_slab E) (cx_slab c) = (Some t, ts)" using A Some by simp
      note T = allocate_transfers [OF "4.prems"(1,3) al, of ?c1, simplified]
      show ?thesis
      proof (cases "env_register E (cx_tick c)")
        case (Some e)
        with 4 False al allocate_leaks [OF "4.prems"(1,3) al, of ?c1] show ?thesis by auto
      next
        case None
        let ?sv = "set_log_conn t (log_conn_new stream) sv"
        have k: "log_keys ?sv = log_keys sv @ [t]"
          using T(1) "4.prems"(3) by (intro log_keys_new) blast
        have "distinct (log_keys ?sv)" "set (log_keys ?sv) \<subseteq> ctx_live E ?c1" "ctx_ok E ?c1"
          using T "4.prems"(2,3) transfersD(1,4) [OF T(2)] by (auto simp: k)
        with "4.IH"(3) [OF False al [symmetric] refl None] "4.prems"(4) False al None
        have I: "distinct (log_keys sv') \<and> transfers E ?c1 (set (log_keys ?sv)) c' (set (log_keys sv'))
          \<and> ls_max_connections sv' = ls_max_connections ?sv
          \<and> length (log_keys sv') \<le> max (length (log_keys ?sv)) (ls_max_connections ?sv)"
          by simp
        moreover have "length (log_keys ?sv) \<le> ls_max_connections sv"
          using False by (simp add: k) (simp add: log_keys_def)
        moreover have "transfers E c (set (log_keys sv)) ?c1 (set (log_keys ?sv))"
          using T(2) by (simp add: k)
        ultimately show ?thesis
          by (auto intro: transfers_trans)
      qed
    qed
  qed
qed (auto intro: transfers_same split: if_splits)

lemma log_close_keys:
  fixes E :: "'s env" and c :: "'s ctx"
  assumes "ctx_ok E c" and "distinct (log_keys sv)" and "set (log_keys sv) \<subseteq> ctx_live E c"
    and "log_close E tok sv c = (r, sv', c')"
  shows "r = Ok () \<and> log_keys sv' = filter (\<lambda>t. t \<noteq> tok) (log_keys sv) \<and> distinct (log_keys sv')
    \<and> transfers E c (set (log_keys sv)) c' (set (log_keys sv')) \<and> ls_max_connections sv' = ls_max_connections sv"
proof (cases "map_of (ls_connections sv) tok")
  case None
  then have "tok \<notin> set (log_keys sv)"
    by (simp add: log_keys_def map_of_eq_None_iff)
  then have "filter (\<lambda>t. t \<noteq> tok) (log_keys sv) = log_keys sv"
    by (auto simp: filter_id_conv)
  with assms None show ?thesis
    by (auto simp: log_close_def intro: transfers_same)
next
  case (Some conn)
  then have tok: "tok \<in> set (log_keys sv)"
    using map_of_key [OF Some] by (simp add: log_keys_def)
  from free_transfers [OF assms(1,3) tok] obtain ts where f: "free (env_slab E) (cx_slab c) tok = Some ts"
    and t: "\<And>c' :: 's ctx. cx_slab c' = ts \<Longrightarrow> transfers E c (set (log_keys sv)) c' (set (log_keys sv) - {tok})"
    by blast
  have eq: "set (filter (\<lambda>t. t \<noteq> tok) (log_keys sv)) = set (log_keys sv) - {tok}" by auto
  have run: "r = Ok ()" "sv' = sv\<lparr>ls_connections := AList.delete tok (ls_connections sv)\<rparr>" "c' = c\<lparr>cx_slab := ts\<rparr>"
    using assms(4) Some f by (auto simp: log_close_def Let_def)
  have "transfers E c (set (log_keys sv)) c' (set (log_keys sv'))"
    using t [of c'] unfolding run log_keys_delete eq by simp
  with assms(2) show ?thesis
    unfolding run by simp
qed

lemma log_reconcile_keys:
  assumes "ctx_ok E c" and "distinct (log_keys sv)" and "set (log_keys sv) \<subseteq> ctx_live E c"
    and "log_reconcile E tok sv c = (r, sv', c')"
  shows "r = Ok () \<and> distinct (log_keys sv') \<and> transfers E c (set (log_keys sv)) c' (set (log_keys sv'))
    \<and> set (log_keys sv') \<subseteq> set (log_keys sv) \<and> length (log_keys sv') \<le> length (log_keys sv)
    \<and> ls_max_connections sv' = ls_max_connections sv"
proof (cases "map_of (ls_connections sv) tok")
  case None
  with assms show ?thesis by (auto simp: log_reconcile_def intro: transfers_same)
next
  case (Some conn)
  show ?thesis
  proof (cases "lconn_close_after_flush conn \<and> \<not> lconn_write_blocked conn")
    case True
    with assms(4) Some have "log_close E tok sv c = (r, sv', c')" by (simp add: log_reconcile_def)
    from log_close_keys [OF assms(1-3) this] show ?thesis by auto
  next
    case False
    with assms Some show ?thesis
      by (auto simp: log_reconcile_def Let_def log_keys_set intro!: transfers_same split: if_splits option.splits)
  qed
qed

lemma log_try_send_keys:
  "log_try_send apps tok sv = (r, sv') \<Longrightarrow> log_keys sv' = log_keys sv \<and> ls_max_connections sv' = ls_max_connections sv"
  by (auto simp: log_try_send_def Let_def log_keys_set split: option.splits log_conn_state.splits prod.splits outcome.splits)

lemma log_handle_readable_keys:
  "log_handle_readable apps tok sv = (r, sv') \<Longrightarrow> log_keys sv' = log_keys sv \<and> ls_max_connections sv' = ls_max_connections sv"
  by (auto simp: log_handle_readable_def Let_def log_keys_set
      split: option.splits log_conn_state.splits prod.splits outcome.splits if_splits dest!: log_try_send_keys)

lemma push_tokens_keys:
  assumes "ctx_ok E c" and "distinct (log_keys sv)" and "set (log_keys sv) \<subseteq> ctx_live E c"
    and "push_tokens E apps toks sv c = (r, sv', c')" and "\<not> is_panic r"
  shows "distinct (log_keys sv') \<and> transfers E c (set (log_keys sv)) c' (set (log_keys sv'))
    \<and> length (log_keys sv') \<le> length (log_keys sv) \<and> ls_max_connections sv' = ls_max_connections sv"
  using assms
proof (induction toks arbitrary: sv c)
  case Nil
  then show ?case by (auto intro: transfers_same)
next
  case (Cons tok toks)
  obtain x sv1 where S: "log_try_send apps tok sv = (x, sv1)" by force
  note K = log_try_send_keys [OF S]
  have pre: "distinct (log_keys sv1)" "set (log_keys sv1) \<subseteq> ctx_live E c" using K Cons.prems by simp_all
  show ?case
  proof (cases x)
    case (Ok u)
    obtain y sv2 c2 where R: "log_reconcile E tok sv1 c = (y, sv2, c2)" by (metis prod_cases3)
    note RK = log_reconcile_keys [OF Cons.prems(1) pre R]
    with Cons.prems(4) S Ok R have "push_tokens E apps toks sv2 c2 = (r, sv', c')" by simp
    from Cons.IH [OF _ _ _ this Cons.prems(5)] RK K transfersD(1,4) [of E c "set (log_keys sv)" c2 "set (log_keys sv2)"]
    have I: "distinct (log_keys sv') \<and> transfers E c2 (set (log_keys sv2)) c' (set (log_keys sv'))
        \<and> length (log_keys sv') \<le> length (log_keys sv2) \<and> ls_max_connections sv' = ls_max_connections sv2"
      by simp
    with RK K show ?thesis
      by (auto intro: transfers_trans)
  next
    case (Err e)
    obtain y sv2 c2 where R: "log_close E tok sv1 c = (y, sv2, c2)" by (metis prod_cases3)
    note RK = log_close_keys [OF Cons.prems(1) pre R]
    from RK K have t: "transfers E c (set (log_keys sv)) c2 (set (log_keys sv2))" and d: "distinct (log_keys sv2)"
      by metis+
    from Cons.prems(4) S Err R RK have "push_tokens E apps toks sv2 c2 = (r, sv', c')" by simp
    from Cons.IH [OF transfersD(1) [OF t] d transfersD(4) [OF t] this Cons.prems(5)]
    have I: "distinct (log_keys sv') \<and> transfers E c2 (set (log_keys sv2)) c' (set (log_keys sv'))
        \<and> length (log_keys sv') \<le> length (log_keys sv2) \<and> ls_max_connections sv' = ls_max_connections sv2"
      by simp
    moreover have "length (log_keys sv2) \<le> length (log_keys sv)" "ls_max_connections sv2 = ls_max_connections sv"
      using RK K by simp_all
    ultimately show ?thesis
      using transfers_trans [OF t] by auto
  next
    case (Panic m)
    with Cons.prems S show ?thesis by auto
  qed
qed

interpretation log_accept_op: table_operation E "log_accept_all E pending" log_keys for E :: "'s env" and pending
  by unfold_locales (use log_accept_all_keys in blast)

interpretation log_close_op: table_operation E "log_close E tok" log_keys for E :: "'s env" and tok
  by unfold_locales (use log_close_keys in blast)

interpretation log_reconcile_op: table_operation E "log_reconcile E tok" log_keys for E :: "'s env" and tok
  by unfold_locales (use log_reconcile_keys in blast)

interpretation log_push_op: table_operation E "push_updates E apps" log_keys for E :: "'s env" and apps
  by unfold_locales (use push_tokens_keys in \<open>fastforce simp: push_updates_def\<close>)

end
