(* ===== verification/Control_Ownership.thy ===== *)
theory Control_Ownership
  imports Ownership
begin

text \<open>
  Ownership, continued: the invariant of all apps together, what a request on the control socket
  does to it, and the tokens of the control connections.
\<close>


section \<open>All apps together\<close>

definition apps_tokens :: "app list \<Rightarrow> token set" where
  "apps_tokens apps = (\<Union>a \<in> set apps. set (app_tokens a))"

lemma apps_tokens_simps [simp]:
  "apps_tokens [] = {}" "apps_tokens (a # apps) = set (app_tokens a) \<union> apps_tokens apps"
  "apps_tokens (apps @ apps') = apps_tokens apps \<union> apps_tokens apps'"
  by (simp_all add: apps_tokens_def)

text \<open>Every app satisfies its invariant, and no token has two owners.\<close>

fun apps_inv :: "'s env \<Rightarrow> app list \<Rightarrow> 's ctx \<Rightarrow> bool" where
  "apps_inv E [] c \<longleftrightarrow> ctx_ok E c"
| "apps_inv E (a # apps) c \<longleftrightarrow> app_inv E a c \<and> apps_inv E apps c \<and> set (app_tokens a) \<inter> apps_tokens apps = {}"

lemma apps_inv_ok: "apps_inv E apps c \<Longrightarrow> ctx_ok E c"
  by (induction apps) auto

lemma apps_inv_live: "apps_inv E apps c \<Longrightarrow> apps_tokens apps \<subseteq> ctx_live E c"
  by (induction apps) (auto dest: app_inv_live)

lemma apps_inv_app: "apps_inv E apps c \<Longrightarrow> a \<in> set apps \<Longrightarrow> app_inv E a c"
  by (induction apps) auto

lemma apps_inv_frame: "apps_inv E apps c \<Longrightarrow> ctx_ok E c' \<Longrightarrow> apps_tokens apps \<subseteq> ctx_live E c' \<Longrightarrow> apps_inv E apps c'"
  by (induction apps) (auto intro: app_inv_frame)

lemma apps_inv_same: "apps_inv E apps c \<Longrightarrow> cx_slab c' = cx_slab c \<Longrightarrow> apps_inv E apps c'"
  by (rule apps_inv_frame) (auto dest: apps_inv_ok apps_inv_live)

text \<open>Somebody else's transfer leaves the apps as they were.\<close>

lemma apps_inv_other:
  assumes "apps_inv E apps c" and "transfers E c T c' T'" and "T \<inter> apps_tokens apps = {}"
  shows "apps_inv E apps c'" and "T' \<inter> apps_tokens apps = {}"
proof -
  have "apps_tokens apps \<subseteq> ctx_live E c'" and d: "apps_tokens apps \<inter> T' = {}"
    using transfers_other [OF assms(2) apps_inv_live [OF assms(1)]] assms(3) by blast+
  with apps_inv_frame [OF assms(1) transfersD(1) [OF assms(2)]] show "apps_inv E apps c'" by simp
  from d show "T' \<inter> apps_tokens apps = {}" by blast
qed

context app_operation
begin

text \<open>One operation on the first app of a list, seen by the others.\<close>

lemma op_step:
  assumes fresh: "fresh_pipes E" and inv: "apps_inv E (a # apps) c" and run: "f a c = (r, a', c1)" and ok: "\<not> is_panic r"
  shows "apps_inv E (a' # apps) c1 \<and> transfers E c (set (app_tokens a)) c1 (set (app_tokens a'))
    \<and> apps_inv E apps c1 \<and> transfers E c (apps_tokens (a # apps)) c1 (apps_tokens (a' # apps))"
proof -
  have a: "app_inv E a c" and rest: "apps_inv E apps c" and d: "set (app_tokens a) \<inter> apps_tokens apps = {}"
    using inv by simp_all
  note t = op_transfers [OF a run ok]
  note o = apps_inv_other [OF rest t d]
  have "transfers E c (set (app_tokens a) \<union> apps_tokens apps) c1 (set (app_tokens a') \<union> apps_tokens apps)"
    using transfers_frame [OF t apps_inv_live [OF rest]] d by blast
  with op_inv [OF fresh a run ok] o t show ?thesis by simp
qed

text \<open>The operation on the first app of a given name.\<close>

lemma with_app_inv:
  assumes "fresh_pipes E" and "apps_inv E apps c" and "with_app name f apps c = (r, apps', c')"
    and "\<forall>x. r = Some x \<longrightarrow> \<not> is_panic x"
  shows "apps_inv E apps' c' \<and> transfers E c (apps_tokens apps) c' (apps_tokens apps') \<and> map a_name apps' = map a_name apps"
  using assms
proof (induction apps arbitrary: r apps' c')
  case Nil
  then show ?case by (auto intro: transfers_same)
next
  case (Cons a apps)
  show ?case
  proof (cases "a_name a = name")
    case True
    obtain x a' c1 where F: "f a c = (x, a', c1)" by (metis prod_cases3)
    with Cons.prems True have eqs: "r = Some x" "apps' = a' # apps" "c' = c1" by auto
    with Cons.prems(4) have ok: "\<not> is_panic x" by simp
    from op_step [OF Cons.prems(1,2) F ok] op_name [OF F] eqs show ?thesis by simp
  next
    case False
    obtain r1 apps1 c1 where W: "with_app name f apps c = (r1, apps1, c1)" by (metis prod_cases3)
    with Cons.prems False have eqs: "r = r1" "apps' = a # apps1" "c' = c1" by auto
    from Cons.IH [OF Cons.prems(1) _ W] Cons.prems(2,4) eqs(1)
    have I: "apps_inv E apps1 c1" and t: "transfers E c (apps_tokens apps) c1 (apps_tokens apps1)"
      and n: "map a_name apps1 = map a_name apps"
      by auto
    have a: "app_inv E a c" and d: "set (app_tokens a) \<inter> apps_tokens apps = {}" using Cons.prems(2) by simp_all
    have l: "set (app_tokens a) \<subseteq> ctx_live E c" using app_inv_live [OF a] by simp
    note o = transfers_other [OF t l d]
    have "app_inv E a c1" by (rule app_inv_frame [OF a transfersD(1) [OF t] o(1)])
    moreover have "transfers E c (set (app_tokens a) \<union> apps_tokens apps) c1 (set (app_tokens a) \<union> apps_tokens apps1)"
      using transfers_frame [OF t l d] by (simp add: Un_commute)
    ultimately show ?thesis using I n o(2) by (simp add: eqs)
  qed
qed

text \<open>The same operation on every app in turn: what the first does and what the others do after it.\<close>

lemma op_then_rest:
  assumes fresh: "fresh_pipes E" and inv: "apps_inv E (a # apps) c" and run: "f a c = (r, a', c1)" and ok: "\<not> is_panic r"
    and rest: "apps_inv E apps c1 \<Longrightarrow> apps_inv E apps2 c2 \<and> transfers E c1 (apps_tokens apps) c2 (apps_tokens apps2)
        \<and> map a_name apps2 = map a_name apps"
  shows "apps_inv E (a' # apps2) c2 \<and> transfers E c (apps_tokens (a # apps)) c2 (apps_tokens (a' # apps2))
    \<and> map a_name (a' # apps2) = map a_name (a # apps)"
proof -
  from op_step [OF fresh inv run ok] have s: "apps_inv E (a' # apps) c1" "apps_inv E apps c1"
    and t: "transfers E c (apps_tokens (a # apps)) c1 (apps_tokens (a' # apps))" by simp_all
  from rest [OF s(2)] have I: "apps_inv E apps2 c2" and t2: "transfers E c1 (apps_tokens apps) c2 (apps_tokens apps2)"
    and n: "map a_name apps2 = map a_name apps" by simp_all
  have a: "app_inv E a' c1" and d: "set (app_tokens a') \<inter> apps_tokens apps = {}" using s(1) by simp_all
  have l: "set (app_tokens a') \<subseteq> ctx_live E c1" using app_inv_live [OF a] by simp
  note o = transfers_other [OF t2 l d]
  have "app_inv E a' c2" by (rule app_inv_frame [OF a transfersD(1) [OF t2] o(1)])
  moreover have "transfers E c1 (set (app_tokens a') \<union> apps_tokens apps) c2 (set (app_tokens a') \<union> apps_tokens apps2)"
    using transfers_frame [OF t2 l d] by (simp add: Un_commute)
  ultimately show ?thesis
    using I n o(2) op_name [OF run] transfers_trans [OF t [unfolded apps_tokens_simps]] by simp
qed

end

lemma start_all_inv:
  assumes "fresh_pipes E" and "apps_inv E apps c" and "start_all E J apps c = (r, apps', c')" and "\<not> is_panic r"
  shows "apps_inv E apps' c' \<and> transfers E c (apps_tokens apps) c' (apps_tokens apps') \<and> map a_name apps' = map a_name apps"
  using assms
proof (induction apps arbitrary: c r apps' c')
  case Nil
  then show ?case by (auto intro: transfers_same)
next
  case (Cons a apps)
  obtain x a' c1 where F: "app_start E a c = (x, a', c1)" by (metis prod_cases3)
  obtain y apps2 c2 where R: "start_all E J apps c1 = (y, apps2, c2)" by (metis prod_cases3)
  from Cons.prems(3,4) F R have ok: "\<not> is_panic x" "\<not> is_panic y" and eqs: "apps' = a' # apps2" "c' = c2"
    by (auto split: outcome.splits prod.splits)
  show ?case
    unfolding eqs by (rule start_op.op_then_rest [OF Cons.prems(1,2) F ok(1)]) (rule Cons.IH [OF Cons.prems(1) _ R ok(2)])
qed

lemma stop_all_inv:
  assumes "fresh_pipes E" and "apps_inv E apps c" and "stop_all E J force apps c = (r, apps', c')" and "\<not> is_panic r"
  shows "apps_inv E apps' c' \<and> transfers E c (apps_tokens apps) c' (apps_tokens apps') \<and> map a_name apps' = map a_name apps"
  using assms
proof (induction apps arbitrary: c r apps' c')
  case Nil
  then show ?case by (auto intro: transfers_same)
next
  case (Cons a apps)
  obtain x a' c1 where F: "app_stop E force a c = (x, a', c1)" by (metis prod_cases3)
  obtain y apps2 c2 where R: "stop_all E J force apps c1 = (y, apps2, c2)" by (metis prod_cases3)
  from Cons.prems(3,4) F R have ok: "\<not> is_panic x" "\<not> is_panic y" and eqs: "apps' = a' # apps2" "c' = c2"
    by (auto split: outcome.splits prod.splits)
  show ?case
    unfolding eqs by (rule stop_op.op_then_rest [OF Cons.prems(1,2) F ok(1)]) (rule Cons.IH [OF Cons.prems(1) _ R ok(2)])
qed

text \<open>Requests that only look.\<close>

lemma list_infos_slab: "list_infos E apps c = (is, c') \<Longrightarrow> cx_slab c' = cx_slab c \<and> length is = length apps"
proof (induction apps arbitrary: c "is")
  case (Cons a apps)
  then show ?case by (auto simp: app_info_def read_stats_def split: prod.splits)
qed simp

lemma with_app_reads:
  assumes "with_app name f apps c = (r, apps', c')" and "\<And>a c x a' c'. f a c = (x, a', c') \<Longrightarrow> a' = a \<and> cx_slab c' = cx_slab c"
  shows "apps' = apps \<and> cx_slab c' = cx_slab c"
  using assms(1)
proof (induction apps arbitrary: r apps' c')
  case (Cons a apps)
  obtain x a' c1 where F: "f a c = (x, a', c1)" by (rule prod_cases3)
  obtain y as c2 where R: "with_app name f apps c = (y, as, c2)" by (rule prod_cases3)
  from Cons.prems Cons.IH [OF R] assms(2) [OF F] F R show ?case by (auto split: if_splits)
qed simp

lemma info_of_reads: "info_of E a c = (x, a', c') \<Longrightarrow> a' = a \<and> cx_slab c' = cx_slab c"
  by (auto simp: info_of_def app_info_def read_stats_def)

lemma apps_look: "apps_inv E apps c \<Longrightarrow> cx_slab c' = cx_slab c \<Longrightarrow>
    apps_inv E apps c' \<and> transfers E c (apps_tokens apps) c' (apps_tokens apps)"
  using apps_inv_same [of E apps c c'] transfers_same [OF apps_inv_ok, of E apps c c'] apps_inv_live [of E apps c] by blast

lemma dispatch_request_inv:
  assumes fresh: "fresh_pipes E" and inv: "apps_inv E apps c" and run: "dispatch_request E J q apps c = (r, apps', c')"
    and ok: "\<not> is_panic r"
  shows "apps_inv E apps' c' \<and> transfers E c (apps_tokens apps) c' (apps_tokens apps') \<and> map a_name apps' = map a_name apps"
proof (cases q)
  case ReqList
  with run have "apps' = apps" "cx_slab c' = cx_slab c"
    by (auto simp: dispatch_request_def split: prod.splits dest: list_infos_slab)
  with apps_look [OF inv] show ?thesis by simp
next
  case (ReqInfo name)
  obtain x as c1 where W: "with_app name (info_of E) apps c = (x, as, c1)" by (metis prod_cases3)
  from run ReqInfo W have "apps' = as" "c' = c1" by (auto simp: dispatch_request_def split: option.splits)
  with with_app_reads [OF W info_of_reads] apps_look [OF inv] show ?thesis by simp
next
  case (ReqConfig name)
  let ?f = "\<lambda>a (c :: 'a ctx). (RespConfig (a_name a) (app_config_snapshot a), a, c)"
  obtain x as c1 where W: "with_app name ?f apps c = (x, as, c1)" by (rule prod_cases3)
  from run ReqConfig W have "apps' = as" "c' = c1" by (auto simp: dispatch_request_def split: option.splits)
  with with_app_reads [OF W] apps_look [OF inv] show ?thesis by simp
next
  case (ReqStart name)
  obtain x as c1 where W: "with_app name (app_start E) apps c = (x, as, c1)" by (metis prod_cases3)
  from run ok ReqStart W have "apps' = as" "c' = c1" "\<forall>y. x = Some y \<longrightarrow> \<not> is_panic y"
    by (auto simp: dispatch_request_def split: option.splits outcome.splits)
  with start_op.with_app_inv [OF fresh inv W] show ?thesis by simp
next
  case ReqStartAll
  obtain x as c1 where W: "start_all E J apps c = (x, as, c1)" by (metis prod_cases3)
  from run ok ReqStartAll W have "apps' = as" "c' = c1" "\<not> is_panic x"
    by (auto simp: dispatch_request_def split: outcome.splits)
  with start_all_inv [OF fresh inv W] show ?thesis by simp
next
  case (ReqStop name force)
  obtain x as c1 where W: "with_app name (app_stop E force) apps c = (x, as, c1)" by (metis prod_cases3)
  from run ok ReqStop W have "apps' = as" "c' = c1" "\<forall>y. x = Some y \<longrightarrow> \<not> is_panic y"
    by (auto simp: dispatch_request_def split: option.splits outcome.splits)
  with stop_op.with_app_inv [OF fresh inv W] show ?thesis by simp
next
  case (ReqStopAll force)
  obtain x as c1 where W: "stop_all E J force apps c = (x, as, c1)" by (metis prod_cases3)
  from run ok ReqStopAll W have "apps' = as" "c' = c1" "\<not> is_panic x"
    by (auto simp: dispatch_request_def split: outcome.splits)
  with stop_all_inv [OF fresh inv W] show ?thesis by simp
qed

lemma answer_inv:
  assumes "fresh_pipes E" and "apps_inv E apps c" and "answer E J t apps c = (r, apps', c')" and "\<not> is_panic r"
  shows "apps_inv E apps' c' \<and> transfers E c (apps_tokens apps) c' (apps_tokens apps') \<and> map a_name apps' = map a_name apps"
  using assms dispatch_request_inv [OF assms(1,2)] apps_look [OF assms(2), of c]
  by (auto simp: answer_def split: outcome.splits)

lemma process_lines_answer:
  assumes "take_line (cn_read_buf conn) = Some (line, rest)" and "trim (from_utf8_lossy line) \<noteq> ''''"
    and "answer E J (trim (from_utf8_lossy line)) apps c = (x, apps1, c1)"
  shows "process_lines E J conn apps c =
     (case x of Ok response \<Rightarrow>
        (case queue_response J response (conn\<lparr>cn_read_buf := rest\<rparr>) of
           Ok conn' \<Rightarrow> process_lines E J (conn'\<lparr>cn_close_after_flush := True\<rparr>) apps1 c1
         | Err e \<Rightarrow> (Err e, conn\<lparr>cn_read_buf := rest\<rparr>, apps1, c1) | Panic m \<Rightarrow> (Panic m, conn\<lparr>cn_read_buf := rest\<rparr>, apps1, c1))
      | Err e \<Rightarrow> (Panic ''unreachable'', conn\<lparr>cn_read_buf := rest\<rparr>, apps1, c1)
      | Panic m \<Rightarrow> (Panic m, conn\<lparr>cn_read_buf := rest\<rparr>, apps1, c1))"
  using assms by (subst process_lines.simps) (simp add: Let_def split: outcome.split)

text \<open>All requests of one read.\<close>

lemma process_lines_inv:
  assumes "fresh_pipes E" and "apps_inv E apps c" and "process_lines E J conn apps c = (r, conn', apps', c')"
    and "\<not> is_panic r"
  shows "apps_inv E apps' c' \<and> transfers E c (apps_tokens apps) c' (apps_tokens apps') \<and> map a_name apps' = map a_name apps"
  using assms
proof (induction "length (cn_read_buf conn)" arbitrary: conn apps c rule: less_induct)
  case less
  note fresh = less.prems(1) and inv = less.prems(2) and run = less.prems(3) and ok = less.prems(4)
  show ?case
  proof (cases "take_line (cn_read_buf conn)")
    case None
    with run have "apps' = apps" "c' = c" by (subst (asm) process_lines.simps; simp)+
    with apps_look [OF inv, of c] inv show ?thesis by simp
  next
    case (Some lr)
    obtain line rest where L: "take_line (cn_read_buf conn) = Some (line, rest)" using Some by (cases lr) simp
    let ?conn = "conn\<lparr>cn_read_buf := rest\<rparr>" and ?t = "trim (from_utf8_lossy line)"
    have short: "length rest < length (cn_read_buf conn)" using take_line_shorter [OF L] .
    show ?thesis
    proof (cases "?t = ''''")
      case True
      with run L have "process_lines E J ?conn apps c = (r, conn', apps', c')"
        by (subst (asm) process_lines.simps) simp
      from less.hyps [OF _ fresh inv this ok] short show ?thesis by simp
    next
      case False
      obtain x as c1 where D: "answer E J ?t apps c = (x, as, c1)" by (rule prod_cases3)
      have run': "(case x of Ok response \<Rightarrow>
                 (case queue_response J response ?conn of
                    Ok conn' \<Rightarrow> process_lines E J (conn'\<lparr>cn_close_after_flush := True\<rparr>) as c1
                  | Err e \<Rightarrow> (Err e, ?conn, as, c1) | Panic m \<Rightarrow> (Panic m, ?conn, as, c1))
              | Err e \<Rightarrow> (Panic ''unreachable'', ?conn, as, c1) | Panic m \<Rightarrow> (Panic m, ?conn, as, c1)) = (r, conn', apps', c')"
        using run process_lines_answer [OF L False D] by simp
      with ok obtain response where x: "x = Ok response" by (cases x) auto
      have step: "apps_inv E as c1 \<and> transfers E c (apps_tokens apps) c1 (apps_tokens as) \<and> map a_name as = map a_name apps"
        using answer_inv [OF fresh inv D] x by simp
      show ?thesis
      proof (cases "queue_response J response ?conn")
        case (Ok conn2)
        then have "length (cn_read_buf conn2) = length rest"
          by (auto simp: queue_response_def split: outcome.splits)
        with less.hyps [of "conn2\<lparr>cn_close_after_flush := True\<rparr>" as c1] short fresh step ok run' x Ok
        have I: "apps_inv E apps' c' \<and> transfers E c1 (apps_tokens as) c' (apps_tokens apps') \<and> map a_name apps' = map a_name as"
          by simp
        with step transfers_trans [of E c "apps_tokens apps" c1 "apps_tokens as"] show ?thesis by auto
      qed (use run' x ok step in auto)
    qed
  qed
qed

section \<open>The control server\<close>

definition server_keys :: "server \<Rightarrow> token list" where
  "server_keys sv = map fst (sv_connections sv)"

lemma server_keys_set: "map_of (sv_connections sv) tok = Some conn \<Longrightarrow> server_keys (set_conn tok conn' sv) = server_keys sv"
  using map_of_key [of "sv_connections sv" tok conn] by (simp add: server_keys_def set_conn_def keys_update)

lemma server_max_set [simp]: "sv_max_connections (set_conn tok conn sv) = sv_max_connections sv"
  by (simp add: set_conn_def)

lemma server_keys_delete [simp]:
  "server_keys (sv\<lparr>sv_connections := AList.delete tok (sv_connections sv)\<rparr>) = filter (\<lambda>t. t \<noteq> tok) (server_keys sv)"
  by (simp add: server_keys_def keys_delete)

lemma server_keys_new: "tok \<notin> set (server_keys sv) \<Longrightarrow> server_keys (set_conn tok conn sv) = server_keys sv @ [tok]"
  by (simp add: server_keys_def set_conn_def keys_update)

lemma is_known_keys: "is_known sv tok \<longleftrightarrow> tok \<in> set (server_keys sv)"
  by (auto simp: is_known_def server_keys_def map_of_eq_None_iff)

lemma accept_all_keys:
  assumes "ctx_ok E c" and "distinct (server_keys sv)" and "set (server_keys sv) \<subseteq> ctx_live E c"
    and "accept_all E J pending sv c = (r, sv', c')"
  shows "distinct (server_keys sv') \<and> transfers E c (set (server_keys sv)) c' (set (server_keys sv'))
    \<and> sv_max_connections sv' = sv_max_connections sv
    \<and> length (server_keys sv') \<le> max (length (server_keys sv)) (sv_max_connections sv)"
  using assms
proof (induction E J pending sv c rule: accept_all.induct)
  case (4 E J stream split pending sv c)
  let ?refused = "\<lambda>c. c\<lparr>cx_trace := cx_trace c @ reject_over_capacity J stream\<rparr>"
  obtain a ts where A: "allocate (env_slab E) (cx_slab c) = (a, ts)" by force
  show ?case
  proof (cases "sv_max_connections sv \<le> length (sv_connections sv)")
    case True
    from "4.IH"(1) [OF True] "4.prems" True show ?thesis by (simp add: transfers_slab_eq [of "?refused c" c])
  next
    case False
    show ?thesis
    proof (cases a)
      case None
      with A allocate_NoneD have ts: "ts = cx_slab c" by blast
      from "4.IH"(2) [OF False A [symmetric] None] "4.prems" False A None ts show ?thesis
        by (simp add: transfers_slab_eq [of "?refused c" c])
    next
      case (Some t)
      let ?c1 = "c\<lparr>cx_slab := ts, cx_tick := Suc (cx_tick c)\<rparr>"
      have al: "allocate (env_slab E) (cx_slab c) = (Some t, ts)" using A Some by simp
      note T = allocate_transfers [OF "4.prems"(1,3) al, of ?c1, simplified]
      show ?thesis
      proof (cases "env_register E (cx_tick c)")
        case (Some e)
        with 4 False al allocate_leaks [OF "4.prems"(1,3) al, of ?c1] show ?thesis by auto
      next
        case None
        let ?sv = "set_conn t (connection_new stream split) sv"
        have k: "server_keys ?sv = server_keys sv @ [t]"
          using T(1) "4.prems"(3) by (intro server_keys_new) blast
        have "distinct (server_keys ?sv)" "set (server_keys ?sv) \<subseteq> ctx_live E ?c1" "ctx_ok E ?c1"
          using T "4.prems"(2,3) transfersD(1,4) [OF T(2)] by (auto simp: k)
        with "4.IH"(3) [OF False al [symmetric] refl None] "4.prems"(4) False al None
        have I: "distinct (server_keys sv') \<and> transfers E ?c1 (set (server_keys ?sv)) c' (set (server_keys sv'))
          \<and> sv_max_connections sv' = sv_max_connections ?sv
          \<and> length (server_keys sv') \<le> max (length (server_keys ?sv)) (sv_max_connections ?sv)"
          by simp
        moreover have "length (server_keys ?sv) \<le> sv_max_connections sv"
          using False by (simp add: k) (simp add: server_keys_def)
        moreover have "transfers E c (set (server_keys sv)) ?c1 (set (server_keys ?sv))"
          using T(2) by (simp add: k)
        ultimately show ?thesis
          by (auto intro: transfers_trans)
      qed
    qed
  qed
qed (auto intro: transfers_same split: if_splits)

lemma close_conn_keys:
  fixes E :: "'s env" and c :: "'s ctx"
  assumes "ctx_ok E c" and "distinct (server_keys sv)" and "set (server_keys sv) \<subseteq> ctx_live E c"
    and "close_conn E tok sv c = (r, sv', c')"
  shows "r = Ok () \<and> server_keys sv' = filter (\<lambda>t. t \<noteq> tok) (server_keys sv) \<and> distinct (server_keys sv')
    \<and> transfers E c (set (server_keys sv)) c' (set (server_keys sv')) \<and> sv_max_connections sv' = sv_max_connections sv"
proof (cases "map_of (sv_connections sv) tok")
  case None
  then have "tok \<notin> set (server_keys sv)"
    by (simp add: server_keys_def map_of_eq_None_iff)
  then have "filter (\<lambda>t. t \<noteq> tok) (server_keys sv) = server_keys sv"
    by (auto simp: filter_id_conv)
  with assms None show ?thesis
    by (auto simp: close_conn_def intro: transfers_same)
next
  case (Some conn)
  then have tok: "tok \<in> set (server_keys sv)"
    using map_of_key [OF Some] by (simp add: server_keys_def)
  from free_transfers [OF assms(1,3) tok] obtain ts where f: "free (env_slab E) (cx_slab c) tok = Some ts"
    and t: "\<And>c' :: 's ctx. cx_slab c' = ts \<Longrightarrow> transfers E c (set (server_keys sv)) c' (set (server_keys sv) - {tok})"
    by blast
  have eq: "set (filter (\<lambda>t. t \<noteq> tok) (server_keys sv)) = set (server_keys sv) - {tok}" by auto
  have run: "r = Ok ()" "sv' = sv\<lparr>sv_connections := AList.delete tok (sv_connections sv)\<rparr>" "c' = c\<lparr>cx_slab := ts\<rparr>"
    using assms(4) Some f by (auto simp: close_conn_def Let_def)
  have "transfers E c (set (server_keys sv)) c' (set (server_keys sv'))"
    using t [of c'] unfolding run server_keys_delete eq by simp
  with assms(2) show ?thesis
    unfolding run by simp
qed

lemma reconcile_keys:
  assumes "ctx_ok E c" and "distinct (server_keys sv)" and "set (server_keys sv) \<subseteq> ctx_live E c"
    and "reconcile E tok sv c = (r, sv', c')"
  shows "r = Ok () \<and> distinct (server_keys sv') \<and> transfers E c (set (server_keys sv)) c' (set (server_keys sv'))
    \<and> length (server_keys sv') \<le> length (server_keys sv) \<and> sv_max_connections sv' = sv_max_connections sv"
proof (cases "map_of (sv_connections sv) tok")
  case None
  with assms show ?thesis by (auto simp: reconcile_def intro: transfers_same)
next
  case (Some conn)
  show ?thesis
  proof (cases "cn_close_after_flush conn \<and> cn_write_buf conn = []")
    case True
    with assms(4) Some have "close_conn E tok sv c = (r, sv', c')" by (simp add: reconcile_def)
    from close_conn_keys [OF assms(1-3) this] show ?thesis by auto
  next
    case False
    with assms Some show ?thesis
      by (auto simp: reconcile_def Let_def server_keys_set intro!: transfers_same split: if_splits option.splits)
  qed
qed

lemma handle_writable_keys:
  "handle_writable tok sv = (r, sv') \<Longrightarrow> server_keys sv' = server_keys sv \<and> sv_max_connections sv' = sv_max_connections sv"
  by (auto simp: handle_writable_def server_keys_set split: option.splits prod.splits)

interpretation accept_op: table_operation E "accept_all E J pending" server_keys for E :: "'s env" and J pending
  by unfold_locales (use accept_all_keys in blast)

interpretation close_op: table_operation E "close_conn E tok" server_keys for E :: "'s env" and tok
  by unfold_locales (use close_conn_keys in blast)

interpretation reconcile_op: table_operation E "reconcile E tok" server_keys for E :: "'s env" and tok
  by unfold_locales (use reconcile_keys in blast)

text \<open>A readable event: the server keeps its connections, the apps do what was requested of them.\<close>

lemma handle_readable_inv:
  assumes fresh: "fresh_pipes E" and inv: "apps_inv E apps c"
    and run: "handle_readable E J tok apps sv c = (r, apps', sv', c')" and ok: "\<not> is_panic r"
  shows "apps_inv E apps' c' \<and> transfers E c (apps_tokens apps) c' (apps_tokens apps') \<and> map a_name apps' = map a_name apps
    \<and> server_keys sv' = server_keys sv \<and> sv_max_connections sv' = sv_max_connections sv"
proof (cases "map_of (sv_connections sv) tok")
  case None
  with run apps_look [OF inv, of c] inv show ?thesis by (simp add: handle_readable_def)
next
  case (Some conn)
  note eqs = read_all_eq [of "cn_stream conn" "cn_read_buf conn"]
  show ?thesis
  proof (cases "read_end (cn_stream conn)")
    case (Ok eof)
    define conn1 where "conn1 = conn\<lparr>cn_stream := (cn_stream conn)\<lparr>sk_in := []\<rparr>, cn_read_buf := cn_read_buf conn @ sk_in (cn_stream conn),
        cn_close_after_flush := cn_close_after_flush conn \<or> eof\<rparr>"
    obtain x conn2 as c1 where P: "process_lines E J conn1 apps c = (x, conn2, as, c1)" by (metis prod_cases4)
    with run Some Ok have "r = x" "apps' = as" "c' = c1" "sv' = set_conn tok conn2 sv"
      by (simp_all add: handle_readable_def eqs conn1_def)
    with process_lines_inv [OF fresh inv P] ok server_keys_set [OF Some] show ?thesis by simp
  next
    case (Err e)
    with run Some apps_look [OF inv, of c] inv server_keys_set [OF Some] show ?thesis
      by (auto simp: handle_readable_def eqs)
  next
    case (Panic m)
    with run Some ok show ?thesis by (auto simp: handle_readable_def eqs)
  qed
qed

end
