(* ===== verification/Panic_Freedom.thy ===== *)
theory Panic_Freedom
  imports Control_Ownership
begin

text \<open>
  Which operations can panic, and that none does while the kernel does its part
  (\<open>kernel_sound\<close>). The locale \<open>calm_operation\<close> extends the interface of an operation on one app
  by this and by the growth of its log; the requests of the control socket follow from it.
\<close>

section \<open>Computations that do not panic\<close>

definition calm :: "('c, 'e, 'a) run \<Rightarrow> bool" where
  "calm m \<longleftrightarrow> (\<forall>c. \<not> is_panic (fst (m c)))"

lemma is_panic_map_err [simp]: "is_panic (map_err f r) = is_panic r"
  by (cases r) simp_all

lemma calm_intros:
  "calm (ret x)" "calm (fail e)" "calm next_tick" "calm (emit evs)" "calm (alloc_token E)"
  "\<not> is_panic r \<Longrightarrow> calm (lift_outcome r)"
  by (simp_all add: calm_def ret_def fail_def lift_outcome_def next_tick_def emit_def alloc_token_def split: prod.split)

lemma calm_bind: "calm m \<Longrightarrow> (\<And>x. calm (f x)) \<Longrightarrow> calm (bindM m f)"
  by (auto simp: calm_def bindM_def split: prod.split outcome.split) (metis fst_conv is_panic.simps(1))

lemma calm_register: "calm (register_source E resp)"
  unfolding register_source_def
  by (intro calm_bind calm_intros; auto split: option.split intro!: calm_bind calm_intros)+

text \<open>
  The kernel does its part: pipes and cgroups can be created, the descriptors of a pipe can be
  made non-blocking, we are the parent of what \<open>clone3\<close> creates, a registered descriptor can be
  deregistered, and \<open>waitpid\<close> on a child reports the child or nothing.
\<close>

definition spawn_sound :: "spawn_resp \<Rightarrow> bool" where
  "spawn_sound r \<longleftrightarrow>
     (\<exists>p. sp_stdout_pipe r = Ok p) \<and> (\<exists>p. sp_stderr_pipe r = Ok p) \<and> (\<forall>g. sp_build_cgroup r g \<noteq> None)
   \<and> (\<forall>path. \<not> is_panic (sp_open_cgroup r path)) \<and> (\<forall>args. as_c_int (snd (sp_clone3 r args)) \<noteq> 0)
   \<and> (\<forall>i. 0 \<le> snd (sp_stdout_fd r i) \<and> 0 \<le> snd (sp_stderr_fd r i))"

definition kernel_sound :: "'s env \<Rightarrow> bool" where
  "kernel_sound E \<longleftrightarrow>
     (\<forall>n. spawn_sound (env_spawn E n)) \<and> (\<forall>n i. st_deregister (env_stop E n) i = None)
   \<and> (\<forall>n pid. fst (env_waitpid E n pid) \<in> {0, pid})"

lemma to_ioresult_calm [simp]: "\<not> is_panic (to_ioresult e r)"
  by (simp add: to_ioresult_def)

lemma spawn_into_cgroup_calm: "\<not> is_panic opened \<Longrightarrow> \<not> is_panic (spawn_into_cgroup opened clone3)"
  by (cases opened) (simp_all add: spawn_into_cgroup_def split: prod.split)

lemma spawn_into_cgroup_pid:
  "(\<And>args. as_c_int (snd (clone3 args)) \<noteq> 0) \<Longrightarrow> spawn_into_cgroup opened clone3 = Ok pid \<Longrightarrow> pid \<noteq> 0"
  by (auto simp: spawn_into_cgroup_def to_ioresult_def Let_def split: outcome.splits prod.splits if_splits) (metis snd_conv)

lemma into_nonblocking_sound: "(\<And>i. 0 \<le> snd (r i)) \<Longrightarrow> into_nonblocking_read_fd r p = Ok p"
  by (simp add: into_nonblocking_read_fd_def into_read_fd_def to_ioresult_def not_less)

lemma rt_spawn_calm:
  assumes "spawn_sound r"
  shows "calm (rt_spawn r params :: ('s ctx, app_rt_error, _) run)"
proof -
  from assms obtain p q path where p: "sp_stdout_pipe r = Ok p" and q: "sp_stderr_pipe r = Ok q"
    and b: "sp_build_cgroup r (init_app_cgroup (ap_name params) (ap_cgroup params)) = Some path"
    unfolding spawn_sound_def by fastforce
  let ?s = "spawn_into_cgroup (sp_open_cgroup r (''/sys/fs/cgroup/'' @ path)) (sp_clone3 r)"
  have "\<not> is_panic ?s" and "\<And>pid. ?s = Ok pid \<Longrightarrow> pid \<noteq> 0"
    using assms spawn_into_cgroup_calm spawn_into_cgroup_pid unfolding spawn_sound_def by blast+
  then show ?thesis
    by (cases ?s) (auto simp: rt_spawn_def p q b calm_def bindM_def ret_def lift_outcome_def emit_def)
qed

lemma rt_start_calm:
  assumes "kernel_sound E"
  shows "calm (rt_start E params)"
proof -
  have r: "spawn_sound (env_spawn E n)" for n using assms by (simp add: kernel_sound_def)
  then have i: "into_nonblocking_read_fd (sp_stdout_fd (env_spawn E n)) p = Ok p"
    "into_nonblocking_read_fd (sp_stderr_fd (env_spawn E n)) p = Ok p" for n p
    by (auto simp: spawn_sound_def intro: into_nonblocking_sound)
  show ?thesis
    unfolding rt_start_def Let_def
    by (intro calm_bind calm_intros; (auto simp: i intro!: calm_bind calm_intros rt_spawn_calm r calm_register split: prod.split)?)
qed

section \<open>Operations on an app that neither panic nor lose log output\<close>

locale calm_operation = app_operation E f for E :: "'s env" and f :: "app \<Rightarrow> 's ctx \<Rightarrow> ('e, 'r) outcome \<times> app \<times> 's ctx" +
  assumes op_calm: "kernel_sound E \<Longrightarrow> app_inv E a c \<Longrightarrow> f a c = (r, a', c') \<Longrightarrow> \<not> is_panic r"
    and op_log: "app_inv E a c \<Longrightarrow> f a c = (r, a', c') \<Longrightarrow> \<not> is_panic r \<Longrightarrow> cb_write_pos (a_log a) \<le> cb_write_pos (a_log a')"

lemma rt_start_no_panic: "kernel_sound E \<Longrightarrow> rt_start E params c \<noteq> (Panic m, c')"
  using rt_start_calm [of E params] by (auto simp: calm_def) (metis fst_conv is_panic.simps(1))

interpretation start_calm: calm_operation E "app_start E" for E :: "'s env"
proof
  fix a a' :: app and c c' :: "'s ctx" and r
  assume run: "app_start E a c = (r, a', c')"
  then show "cb_write_pos (a_log a) \<le> cb_write_pos (a_log a')"
    by (auto simp: app_start_def split: app_state.splits prod.splits outcome.splits)
  assume "kernel_sound E"
  with run show "\<not> is_panic r"
    by (auto simp: app_start_def rt_start_no_panic split: app_state.splits prod.splits outcome.splits)
qed

lemma send_signal_calm: "calm (send_signal E rt s)"
  unfolding send_signal_def Let_def by (intro calm_bind calm_intros) (auto intro!: calm_bind calm_intros split: prod.split)

lemma moved_pos: "ring_holds cb hist \<Longrightarrow> moved cb hist p bufs cb' p' \<Longrightarrow> cb_write_pos cb \<le> cb_write_pos cb'"
  by (auto simp: moved_def dest!: ring_holdsD(5))

interpretation stop_calm: calm_operation E "app_stop E force" for E :: "'s env" and force
proof
  fix a a' :: app and c c' :: "'s ctx" and r
  assume run: "app_stop E force a c = (r, a', c')"
  then show "cb_write_pos (a_log a) \<le> cb_write_pos (a_log a')"
    by (cases rule: app_stop_cases) auto
  show "\<not> is_panic r"
  proof (cases "a_state a")
    case (Running rt)
    define s where "s = (if force then SIGKILL else SIGTERM)"
    obtain x c1 where S: "send_signal E rt s c = (x, c1)" by force
    then have "\<not> is_panic x" using send_signal_calm [of E rt s] by (auto simp: calm_def) (metis fst_conv)
    moreover have "(if force then send_sigkill E rt c else send_sigterm E rt c) = (x, c1)"
      using S by (cases force) (simp_all add: send_sigkill_def send_sigterm_def s_def)
    ultimately show ?thesis
      using run Running by (cases x) (auto simp: app_stop_def)
  qed (use run in \<open>auto simp: app_stop_def split: option.splits\<close>)
qed

interpretation restart_calm: calm_operation E "maybe_restart E now allow" for E :: "'s env" and now allow
proof
  fix a a' :: app and c c' :: "'s ctx" and r
  assume run: "maybe_restart E now allow a c = (r, a', c')"
  { assume "\<not> is_panic r"
    with run show "cb_write_pos (a_log a) \<le> cb_write_pos (a_log a')"
      by (cases rule: maybe_restart_cases) auto }
  { assume "kernel_sound E"
    with run show "\<not> is_panic r"
      by (cases rule: maybe_restart_cases) (auto dest: rt_start_no_panic) }
qed

interpretation poll_calm: calm_operation E "app_poll E token event tr" for E :: "'s env" and token event tr
proof
  fix a a' :: app and c c' :: "'s ctx" and r
  assume inv: "app_inv E a c" and run: "app_poll E token event tr a c = (r, a', c')"
  from inv obtain hist where h: "log_inv a hist" and own: "app_owns E a c"
    by (auto simp: app_inv_def)
  have own': "app_owns E a (c\<lparr>cx_tick := Suc (cx_tick c)\<rparr>)"
    using own by (simp add: app_owns_def)
  { assume sound: "kernel_sound E"
    from h own run show "\<not> is_panic r"
    proof (cases rule: app_poll_cases)
      case (exited rt rs)
      from h exited(1) own' exited(6) show ?thesis
        by (cases rule: poll_exit_cases) (use sound in \<open>auto simp: kernel_sound_def\<close>)
    next
      case (panicked m rt)
      with sound show ?thesis by (auto simp: kernel_sound_def)
    qed auto }
  { assume ok: "\<not> is_panic r"
    from h own run show "cb_write_pos (a_log a) \<le> cb_write_pos (a_log a')"
    proof (cases rule: app_poll_cases)
      case (stdio rt rt')
      from h have holds: "ring_holds (a_log a) hist" by (simp add: log_inv_def)
      from h stdio(1) show ?thesis
        by (cases rule: poll_stdio_cases [of a hist rt token event c]) (use stdio(4) moved_pos [OF holds] in auto)
    next
      case (exited rt rs)
      from h exited(1) own' exited(6) show ?thesis
      proof (cases rule: poll_exit_cases)
        case (exited outs errs cb1 cb2 p1 p2 n)
        have "a_log a' = cb2"
          using exited(6) by (auto simp: Let_def schedule_restart_eq)
        moreover have "ring_holds (a_log a) hist" "ring_holds cb1 (hist @ concat outs)"
          using h exited(2) by (simp_all add: log_inv_def moved_def)
        ultimately show ?thesis
          using moved_pos [OF _ exited(2)] moved_pos [OF _ exited(3)] by simp
      qed (use ok in auto)
    qed (use ok in auto) }
qed

end
