(* ===== verification/LogIpc_Correct.thy ===== *)
theory LogIpc_Correct
  imports Ownership
begin

text \<open>
  Correctness of the log socket: what a subscriber is sent is a piece of the app's history at
  its cursor, whatever the socket accepts; requests arrive whole however they are cut up; and
  connections own their tokens.
\<close>

section \<open>The sending loop\<close>

context log_source
begin

lemma send_loop_spec:
  assumes holds: "holds b hist" and le: "cursor \<le> length hist" and small: "length hist < usize_bound"
    and run: "send_loop (read b) cursor s = (r, cursor', s')"
  shows "max cursor (start b) \<le> cursor' \<and> cursor' \<le> length hist
    \<and> sk_out s' = sk_out s @ seg (max cursor (start b)) cursor' hist
    \<and> (r = Ok False \<and> cursor' = length hist \<or> r = Ok True \<and> cursor' < length hist \<and> (sk_write_error s' (sk_room s') = None \<longrightarrow> sk_room s' = 0)
       \<or> (\<exists>e. r = Err e \<and> e \<noteq> WouldBlock \<and> sk_write_error s' (sk_room s') = Some e))"
  using le run
proof (induction "sk_room s" arbitrary: cursor s rule: less_induct)
  case less
  note run = less.prems(2)
  from read_total [OF holds less.prems(1)] obtain chunk where c: "read b cursor = Some chunk" by blast
  from read_chunk [OF holds less.prems(1) c] show ?case
  proof
    assume "cursor = length hist \<and> chunk = \<lparr>lc_buffer = None, lc_missed = 0\<rparr>"
    then show ?thesis
      using run c start_le [OF holds] small
      by (subst (asm) send_loop.simps) (auto simp: usize_simps)
  next
    assume "\<exists>bs. lc_buffer chunk = Some bs \<and> bs \<noteq> [] \<and> cursor + lc_missed chunk = max cursor (start b)
         \<and> cursor + lc_missed chunk + length bs \<le> length hist
         \<and> bs = seg (cursor + lc_missed chunk) (cursor + lc_missed chunk + length bs) hist"
    then obtain bs where bs: "lc_buffer chunk = Some bs" "bs \<noteq> []" and f: "cursor + lc_missed chunk = max cursor (start b)"
      and top: "max cursor (start b) + length bs \<le> length hist"
      and piece: "bs = seg (max cursor (start b)) (max cursor (start b) + length bs) hist"
      by auto
    let ?f = "max cursor (start b)"
    have wrap: "usize_add cursor (lc_missed chunk) = ?f"
      using f top small by (simp add: usize_simps del: max.bounded_iff)
    obtain x s1 where W: "sock_write s bs = (x, s1)" by force
    show ?thesis
    proof (cases x)
      case (Ok n)
      with W have W: "sock_write s bs = (Ok n, s1)" by simp
      note D = sock_write_OkD [OF W]
      have n: "0 < n" "n \<le> length bs" using D(2,4) bs(2) by simp_all
      have wrap2: "usize_add ?f n = ?f + n"
        using n top small by (intro usize_add_eq) linarith
      have step: "send_loop (read b) cursor s = send_loop (read b) (?f + n) s1"
        using n by (subst send_loop.simps) (simp add: c bs wrap W wrap2 Let_def)
      have fn: "max (?f + n) (start b) = ?f + n" "?f + n \<le> length hist"
        using n top by auto
      have out: "take n bs = seg ?f (?f + n) hist"
        using n by (subst piece) (simp add: take_seg min_def)
      from less.hyps [of s1 "?f + n"] D(3) n fn(2) run step
      have "?f + n \<le> cursor' \<and> cursor' \<le> length hist \<and> sk_out s' = sk_out s1 @ seg (?f + n) cursor' hist
          \<and> (r = Ok False \<and> cursor' = length hist \<or> r = Ok True \<and> cursor' < length hist \<and> (sk_write_error s' (sk_room s') = None \<longrightarrow> sk_room s' = 0)
             \<or> (\<exists>e. r = Err e \<and> e \<noteq> WouldBlock \<and> sk_write_error s' (sk_room s') = Some e))"
        unfolding fn(1) by simp
      with D(1) out show ?thesis
        by (auto simp: seg_append_seg)
    next
      case (Err e)
      have "s1 = s" using W Err sock_write_ErrD by simp
      with run c bs wrap W Err have "cursor' = ?f" "s' = s" "r = (if e = WouldBlock then Ok True else Err e)"
        by (subst (asm) send_loop.simps; simp add: Let_def split: if_splits)+
      moreover have "e = WouldBlock \<Longrightarrow> sk_write_error s (sk_room s) = None \<Longrightarrow> sk_room s = 0"
        using W Err sock_write_WouldBlock by simp
      moreover have "e \<noteq> WouldBlock \<Longrightarrow> sk_write_error s (sk_room s) = Some e"
        using W Err by (auto simp: sock_write_def Let_def split: option.splits if_splits)
      moreover have "?f < length hist" using top bs(2) by (cases bs) auto
      ultimately show ?thesis
        using top by auto
    next
      case (Panic m)
      with W sock_write_no_panic show ?thesis by blast
    qed
  qed
qed

end


section \<open>Streaming to a subscriber\<close>

lemma map_of_set_log_conn [simp]:
  "map_of (ls_connections (set_log_conn tok conn sv)) t = (if t = tok then Some conn else map_of (ls_connections sv) t)"
  by (simp add: set_log_conn_def update_conv')

text \<open>
  The state of a subscription against the history of its app: the cursor lies in the history,
  and what was sent is the part before the cursor, possibly with gaps (\<open>gapless\<close> excludes them).
\<close>

definition sub_ok :: "log_conn \<Rightarrow> subscription \<Rightarrow> bytes \<Rightarrow> bool \<Rightarrow> bool" where
  "sub_ok conn sub hist gapless \<longleftrightarrow>
     sub_cursor sub \<le> length hist \<and> subseq (sk_out (lconn_stream conn)) (take (sub_cursor sub) hist)
   \<and> (gapless \<longrightarrow> sk_out (lconn_stream conn) = take (sub_cursor sub) hist)"

lemma sub_ok_grow: "sub_ok conn sub hist g \<Longrightarrow> sub_ok conn sub (hist @ new) g"
  by (auto simp: sub_ok_def)

lemma log_bytes_from_cursor_eq: "log_bytes_from_cursor a = read_from_cursor (a_log a)"
  by (simp add: log_bytes_from_cursor_def fun_eq_iff)

lemma take_seg_append: "i \<le> j \<Longrightarrow> j \<le> length xs \<Longrightarrow> take i xs @ seg i j xs = take j xs"
  by (simp add: seg_def) (metis le_add_diff_inverse take_add)

lemma subseq_take_seg:
  assumes "subseq out (take i hist)" and "i \<le> j" and "j \<le> k" and "k \<le> length hist"
  shows "subseq (out @ seg j k hist) (take k hist)"
proof -
  have "subseq out (take j hist)"
    using assms(1,2) by (metis prefix_imp_subseq subseq_order.order_trans take_is_prefix take_take min_def)
  then have "subseq (out @ seg j k hist) (take j hist @ seg j k hist)"
    by simp
  with assms(3,4) show ?thesis
    by (simp add: take_seg_append)
qed

lemma log_try_send_streams:
  assumes conn: "map_of (ls_connections sv) tok = Some conn" "lconn_state conn = Streaming sub"
    and app: "find_app (sub_name sub) apps = Some app" and holds: "ring_holds (a_log app) hist"
    and ok: "sub_ok conn sub hist g"
    and run: "log_try_send apps tok sv = (r, sv')"
  obtains conn' sub' where "map_of (ls_connections sv') tok = Some conn'" and "lconn_state conn' = Streaming sub'"
    and "sub' = sub\<lparr>sub_cursor := sub_cursor sub'\<rparr>" and "sub_cursor sub \<le> sub_cursor sub'"
    and "sub_ok conn' sub' hist (g \<and> start_pos (a_log app) \<le> sub_cursor sub)"
    and "sk_out (lconn_stream conn') = sk_out (lconn_stream conn)
        @ seg (max (sub_cursor sub) (start_pos (a_log app))) (sub_cursor sub') hist"
    and "\<And>t. t \<noteq> tok \<Longrightarrow> map_of (ls_connections sv') t = map_of (ls_connections sv) t"
    and "r = Ok () \<and> (\<not> lconn_write_blocked conn' \<longrightarrow> sub_cursor sub' = length hist)
        \<and> (lconn_write_blocked conn' \<longrightarrow> sk_write_error (lconn_stream conn') (sk_room (lconn_stream conn')) = None \<longrightarrow>
             sk_room (lconn_stream conn') = 0)
        \<and> lconn_close_after_flush conn' = (lconn_close_after_flush conn \<or>
            (\<not> lconn_write_blocked conn' \<and> past_bound (sub_dump_until sub) (sub_cursor sub')))
      \<or> (\<exists>e. r = Err (IpcIo e))"
proof -
  let ?start = "start_pos (a_log app)"
  obtain x cursor' s' where L: "send_loop (log_bytes_from_cursor app) (sub_cursor sub) (lconn_stream conn) = (x, cursor', s')"
    by (metis prod_cases3)
  then have L': "send_loop (read_from_cursor (a_log app)) (sub_cursor sub) (lconn_stream conn) = (x, cursor', s')"
    by (simp add: log_bytes_from_cursor_eq)
  have le: "sub_cursor sub \<le> length hist" and sq: "subseq (sk_out (lconn_stream conn)) (take (sub_cursor sub) hist)"
    and full: "g \<Longrightarrow> sk_out (lconn_stream conn) = take (sub_cursor sub) hist"
    using ok by (auto simp: sub_ok_def)
  from circ.send_loop_spec [OF holds le ring_holdsD(6) [OF holds] L']
  have S: "max (sub_cursor sub) ?start \<le> cursor'" "cursor' \<le> length hist"
    "sk_out s' = sk_out (lconn_stream conn) @ seg (max (sub_cursor sub) ?start) cursor' hist"
    and x: "x = Ok False \<and> cursor' = length hist
      \<or> x = Ok True \<and> (sk_write_error s' (sk_room s') = None \<longrightarrow> sk_room s' = 0) \<or> (\<exists>e. x = Err e)" by auto
  let ?sub' = "sub\<lparr>sub_cursor := cursor'\<rparr>"
  have seg_ok: "sub_ok c ?sub' hist (g \<and> ?start \<le> sub_cursor sub)" if "lconn_stream c = s'" for c
    using that S sq full subseq_take_seg [OF sq _ S(1,2)] le
    by (auto simp: sub_ok_def take_seg_append max_absorb1)
  have run': "(r, sv') = (case x of
       Ok blocked \<Rightarrow> (Ok (), set_log_conn tok (conn\<lparr>lconn_stream := s', lconn_state := Streaming ?sub', lconn_write_blocked := blocked,
           lconn_close_after_flush := lconn_close_after_flush conn \<or> (\<not> blocked \<and> past_bound (sub_dump_until sub) cursor')\<rparr>) sv)
     | Err e \<Rightarrow> (Err (IpcIo e), set_log_conn tok (conn\<lparr>lconn_stream := s', lconn_state := Streaming ?sub'\<rparr>) sv)
     | Panic m \<Rightarrow> (Panic m, set_log_conn tok (conn\<lparr>lconn_stream := s', lconn_state := Streaming ?sub'\<rparr>) sv))"
    using run conn app L by (simp add: log_try_send_def Let_def split: outcome.splits)
  show thesis
  proof (cases x)
    case (Ok blocked)
    with run' x S(1,3) seg_ok show ?thesis
      by (intro that [where sub' = ?sub' and conn' = "conn\<lparr>lconn_stream := s', lconn_state := Streaming ?sub', lconn_write_blocked := blocked,
           lconn_close_after_flush := lconn_close_after_flush conn \<or> (\<not> blocked \<and> past_bound (sub_dump_until sub) cursor')\<rparr>"])
        auto
  next
    case (Err e)
    with run' S(1,3) seg_ok show ?thesis
      by (intro that [where sub' = ?sub' and conn' = "conn\<lparr>lconn_stream := s', lconn_state := Streaming ?sub'\<rparr>"])
        auto
  qed (use x in simp)
qed

text \<open>
  A session: a connection that just subscribed, then any number of sends as the app's output
  grows, between which the server does anything that leaves the connection alone. \<open>g\<close> records
  whether the reader has kept up with the ring at every send.
\<close>

inductive log_session :: "string \<Rightarrow> token \<Rightarrow> log_server \<Rightarrow> bytes \<Rightarrow> bool \<Rightarrow> bool" for name tok where
  session_start: "map_of (ls_connections sv) tok = Some conn \<Longrightarrow> lconn_state conn = Streaming sub \<Longrightarrow>
    sub_name sub = name \<Longrightarrow> sub_cursor sub = 0 \<Longrightarrow> sk_out (lconn_stream conn) = [] \<Longrightarrow> log_session name tok sv hist True"
| session_send: "log_session name tok sv hist g \<Longrightarrow> map_of (ls_connections sv) tok = Some conn \<Longrightarrow>
    lconn_state conn = Streaming sub \<Longrightarrow> find_app name apps = Some app \<Longrightarrow> ring_holds (a_log app) (hist @ new) \<Longrightarrow>
    log_try_send apps tok sv = (r, sv') \<Longrightarrow>
    log_session name tok sv' (hist @ new) (g \<and> start_pos (a_log app) \<le> sub_cursor sub)"
| session_other: "log_session name tok sv hist g \<Longrightarrow>
    map_of (ls_connections sv') tok = map_of (ls_connections sv) tok \<Longrightarrow> log_session name tok sv' hist g"

lemma log_session_ok:
  "log_session name tok sv hist g \<Longrightarrow>
     \<exists>conn sub. map_of (ls_connections sv) tok = Some conn \<and> lconn_state conn = Streaming sub \<and> sub_name sub = name
       \<and> sub_ok conn sub hist g"
proof (induction rule: log_session.induct)
  case (session_start sv conn sub hist)
  then show ?case by (auto simp: sub_ok_def)
next
  case (session_send sv hist g conn sub apps app new r sv')
  then have ok: "sub_ok conn sub (hist @ new) g" and n: "sub_name sub = name"
    by (auto intro: sub_ok_grow)
  from log_try_send_streams [OF session_send(2,3) session_send(4) [folded n] session_send(5) ok session_send(6)]
  obtain conn' sub' where "map_of (ls_connections sv') tok = Some conn'" "lconn_state conn' = Streaming sub'"
    "sub' = sub\<lparr>sub_cursor := sub_cursor sub'\<rparr>" "sub_ok conn' sub' (hist @ new) (g \<and> start_pos (a_log app) \<le> sub_cursor sub)"
    by metis
  with n show ?case by (metis subscription.select_convs(1) subscription.surjective subscription.update_convs(3))
next
  case (session_other sv hist g sv')
  then show ?case by simp
qed


definition sample_log_sock :: sock where
  "sample_log_sock =
     \<lparr>sk_in = [], sk_peer_closed = False, sk_read_error = None, sk_read_choice = (\<lambda>_. 0), sk_out = [], sk_room = 3,
      sk_write_error = (\<lambda>_. None), sk_write_choice = (\<lambda>_. 0)\<rparr>"

text \<open>A client that asked for the log of \<open>web\<close>; its socket accepts three bytes.\<close>

definition sample_log_conn :: log_conn where
  "sample_log_conn = (log_conn_new sample_log_sock)
     \<lparr>lconn_state := Streaming \<lparr>sub_name = ''web'', sub_follow = False, sub_cursor = 0, sub_dump_until = Some 4\<rparr>\<rparr>"

definition sample_log_server :: log_server where
  "sample_log_server = \<lparr>ls_connections = [(Token 3, sample_log_conn)], ls_max_connections = 2\<rparr>"

lemma sample_down_log: "ring_holds (a_log sample_down) [104, 105, 10, 33]"
proof -
  have "rm_file (cb_map (a_log sample_down)) ! (i mod 8) = [104, 105, 10, 33] ! i" if "i < 4" for i
  proof -
    from that consider "i = 0" | "i = 1" | "i = 2" | "i = 3" by linarith
    then show ?thesis by cases (simp_all add: sample_down_def sample_app_def)
  qed
  then show ?thesis
    by (simp add: ring_holds_def ring_map_ok_def sample_down_def sample_app_def usize_bound_def)
qed

lemma sample_log_session:
  "log_session ''web'' (Token 3) (snd (log_try_send [sample_down] (Token 3) sample_log_server)) [104, 105, 10, 33] True"
proof -
  have start: "log_session ''web'' (Token 3) sample_log_server [] True"
    by (rule session_start [of _ _ sample_log_conn "\<lparr>sub_name = ''web'', sub_follow = False, sub_cursor = 0, sub_dump_until = Some 4\<rparr>"])
      (simp_all add: sample_log_server_def sample_log_conn_def log_conn_new_def sample_log_sock_def)
  have app: "find_app ''web'' [sample_down] = Some sample_down"
    by (simp add: find_app_def sample_down_def sample_app_def)
  obtain r sv' where S: "log_try_send [sample_down] (Token 3) sample_log_server = (r, sv')" by force
  from session_send [OF start _ _ app _ S, of sample_log_conn _ "[104, 105, 10, 33]"] sample_down_log S show ?thesis
    by (simp add: sample_log_server_def sample_log_conn_def start_pos_def sample_down_def sample_app_def saturating_sub_def)
qed


section \<open>The end of a dump\<close>

lemma log_close_live:
  assumes "ctx_ok E c" and "set (log_keys sv) \<subseteq> ctx_live E c" and "tok \<in> set (log_keys sv)"
    and "log_close E tok sv c = (r, sv', c')"
  shows "r = Ok () \<and> map_of (ls_connections sv') tok = None \<and> ctx_live E c' = ctx_live E c - {tok}"
proof -
  from assms(3) obtain conn where m: "map_of (ls_connections sv) tok = Some conn"
    by (cases "map_of (ls_connections sv) tok") (auto simp: log_keys_def map_of_eq_None_iff)
  from assms(2,3) have "tok \<in> ctx_live E c" by blast
  from free_live [OF assms(1) this] obtain ts where f: "free (env_slab E) (cx_slab c) tok = Some ts"
    and "slab_ok (env_slab E) ts" and l: "live (env_slab E) ts = ctx_live E c - {tok}"
    and "slab_cap (env_slab E) ts = ctx_cap E c" and "ts_offset ts = ts_offset (cx_slab c)" .
  have "r = Ok ()" "sv' = sv\<lparr>ls_connections := AList.delete tok (ls_connections sv)\<rparr>" "c' = c\<lparr>cx_slab := ts\<rparr>"
    using assms(4) m f by (simp_all add: log_close_def Let_def)
  with l show ?thesis by (simp add: delete_conv')
qed

text \<open>
  A dump (a request without \<open>-f\<close>) delivers everything and then ends: each attempt sends the
  retained bytes from the cursor onwards; if the socket takes them all, the cursor is at the end
  of the log, the connection is closed and its token returned; otherwise the send buffer is full
  (or the socket reports an error of its own), and the connection stays open with its token.
\<close>

theorem dump_delivers_then_closes:
  assumes conn: "map_of (ls_connections sv) tok = Some conn" "lconn_state conn = Streaming sub" "\<not> lconn_close_after_flush conn"
    and dump: "sub_dump_until sub = Some bound" "bound \<le> length hist"
    and app: "find_app (sub_name sub) apps = Some app" "ring_holds (a_log app) hist" "sub_ok conn sub hist g"
    and owned: "ctx_ok E c" "set (log_keys sv) \<subseteq> ctx_live E c"
    and run: "log_try_send apps tok sv = (Ok (), sv1)" "log_reconcile E tok sv1 c = (r, sv2, c2)"
  shows "\<exists>conn1 cursor. map_of (ls_connections sv1) tok = Some conn1 \<and> r = Ok ()
    \<and> sk_out (lconn_stream conn1) = sk_out (lconn_stream conn) @ seg (max (sub_cursor sub) (start_pos (a_log app))) cursor hist
    \<and> (if lconn_write_blocked conn1
       then map_of (ls_connections sv2) tok \<noteq> None \<and> ctx_live E c2 = ctx_live E c
         \<and> (sk_room (lconn_stream conn1) = 0 \<or> sk_write_error (lconn_stream conn1) (sk_room (lconn_stream conn1)) \<noteq> None)
       else cursor = length hist \<and> map_of (ls_connections sv2) tok = None \<and> ctx_live E c2 = ctx_live E c - {tok})"
proof -
  obtain conn1 and sub1 :: subscription where
    1: "map_of (ls_connections sv1) tok = Some conn1"
    "sk_out (lconn_stream conn1) = sk_out (lconn_stream conn) @ seg (max (sub_cursor sub) (start_pos (a_log app))) (sub_cursor sub1) hist"
    and D: "(Ok () :: (ipc_error, unit) outcome) = Ok () \<and> (\<not> lconn_write_blocked conn1 \<longrightarrow> sub_cursor sub1 = length hist)
        \<and> (lconn_write_blocked conn1 \<longrightarrow> sk_write_error (lconn_stream conn1) (sk_room (lconn_stream conn1)) = None \<longrightarrow>
             sk_room (lconn_stream conn1) = 0)
        \<and> lconn_close_after_flush conn1 = (lconn_close_after_flush conn \<or>
            (\<not> lconn_write_blocked conn1 \<and> past_bound (sub_dump_until sub) (sub_cursor sub1)))
      \<or> (\<exists>e. (Ok () :: (ipc_error, unit) outcome) = Err (IpcIo e))"
    by (rule log_try_send_streams [OF conn(1,2) app run(1)]) (rule that)
  from D have 2: "\<not> lconn_write_blocked conn1 \<longrightarrow> sub_cursor sub1 = length hist"
    "lconn_write_blocked conn1 \<longrightarrow> sk_write_error (lconn_stream conn1) (sk_room (lconn_stream conn1)) = None \<longrightarrow>
             sk_room (lconn_stream conn1) = 0"
    "lconn_close_after_flush conn1 = (lconn_close_after_flush conn \<or>
            (\<not> lconn_write_blocked conn1 \<and> past_bound (sub_dump_until sub) (sub_cursor sub1)))"
    by simp_all
  have keys: "log_keys sv1 = log_keys sv" using log_try_send_keys [OF run(1)] by simp
  have "tok \<in> set (log_keys sv)" using map_of_key [OF conn(1)] by (simp add: log_keys_def)
  then have tok: "tok \<in> set (log_keys sv1)" by (simp add: keys)
  show ?thesis
  proof (cases "lconn_write_blocked conn1")
    case True
    with run(2) 1(1) have "r = Ok () \<and> map_of (ls_connections sv2) tok \<noteq> None \<and> cx_slab c2 = cx_slab c"
      by (auto simp: log_reconcile_def Let_def split: if_splits option.splits)
    with True 1 2 show ?thesis by (intro exI [of _ conn1] exI [of _ "sub_cursor sub1"]) auto
  next
    case False
    with 2 dump have "lconn_close_after_flush conn1" by (simp add: past_bound_def)
    with False run(2) 1(1) have "log_close E tok sv1 c = (r, sv2, c2)" by (simp add: log_reconcile_def)
    from log_close_live [OF owned(1) _ tok this] owned(2) keys
    have "r = Ok () \<and> map_of (ls_connections sv2) tok = None \<and> ctx_live E c2 = ctx_live E c - {tok}" by simp
    with False 1 2 show ?thesis by (intro exI [of _ conn1] exI [of _ "sub_cursor sub1"]) auto
  qed
qed

section \<open>Requests in pieces\<close>

definition receive :: "bytes \<Rightarrow> log_conn \<Rightarrow> log_conn" where
  "receive bs conn = conn\<lparr>lconn_stream := (lconn_stream conn)\<lparr>sk_in := sk_in (lconn_stream conn) @ bs\<rparr>\<rparr>"

lemma set_log_conn_twice [simp]: "set_log_conn tok x (set_log_conn tok y sv) = set_log_conn tok x sv"
  by (simp add: set_log_conn_def)

text \<open>
  It does not matter how the network cuts a request up: as long as what has arrived is not a
  whole request, reading it only moves it into the read buffer, and reading the rest later has
  exactly the effect of reading everything at once.
\<close>

theorem log_request_in_pieces:
  assumes conn: "map_of (ls_connections sv) tok = Some conn" "lconn_state conn = AwaitingRequest"
    and idle: "sk_read_error (lconn_stream conn) = None" "\<not> sk_peer_closed (lconn_stream conn)"
    and piece: "parse_log_request (lconn_read_buf conn @ sk_in (lconn_stream conn)) = None"
  shows "\<exists>conn1 sv1. log_handle_readable apps tok sv = (Ok (), sv1) \<and> map_of (ls_connections sv1) tok = Some conn1
    \<and> lconn_state conn1 = AwaitingRequest
    \<and> log_handle_readable apps tok (set_log_conn tok (receive rest conn1) sv1)
      = log_handle_readable apps tok (set_log_conn tok (receive rest conn) sv)"
proof -
  let ?buf = "lconn_read_buf conn @ sk_in (lconn_stream conn)"
  let ?conn1 = "conn\<lparr>lconn_stream := (lconn_stream conn)\<lparr>sk_in := []\<rparr>, lconn_read_buf := ?buf\<rparr>"
  have end_: "read_end (lconn_stream conn) = Ok False" using idle by (simp add: read_end_def)
  have first: "log_handle_readable apps tok sv = (Ok (), set_log_conn tok ?conn1 sv)"
    using conn piece by (simp add: log_handle_readable_def read_all_eq end_ Let_def)
  have "log_handle_readable apps tok (set_log_conn tok (receive rest ?conn1) (set_log_conn tok ?conn1 sv))
      = log_handle_readable apps tok (set_log_conn tok (receive rest conn) sv)"
    using conn idle by (simp add: log_handle_readable_def receive_def read_all_eq read_end_def Let_def split: option.split)
  with first conn show ?thesis by auto
qed


definition sample_dump_server :: log_server where
  "sample_dump_server = \<lparr>ls_connections =
     [(Token 3, sample_log_conn\<lparr>lconn_stream := sample_log_sock\<lparr>sk_room := 10\<rparr>\<rparr>)], ls_max_connections = 2\<rparr>"

lemmas send_evals =
  send_loop.simps log_bytes_from_cursor_def read_from_cursor_def saturating_sub_def usize_sub_def usize_add_def
  usize_bound_def index_range_def get_at_def get_buffer_infos_at_def mapped_byte_def upt_rec sock_write_def transfer_def

lemma sample_dump_sent:
  "log_try_send [sample_down] (Token 3) sample_dump_server = (Ok (), \<lparr>ls_connections =
     [(Token 3, sample_log_conn\<lparr>lconn_stream := sample_log_sock\<lparr>sk_room := 6, sk_out := [104, 105, 10, 33]\<rparr>,
         lconn_state := Streaming \<lparr>sub_name = ''web'', sub_follow = False, sub_cursor = 4, sub_dump_until = Some 4\<rparr>,
         lconn_close_after_flush := True\<rparr>)], ls_max_connections = 2\<rparr>)"
  by (simp add: log_try_send_def sample_dump_server_def sample_log_conn_def log_conn_new_def sample_log_sock_def
      find_app_def sample_down_def sample_app_def send_evals past_bound_def set_log_conn_def Let_def)

lemma sample_ctx1_live: "ctx_ok sample_env sample_ctx1 \<and> {Token 3, Token 4, Token 5} \<subseteq> ctx_live sample_env sample_ctx1"
  using app_inv_live [OF reach_inv [OF sample_reach]] by (simp add: app_tokens_def rt_token_list_def)

lemma dump_delivers_then_closes_witness:
  "\<exists>sv1 sv2 c2. log_try_send [sample_down] (Token 3) sample_dump_server = (Ok (), sv1)
    \<and> log_reconcile sample_env (Token 3) sv1 sample_ctx1 = (Ok (), sv2, c2) \<and> map_of (ls_connections sv2) (Token 3) = None
    \<and> ctx_live sample_env c2 = ctx_live sample_env sample_ctx1 - {Token 3}"
proof -
  obtain sv1 where s1: "log_try_send [sample_down] (Token 3) sample_dump_server = (Ok (), sv1)"
    and unblocked: "\<forall>conn. map_of (ls_connections sv1) (Token 3) = Some conn \<longrightarrow> \<not> lconn_write_blocked conn"
    using sample_dump_sent by (auto simp: sample_log_conn_def log_conn_new_def)
  obtain r sv2 c2 where s2: "log_reconcile sample_env (Token 3) sv1 sample_ctx1 = (r, sv2, c2)" by (metis prod_cases3)
  have "find_app ''web'' [sample_down] = Some sample_down"
    by (simp add: find_app_def sample_down_def sample_app_def)
  then have "\<exists>conn1 cursor. map_of (ls_connections sv1) (Token 3) = Some conn1 \<and> r = Ok ()
    \<and> (if lconn_write_blocked conn1 then True
       else map_of (ls_connections sv2) (Token 3) = None \<and> ctx_live sample_env c2 = ctx_live sample_env sample_ctx1 - {Token 3})"
    using dump_delivers_then_closes [OF _ _ _ _ _ _ sample_down_log _ _ _ s1 s2,
        where sub = "\<lparr>sub_name = ''web'', sub_follow = False, sub_cursor = 0, sub_dump_until = Some 4\<rparr>" and bound = 4
          and conn = "sample_log_conn\<lparr>lconn_stream := sample_log_sock\<lparr>sk_room := 10\<rparr>\<rparr>" and g = True] sample_ctx1_live
    by (auto simp: sample_dump_server_def sample_log_conn_def log_conn_new_def sample_log_sock_def sub_ok_def log_keys_def)
  with unblocked s1 s2 show ?thesis by auto
qed

text \<open>A client whose request for the log of \<open>web\<close> arrives as its first byte and then the rest.\<close>

definition sample_asking_server :: log_server where
  "sample_asking_server = \<lparr>ls_connections = [(Token 3, log_conn_new (sample_log_sock\<lparr>sk_in := [0]\<rparr>))], ls_max_connections = 2\<rparr>"

lemma log_request_in_pieces_witness:
  "\<exists>conn1 sv1. log_handle_readable [sample_down] (Token 3) sample_asking_server = (Ok (), sv1)
    \<and> map_of (ls_connections sv1) (Token 3) = Some conn1
    \<and> log_handle_readable [sample_down] (Token 3) (set_log_conn (Token 3) (receive [3, 119, 101, 98] conn1) sv1)
      = log_handle_readable [sample_down] (Token 3)
          (set_log_conn (Token 3) (log_conn_new (sample_log_sock\<lparr>sk_in := [0, 3, 119, 101, 98]\<rparr>)) sample_asking_server)"
  using log_request_in_pieces [of sample_asking_server "Token 3" "log_conn_new (sample_log_sock\<lparr>sk_in := [0]\<rparr>)"
      "[sample_down]" "[3, 119, 101, 98]"]
  by (auto simp: sample_asking_server_def log_conn_new_def sample_log_sock_def parse_log_request_def receive_def)

end
