(* ===== verification/Server_Safety.thy ===== *)
theory Server_Safety
  imports Panic_Freedom LogIpc_Correct
begin

text \<open>
  The two servers do not panic either: every request of the control socket is answered, no log
  connection makes the ring's offsets underflow. The apps' logs only grow (\<open>apps_grow\<close>), and
  no cursor of a log connection is ever ahead of the log it reads (\<open>log_cursors_ok\<close>).
\<close>

section \<open>Logs that grow\<close>

definition apps_grow :: "app list \<Rightarrow> app list \<Rightarrow> bool" where
  "apps_grow apps apps' \<longleftrightarrow>
     list_all2 (\<lambda>a a'. a_name a' = a_name a \<and> cb_write_pos (a_log a) \<le> cb_write_pos (a_log a')) apps apps'"

lemma apps_grow_simps [simp]:
  "apps_grow [] apps' \<longleftrightarrow> apps' = []"
  "apps_grow (a # apps) (a' # apps') \<longleftrightarrow>
     a_name a' = a_name a \<and> cb_write_pos (a_log a) \<le> cb_write_pos (a_log a') \<and> apps_grow apps apps'"
  by (simp_all add: apps_grow_def)

lemma apps_grow_refl [simp]: "apps_grow apps apps"
  by (simp add: apps_grow_def list_all2_refl)

lemma apps_grow_trans: "apps_grow as bs \<Longrightarrow> apps_grow bs cs \<Longrightarrow> apps_grow as cs"
  unfolding apps_grow_def by (rule list_all2_trans [of _ _ _ as bs cs]) auto

lemma apps_grow_names: "apps_grow as bs \<Longrightarrow> map a_name bs = map a_name as"
  unfolding apps_grow_def by (induction as bs rule: list_all2_induct) auto

lemma apps_grow_find:
  "apps_grow as bs \<Longrightarrow> find_app name bs = Some b \<Longrightarrow>
     \<exists>a. find_app name as = Some a \<and> cb_write_pos (a_log a) \<le> cb_write_pos (a_log b)"
  unfolding apps_grow_def find_app_def by (induction as bs rule: list_all2_induct) (auto split: if_splits)

context calm_operation
begin

lemma with_app_grow:
  assumes "apps_inv E apps c" and "with_app name f apps c = (r, apps', c')" and "\<forall>x. r = Some x \<longrightarrow> \<not> is_panic x"
  shows "apps_grow apps apps'"
  using assms
proof (induction apps arbitrary: r apps' c')
  case (Cons a apps)
  obtain x a' c1 where F: "f a c = (x, a', c1)" by (rule prod_cases3)
  obtain y as c2 where R: "with_app name f apps c = (y, as, c2)" by (rule prod_cases3)
  from Cons.prems Cons.IH [OF _ R] op_log [OF _ F] op_name [OF F] F R show ?case by (auto split: if_splits)
qed simp

lemma with_app_calm:
  assumes "kernel_sound E" and "apps_inv E apps c" and "with_app name f apps c = (r, apps', c')" and "r = Some x"
  shows "\<not> is_panic x"
  using assms
proof (induction apps arbitrary: r apps' c')
  case (Cons a apps)
  obtain x' a' c1 where F: "f a c = (x', a', c1)" by (rule prod_cases3)
  obtain y as c2 where R: "with_app name f apps c = (y, as, c2)" by (rule prod_cases3)
  from Cons.prems Cons.IH [OF Cons.prems(1) _ R] op_calm [OF Cons.prems(1) _ F] F R show ?case by (auto split: if_splits)
qed simp

end

lemma start_all_calm:
  assumes "kernel_sound E" and "fresh_pipes E" and "apps_inv E apps c" and "start_all E J apps c = (r, apps', c')"
  shows "(\<exists>x. r = Ok x) \<and> apps_grow apps apps'"
  using assms
proof (induction apps arbitrary: c r apps' c')
  case (Cons a apps)
  obtain x a' c1 where F: "app_start E a c = (x, a', c1)" by (rule prod_cases3)
  obtain y apps2 c2 where R: "start_all E J apps c1 = (y, apps2, c2)" by (rule prod_cases3)
  have a: "app_inv E a c" using Cons.prems(3) by simp
  have ok: "\<not> is_panic x" by (rule start_calm.op_calm [OF Cons.prems(1) a F])
  have "apps_inv E apps c1" using start_op.op_step [OF Cons.prems(2,3) F ok] by simp
  from Cons.IH [OF Cons.prems(1,2) this R] start_calm.op_log [OF a F ok] app_start_name [OF F] Cons.prems(4) F R ok
  show ?case by (cases x) auto
qed auto

lemma stop_all_calm:
  assumes "kernel_sound E" and "fresh_pipes E" and "apps_inv E apps c" and "stop_all E J force apps c = (r, apps', c')"
  shows "(\<exists>x. r = Ok x) \<and> apps_grow apps apps'"
  using assms
proof (induction apps arbitrary: c r apps' c')
  case (Cons a apps)
  obtain x a' c1 where F: "app_stop E force a c = (x, a', c1)" by (rule prod_cases3)
  obtain y apps2 c2 where R: "stop_all E J force apps c1 = (y, apps2, c2)" by (rule prod_cases3)
  have a: "app_inv E a c" using Cons.prems(3) by simp
  have ok: "\<not> is_panic x" by (rule stop_calm.op_calm [OF Cons.prems(1) a F])
  have "apps_inv E apps c1" using stop_op.op_step [OF Cons.prems(2,3) F ok] by simp
  from Cons.IH [OF Cons.prems(1,2) this R] stop_calm.op_log [OF a F ok] app_stop_name [OF F] Cons.prems(4) F R ok
  show ?case by (cases x) auto
qed auto

lemma dispatch_request_calm:
  assumes sound: "kernel_sound E" and fresh: "fresh_pipes E" and inv: "apps_inv E apps c"
    and run: "dispatch_request E J q apps c = (r, apps', c')"
  shows "(\<exists>x. r = Ok x) \<and> apps_grow apps apps'"
proof (cases q)
  case ReqList
  with run show ?thesis by (auto simp: dispatch_request_def split: prod.splits)
next
  case (ReqInfo name)
  obtain x as c1 where W: "with_app name (info_of E) apps c = (x, as, c1)" by (rule prod_cases3)
  with with_app_reads [OF W info_of_reads] run ReqInfo show ?thesis
    by (auto simp: dispatch_request_def split: option.splits)
next
  case (ReqConfig name)
  let ?f = "\<lambda>a (c :: 'a ctx). (RespConfig (a_name a) (app_config_snapshot a), a, c)"
  obtain x as c1 where W: "with_app name ?f apps c = (x, as, c1)" by (rule prod_cases3)
  with with_app_reads [OF W] run ReqConfig show ?thesis
    by (auto simp: dispatch_request_def split: option.splits)
next
  case (ReqStart name)
  obtain x as c1 where W: "with_app name (app_start E) apps c = (x, as, c1)" by (rule prod_cases3)
  note c = start_calm.with_app_calm [OF sound inv W]
  with start_calm.with_app_grow [OF inv W] have "apps_grow apps as" by simp
  with c run ReqStart W show ?thesis by (auto simp: dispatch_request_def split: option.splits outcome.splits)
next
  case ReqStartAll
  obtain x as c1 where W: "start_all E J apps c = (x, as, c1)" by (rule prod_cases3)
  from start_all_calm [OF sound fresh inv W] run ReqStartAll W show ?thesis
    by (auto simp: dispatch_request_def)
next
  case (ReqStop name force)
  obtain x as c1 where W: "with_app name (app_stop E force) apps c = (x, as, c1)" by (rule prod_cases3)
  note c = stop_calm.with_app_calm [OF sound inv W]
  with stop_calm.with_app_grow [OF inv W] have "apps_grow apps as" by simp
  with c run ReqStop W show ?thesis by (auto simp: dispatch_request_def split: option.splits outcome.splits)
next
  case (ReqStopAll force)
  obtain x as c1 where W: "stop_all E J force apps c = (x, as, c1)" by (rule prod_cases3)
  from stop_all_calm [OF sound fresh inv W] run ReqStopAll W show ?thesis
    by (auto simp: dispatch_request_def)
qed

lemma answer_calm:
  assumes "kernel_sound E" and "fresh_pipes E" and "apps_inv E apps c" and "codec_laws J" and "answer E J t apps c = (r, apps', c')"
  shows "(\<exists>x. r = Ok x) \<and> apps_grow apps apps'"
  using dispatch_request_calm [OF assms(1-3)] assms(5) codec_no_panic [OF assms(4), of t]
  by (auto simp: answer_def split: outcome.splits)

lemma queue_response_calm:
  assumes "codec_laws J"
  obtains line where "queue_response J r conn = Ok (conn\<lparr>cn_write_buf := cn_write_buf conn @ as_bytes line @ [newline]\<rparr>)"
    and "cd_print_response J r = Ok line" and "one_line line"
proof -
  obtain s where "cd_print_response J r = Ok s" and "one_line s" by (rule codec_response [OF assms])
  then show thesis
    by (intro that [of s]) (simp_all add: queue_response_def newline_def as_bytes_def byte_of_char_def)
qed

lemma process_lines_calm:
  assumes "kernel_sound E" and "fresh_pipes E" and "apps_inv E apps c" and "codec_laws J"
    and "process_lines E J conn apps c = (r, conn', apps', c')"
  shows "r = Ok () \<and> apps_grow apps apps'"
  using assms
proof (induction "length (cn_read_buf conn)" arbitrary: conn apps c rule: less_induct)
  case less
  note sound = less.prems(1) and fresh = less.prems(2) and inv = less.prems(3) and J = less.prems(4) and run = less.prems(5)
  show ?case
  proof (cases "take_line (cn_read_buf conn)")
    case None
    with run show ?thesis by (subst (asm) process_lines.simps) simp
  next
    case (Some lr)
    obtain line rest where L: "take_line (cn_read_buf conn) = Some (line, rest)" using Some by (cases lr) simp
    let ?conn = "conn\<lparr>cn_read_buf := rest\<rparr>" and ?t = "trim (from_utf8_lossy line)"
    have short: "length rest < length (cn_read_buf conn)" using take_line_shorter [OF L] .
    show ?thesis
    proof (cases "?t = ''''")
      case True
      with run L have "process_lines E J ?conn apps c = (r, conn', apps', c')"
        by (subst (asm) process_lines.simps) simp
      from less.hyps [OF _ sound fresh inv J this] short show ?thesis by simp
    next
      case False
      obtain x as c1 where D: "answer E J ?t apps c = (x, as, c1)" by (rule prod_cases3)
      from answer_calm [OF sound fresh inv J D] obtain resp where x: "x = Ok resp" and g: "apps_grow apps as" by blast
      from answer_inv [OF fresh inv D] x have inv1: "apps_inv E as c1" by simp
      obtain s where Q: "queue_response J resp ?conn = Ok (?conn\<lparr>cn_write_buf := cn_write_buf ?conn @ as_bytes s @ [newline]\<rparr>)"
        by (rule queue_response_calm [OF J])
      from run process_lines_answer [OF L False D] x Q
      have "process_lines E J (?conn\<lparr>cn_write_buf := cn_write_buf ?conn @ as_bytes s @ [newline], cn_close_after_flush := True\<rparr>) as c1
          = (r, conn', apps', c')" by simp
      from less.hyps [OF _ sound fresh inv1 J this] short apps_grow_trans [OF g] show ?thesis by simp
    qed
  qed
qed

lemma read_end_calm: "\<not> is_panic (read_end s)"
  by (simp add: read_end_def split: option.split)

lemma handle_readable_calm:
  assumes sound: "kernel_sound E" and fresh: "fresh_pipes E" and inv: "apps_inv E apps c" and J: "codec_laws J"
    and run: "handle_readable E J tok apps sv c = (r, apps', sv', c')"
  shows "\<not> is_panic r \<and> apps_grow apps apps'"
proof (cases "map_of (sv_connections sv) tok")
  case None
  with run show ?thesis by (auto simp: handle_readable_def)
next
  case (Some conn)
  note eqs = read_all_eq [of "cn_stream conn" "cn_read_buf conn"]
  show ?thesis
  proof (cases "read_end (cn_stream conn)")
    case (Ok eof)
    define conn1 where "conn1 = conn\<lparr>cn_stream := (cn_stream conn)\<lparr>sk_in := []\<rparr>, cn_read_buf := cn_read_buf conn @ sk_in (cn_stream conn),
        cn_close_after_flush := cn_close_after_flush conn \<or> eof\<rparr>"
    obtain x conn2 as c1 where P: "process_lines E J conn1 apps c = (x, conn2, as, c1)" by (metis prod_cases4)
    with run Some Ok have "r = x" "apps' = as"
      by (simp_all add: handle_readable_def eqs conn1_def)
    with process_lines_calm [OF sound fresh inv J P] show ?thesis by simp
  next
    case (Err e)
    with run Some show ?thesis by (auto simp: handle_readable_def eqs)
  next
    case (Panic m)
    with read_end_calm [of "cn_stream conn"] show ?thesis by simp
  qed
qed

lemma write_loop_calm: "write_loop s buf split = (r, rest, s') \<Longrightarrow> \<not> is_panic r"
proof (induction s buf split rule: write_loop.induct)
  case (1 s buf split)
  obtain x s1 where W: "sock_write s (take (transfer (split (length buf)) (length buf)) buf) = (x, s1)" by force
  show ?case
  proof (cases x)
    case (Ok n)
    with 1 W show ?thesis by (subst (asm) (2) write_loop.simps) (auto split: if_splits)
  next
    case (Err e)
    with 1(2) W show ?thesis by (subst (asm) write_loop.simps) (auto split: if_splits)
  next
    case (Panic m)
    with W sock_write_no_panic show ?thesis by blast
  qed
qed

lemma handle_writable_calm: "handle_writable tok sv = (r, sv') \<Longrightarrow> \<not> is_panic r"
  by (auto simp: handle_writable_def dest: write_loop_calm split: option.splits prod.splits)

text \<open>What \<open>accept\<close> reports is a connection or an error.\<close>

lemma accept_all_calm:
  "\<forall>x \<in> set pending. \<not> is_panic x \<Longrightarrow> accept_all E J pending sv c = (r, sv', c') \<Longrightarrow> \<not> is_panic r"
proof (induction E J pending sv c rule: accept_all.induct)
  case (4 E J stream split pending sv c)
  then show ?case by (auto split: if_splits prod.splits option.splits)
qed (auto split: if_splits)

section \<open>The log server\<close>

text \<open>
  No cursor is ahead of the log it reads: what keeps \<open>read_from_cursor\<close> from underflowing.
\<close>

definition log_cursors_ok :: "app list \<Rightarrow> log_server \<Rightarrow> bool" where
  "log_cursors_ok apps sv \<longleftrightarrow>
     (\<forall>tok conn sub app. map_of (ls_connections sv) tok = Some conn \<longrightarrow> lconn_state conn = Streaming sub \<longrightarrow>
        find_app (sub_name sub) apps = Some app \<longrightarrow> sub_cursor sub \<le> cb_write_pos (a_log app))"

definition conn_cursor_ok :: "app list \<Rightarrow> log_conn \<Rightarrow> bool" where
  "conn_cursor_ok apps conn \<longleftrightarrow>
     (\<forall>sub app. lconn_state conn = Streaming sub \<longrightarrow> find_app (sub_name sub) apps = Some app \<longrightarrow>
        sub_cursor sub \<le> cb_write_pos (a_log app))"

lemma conn_cursor_okI: "lconn_state conn' = lconn_state conn \<Longrightarrow> conn_cursor_ok apps conn \<Longrightarrow> conn_cursor_ok apps conn'"
  by (simp add: conn_cursor_ok_def)

lemma conn_cursor_awaiting [simp]: "lconn_state conn = AwaitingRequest \<Longrightarrow> conn_cursor_ok apps conn"
  by (simp add: conn_cursor_ok_def)

lemma log_cursors_conn: "log_cursors_ok apps sv \<longleftrightarrow> (\<forall>tok conn. map_of (ls_connections sv) tok = Some conn \<longrightarrow> conn_cursor_ok apps conn)"
  by (auto simp: log_cursors_ok_def conn_cursor_ok_def)

lemma log_cursors_set: "log_cursors_ok apps sv \<Longrightarrow> conn_cursor_ok apps conn \<Longrightarrow> log_cursors_ok apps (set_log_conn tok conn sv)"
  by (simp add: log_cursors_conn)

lemma log_cursors_delete: "log_cursors_ok apps sv \<Longrightarrow>
    log_cursors_ok apps (sv\<lparr>ls_connections := AList.delete tok (ls_connections sv)\<rparr>)"
  by (auto simp: log_cursors_conn delete_conv' split: if_splits)

lemma log_cursors_get: "log_cursors_ok apps sv \<Longrightarrow> map_of (ls_connections sv) tok = Some conn \<Longrightarrow> conn_cursor_ok apps conn"
  by (simp add: log_cursors_conn)

lemma log_cursors_grow:
  assumes ok: "log_cursors_ok apps sv" and grow: "apps_grow apps apps'"
  shows "log_cursors_ok apps' sv"
  unfolding log_cursors_ok_def
proof (intro allI impI)
  fix tok conn sub app
  assume conn: "map_of (ls_connections sv) tok = Some conn" "lconn_state conn = Streaming sub"
    and "find_app (sub_name sub) apps' = Some app"
  then obtain old where "find_app (sub_name sub) apps = Some old" and le: "cb_write_pos (a_log old) \<le> cb_write_pos (a_log app)"
    using apps_grow_find [OF grow] by blast
  from ok [unfolded log_cursors_ok_def, rule_format, OF conn this(1)]
  have "sub_cursor sub \<le> cb_write_pos (a_log old)" .
  with le show "sub_cursor sub \<le> cb_write_pos (a_log app)" by simp
qed

lemma find_app_in: "find_app name apps = Some a \<Longrightarrow> a \<in> set apps \<and> a_name a = name"
  unfolding find_app_def by (induction apps) (auto split: if_splits)

lemma log_try_send_calm:
  assumes inv: "apps_inv E apps c" and ok: "log_cursors_ok apps sv" and run: "log_try_send apps tok sv = (r, sv')"
  shows "\<not> is_panic r \<and> log_cursors_ok apps sv'"
proof (cases "map_of (ls_connections sv) tok")
  case None
  with ok run show ?thesis by (auto simp: log_try_send_def)
next
  case conn: (Some conn)
  note okc = log_cursors_get [OF ok conn]
  show ?thesis
  proof (cases "lconn_state conn")
    case AwaitingRequest
    with conn ok run show ?thesis by (auto simp: log_try_send_def)
  next
    case sub: (Streaming sub)
    show ?thesis
    proof (cases "find_app (sub_name sub) apps")
      case None
      with conn sub run log_cursors_set [OF ok conn_cursor_okI [OF _ okc]] show ?thesis
        by (auto simp: log_try_send_def)
    next
      case app: (Some app)
      then have "app_inv E app c" using apps_inv_app [OF inv] find_app_in by blast
      then obtain hist where holds: "ring_holds (a_log app) hist" by (auto simp: app_inv_def log_inv_def)
      have le: "sub_cursor sub \<le> length hist"
        using okc sub app ring_holdsD(5) [OF holds] by (simp add: conn_cursor_ok_def)
      obtain x cursor' s' where L: "send_loop (log_bytes_from_cursor app) (sub_cursor sub) (lconn_stream conn) = (x, cursor', s')"
        by (rule prod_cases3)
      then have L': "send_loop (read_from_cursor (a_log app)) (sub_cursor sub) (lconn_stream conn) = (x, cursor', s')"
        by (simp add: log_bytes_from_cursor_eq)
      note S = circ.send_loop_spec [OF holds le ring_holdsD(6) [OF holds] L']
      have x: "\<not> is_panic x" and le': "cursor' \<le> cb_write_pos (a_log app)"
        using S by (auto simp: ring_holdsD(5) [OF holds])
      have "conn_cursor_ok apps conn'" if "lconn_state conn' = Streaming (sub\<lparr>sub_cursor := cursor'\<rparr>)" for conn'
        using that app le' by (simp add: conn_cursor_ok_def)
      with x conn sub app L run log_cursors_set [OF ok] show ?thesis
        by (cases x) (auto simp: log_try_send_def Let_def)
    qed
  qed
qed

lemma log_handle_readable_calm:
  assumes inv: "apps_inv E apps c" and ok: "log_cursors_ok apps sv" and run: "log_handle_readable apps tok sv = (r, sv')"
  shows "\<not> is_panic r \<and> log_cursors_ok apps sv'"
proof (cases "map_of (ls_connections sv) tok")
  case None
  with ok run show ?thesis by (auto simp: log_handle_readable_def)
next
  case conn: (Some conn)
  note okc = log_cursors_get [OF ok conn] and eqs = read_all_eq [of "lconn_stream conn" "lconn_read_buf conn"]
  note set_ok = log_cursors_set [OF ok] and same = conn_cursor_okI [OF _ okc]
  have sub0: "conn_cursor_ok apps conn'" if "lconn_state conn' = Streaming sub" "sub_cursor sub = 0" for conn' sub
    using that by (simp add: conn_cursor_ok_def)
  show ?thesis
  proof (cases "read_end (lconn_stream conn)")
    case (Ok eof)
    show ?thesis
    proof (cases "lconn_state conn")
      case (Streaming sub)
      define conn1 where "conn1 = conn\<lparr>lconn_stream := (lconn_stream conn)\<lparr>sk_in := []\<rparr>,
          lconn_read_buf := lconn_read_buf conn @ sk_in (lconn_stream conn),
          lconn_close_after_flush := lconn_close_after_flush conn \<or> eof\<rparr>"
      have s1: "lconn_state conn1 = lconn_state conn" by (simp add: conn1_def)
      have "log_try_send apps tok (set_log_conn tok conn1 sv) = (r, sv')"
        using conn Ok run Streaming by (simp add: log_handle_readable_def eqs Let_def conn1_def)
      from log_try_send_calm [OF inv set_ok [OF same [OF s1]] this] show ?thesis .
    next
      case AwaitingRequest
      have sent: "\<not> is_panic r' \<and> log_cursors_ok apps sv2"
        if "log_try_send apps tok (set_log_conn tok (conn1\<lparr>lconn_state := Streaming
            \<lparr>sub_name = n, sub_follow = f, sub_cursor = 0, sub_dump_until = b\<rparr>\<rparr>) sv) = (r', sv2)" for conn1 n f b r' sv2
        by (rule log_try_send_calm [OF inv set_ok [OF sub0] that]) auto
      from AwaitingRequest show ?thesis
        using conn Ok run set_ok [OF conn_cursor_awaiting]
        by (auto simp: log_handle_readable_def eqs Let_def split: option.splits if_splits dest: sent)
    qed
  next
    case (Err e)
    with conn run set_ok [OF same] show ?thesis by (auto simp: log_handle_readable_def eqs)
  next
    case (Panic m)
    with read_end_calm [of "lconn_stream conn"] show ?thesis by simp
  qed
qed

lemma log_accept_all_calm:
  "\<forall>x \<in> set pending. \<not> is_panic x \<Longrightarrow> log_cursors_ok apps sv \<Longrightarrow> log_accept_all E pending sv c = (r, sv', c') \<Longrightarrow>
     \<not> is_panic r \<and> log_cursors_ok apps sv'"
proof (induction E pending sv c rule: log_accept_all.induct)
  case (4 E stream pending sv c)
  have "log_cursors_ok apps (set_log_conn tok (log_conn_new stream) sv)" for tok
    using 4(5) by (rule log_cursors_set) (simp add: log_conn_new_def)
  with 4 show ?case by (auto split: if_splits prod.splits option.splits)
qed (auto split: if_splits)

lemma log_close_cursors: "log_cursors_ok apps sv \<Longrightarrow> log_close E tok sv c = (r, sv', c') \<Longrightarrow> log_cursors_ok apps sv'"
  by (auto simp: log_close_def Let_def log_cursors_delete split: option.splits)

lemma log_reconcile_cursors: "log_cursors_ok apps sv \<Longrightarrow> log_reconcile E tok sv c = (r, sv', c') \<Longrightarrow> log_cursors_ok apps sv'"
  by (auto simp: log_reconcile_def Let_def split: option.splits if_splits
      dest: log_close_cursors intro!: log_cursors_set intro: conn_cursor_okI [OF _ log_cursors_get])

lemma push_tokens_calm:
  assumes "apps_inv E apps c0" and "log_cursors_ok apps sv" and "ctx_ok E c" and "distinct (log_keys sv)"
    and "set (log_keys sv) \<subseteq> ctx_live E c" and "push_tokens E apps toks sv c = (r, sv', c')"
  shows "\<not> is_panic r \<and> log_cursors_ok apps sv'"
  using assms
proof (induction toks arbitrary: sv c)
  case Nil
  then show ?case by auto
next
  case (Cons tok toks)
  obtain x sv1 where S: "log_try_send apps tok sv = (x, sv1)" by force
  note K = log_try_send_keys [OF S] and T = log_try_send_calm [OF Cons.prems(1,2) S]
  have pre: "distinct (log_keys sv1)" "set (log_keys sv1) \<subseteq> ctx_live E c" using K Cons.prems by simp_all
  show ?case
  proof (cases x)
    case (Ok u)
    obtain y sv2 c2 where R: "log_reconcile E tok sv1 c = (y, sv2, c2)" by (rule prod_cases3)
    note RK = log_reconcile_keys [OF Cons.prems(3) pre R]
    then have t: "transfers E c (set (log_keys sv1)) c2 (set (log_keys sv2))" and d: "distinct (log_keys sv2)" by simp_all
    have "log_cursors_ok apps sv2" using log_reconcile_cursors [OF _ R] T by simp
    moreover have "push_tokens E apps toks sv2 c2 = (r, sv', c')" using Cons.prems(6) S Ok R RK by simp
    ultimately show ?thesis
      using Cons.IH [OF Cons.prems(1) _ transfersD(1) [OF t] d transfersD(4) [OF t]] by simp
  next
    case (Err e)
    obtain y sv2 c2 where R: "log_close E tok sv1 c = (y, sv2, c2)" by (rule prod_cases3)
    note RK = log_close_keys [OF Cons.prems(3) pre R]
    then have t: "transfers E c (set (log_keys sv1)) c2 (set (log_keys sv2))" and d: "distinct (log_keys sv2)" by metis+
    have "log_cursors_ok apps sv2" using log_close_cursors [OF _ R] T by simp
    moreover have "push_tokens E apps toks sv2 c2 = (r, sv', c')" using Cons.prems(6) S Err R RK by simp
    ultimately show ?thesis
      using Cons.IH [OF Cons.prems(1) _ transfersD(1) [OF t] d transfersD(4) [OF t]] by simp
  next
    case (Panic m)
    with T show ?thesis by simp
  qed
qed

end
