(* ===== verification/Daemon_Safety.thy ===== *)
theory Daemon_Safety
  imports Supervisor Server_Safety
begin

text \<open>
  The daemon as a whole: the invariant of everything it owns (\<open>daemon_inv\<close>), kept by every
  operation of the event loop and by the world outside, from start-up on; and that the loop never
  panics. \<open>daemon_reach\<close> are the states it gets into.
\<close>

section \<open>The loops over the apps\<close>

lemma for_apps_Cons:
  "f a c = (x, a', c1) \<Longrightarrow> for_apps f apps c1 = (p, apps2, c2) \<Longrightarrow>
     for_apps f (a # apps) c = (case x of Panic m \<Rightarrow> (Some m, a' # apps, c1) | _ \<Rightarrow> (p, a' # apps2, c2))"
  by (simp split: outcome.split)

context app_operation
begin

lemma for_apps_inv:
  assumes "fresh_pipes E" and "apps_inv E apps c" and "for_apps f apps c = (None, apps', c')"
  shows "apps_inv E apps' c' \<and> transfers E c (apps_tokens apps) c' (apps_tokens apps') \<and> map a_name apps' = map a_name apps"
  using assms
proof (induction apps arbitrary: c apps' c')
  case Nil
  then show ?case by (auto intro: transfers_same)
next
  case (Cons a apps)
  obtain x a' c1 where F: "f a c = (x, a', c1)" by (rule prod_cases3)
  obtain y apps2 c2 where R: "for_apps f apps c1 = (y, apps2, c2)" by (rule prod_cases3)
  from Cons.prems(3) for_apps_Cons [OF F R] have ok: "\<not> is_panic x" and eqs: "y = None" "apps' = a' # apps2" "c' = c2"
    by (auto split: outcome.splits)
  from R eqs(1) have R: "for_apps f apps c1 = (None, apps2, c2)" by simp
  show ?case
    unfolding eqs by (rule op_then_rest [OF Cons.prems(1,2) F ok]) (rule Cons.IH [OF Cons.prems(1) _ R])
qed

end

context calm_operation
begin

lemma for_apps_calm:
  assumes "kernel_sound E" and "fresh_pipes E" and "apps_inv E apps c" and "for_apps f apps c = (p, apps', c')"
  shows "p = None \<and> apps_grow apps apps'"
  using assms
proof (induction apps arbitrary: c p apps' c')
  case (Cons a apps)
  obtain x a' c1 where F: "f a c = (x, a', c1)" by (rule prod_cases3)
  obtain y apps2 c2 where R: "for_apps f apps c1 = (y, apps2, c2)" by (rule prod_cases3)
  have a: "app_inv E a c" using Cons.prems(3) by simp
  have ok: "\<not> is_panic x" by (rule op_calm [OF Cons.prems(1) a F])
  have "apps_inv E apps c1" using op_step [OF Cons.prems(2,3) F ok] by simp
  from Cons.IH [OF Cons.prems(1,2) this R] op_log [OF a F ok] op_name [OF F] Cons.prems(4) for_apps_Cons [OF F R] ok
  show ?case by (cases x) auto
qed simp

end

section \<open>The invariant of the daemon\<close>

text \<open>
  The owners of tokens are the apps, the control connections and the log connections. Each owns
  live tokens, no token has two owners, the two servers respect their limits, no log cursor is
  ahead of its log, and every token is above the reserved ones.
\<close>

definition daemon_inv :: "'s env \<Rightarrow> daemon \<Rightarrow> 's ctx \<Rightarrow> bool" where
  "daemon_inv E d c \<longleftrightarrow>
     apps_inv E (dm_apps d) c
   \<and> distinct (server_keys (dm_ipc d)) \<and> set (server_keys (dm_ipc d)) \<subseteq> ctx_live E c
   \<and> distinct (log_keys (dm_log d)) \<and> set (log_keys (dm_log d)) \<subseteq> ctx_live E c
   \<and> apps_tokens (dm_apps d) \<inter> set (server_keys (dm_ipc d)) = {}
   \<and> apps_tokens (dm_apps d) \<inter> set (log_keys (dm_log d)) = {}
   \<and> set (server_keys (dm_ipc d)) \<inter> set (log_keys (dm_log d)) = {}
   \<and> length (server_keys (dm_ipc d)) \<le> sv_max_connections (dm_ipc d)
   \<and> length (log_keys (dm_log d)) \<le> ls_max_connections (dm_log d)
   \<and> ts_offset (cx_slab c) = RESERVED_MIO_TOKENS
   \<and> log_cursors_ok (dm_apps d) (dm_log d)"

lemma daemon_invD:
  assumes "daemon_inv E d c"
  shows "apps_inv E (dm_apps d) c" and "ctx_ok E c"
    and "distinct (server_keys (dm_ipc d))" and "set (server_keys (dm_ipc d)) \<subseteq> ctx_live E c"
    and "distinct (log_keys (dm_log d))" and "set (log_keys (dm_log d)) \<subseteq> ctx_live E c"
    and "log_cursors_ok (dm_apps d) (dm_log d)"
  using assms by (auto simp: daemon_inv_def dest: apps_inv_ok)

text \<open>What one owner does leaves the invariant of the others.\<close>

lemma daemon_inv_apps:
  assumes inv: "daemon_inv E d c" and apps: "apps_inv E apps' c'"
    and t: "transfers E c (apps_tokens (dm_apps d)) c' (apps_tokens apps')" and grow: "apps_grow (dm_apps d) apps'"
  shows "daemon_inv E (d\<lparr>dm_apps := apps'\<rparr>) c'"
proof -
  have "set (server_keys (dm_ipc d)) \<inter> apps_tokens (dm_apps d) = {}" "set (log_keys (dm_log d)) \<inter> apps_tokens (dm_apps d) = {}"
    using inv by (auto simp: daemon_inv_def)
  note o1 = transfers_other [OF t daemon_invD(4) [OF inv] this(1)] and o2 = transfers_other [OF t daemon_invD(6) [OF inv] this(2)]
  with inv apps transfersD(3) [OF t] log_cursors_grow [OF daemon_invD(7) [OF inv] grow] show ?thesis
    by (auto simp: daemon_inv_def)
qed

lemma daemon_inv_ipc:
  assumes inv: "daemon_inv E d c" and d: "distinct (server_keys sv)" and max: "sv_max_connections sv = sv_max_connections (dm_ipc d)"
    and len: "length (server_keys sv) \<le> sv_max_connections (dm_ipc d)"
    and t: "transfers E c (set (server_keys (dm_ipc d))) c' (set (server_keys sv))"
  shows "daemon_inv E (d\<lparr>dm_ipc := sv\<rparr>) c'"
proof -
  have "set (server_keys (dm_ipc d)) \<inter> apps_tokens (dm_apps d) = {}" "set (log_keys (dm_log d)) \<inter> set (server_keys (dm_ipc d)) = {}"
    using inv by (auto simp: daemon_inv_def)
  note a = apps_inv_other [OF daemon_invD(1) [OF inv] t this(1)] and o = transfers_other [OF t daemon_invD(6) [OF inv] this(2)]
  with inv d max len transfersD(3,4) [OF t] show ?thesis
    by (auto simp: daemon_inv_def)
qed

lemma daemon_inv_log:
  assumes inv: "daemon_inv E d c" and d: "distinct (log_keys sv)" and max: "ls_max_connections sv = ls_max_connections (dm_log d)"
    and len: "length (log_keys sv) \<le> ls_max_connections (dm_log d)"
    and t: "transfers E c (set (log_keys (dm_log d))) c' (set (log_keys sv))" and cur: "log_cursors_ok (dm_apps d) sv"
  shows "daemon_inv E (d\<lparr>dm_log := sv\<rparr>) c'"
proof -
  have "set (log_keys (dm_log d)) \<inter> apps_tokens (dm_apps d) = {}" "set (server_keys (dm_ipc d)) \<inter> set (log_keys (dm_log d)) = {}"
    using inv by (auto simp: daemon_inv_def)
  note a = apps_inv_other [OF daemon_invD(1) [OF inv] t this(1)] and o = transfers_other [OF t daemon_invD(4) [OF inv] this(2)]
  with inv d max len cur transfersD(3,4) [OF t] show ?thesis
    by (auto simp: daemon_inv_def)
qed

lemma daemon_inv_ipc_same:
  assumes inv: "daemon_inv E d c" and "server_keys sv = server_keys (dm_ipc d)" and "sv_max_connections sv = sv_max_connections (dm_ipc d)"
  shows "daemon_inv E (d\<lparr>dm_ipc := sv\<rparr>) c"
  using inv assms by (auto simp: daemon_inv_def)

lemma daemon_inv_log_same:
  assumes inv: "daemon_inv E d c" and "log_keys sv = log_keys (dm_log d)" and "ls_max_connections sv = ls_max_connections (dm_log d)"
    and "log_cursors_ok (dm_apps d) sv"
  shows "daemon_inv E (d\<lparr>dm_log := sv\<rparr>) c"
  using inv assms by (auto simp: daemon_inv_def)

lemma daemon_inv_tick: "daemon_inv E d c \<Longrightarrow> cx_slab c' = cx_slab c \<Longrightarrow> daemon_inv E d c'"
  by (auto simp: daemon_inv_def intro: apps_inv_same)

section \<open>Every operation of the event loop keeps it\<close>

text \<open>
  The world the daemon runs in: a kernel that does its part, pipes that start empty, and a JSON
  library as documented.
\<close>

definition world :: "'s env \<Rightarrow> codec \<Rightarrow> bool" where
  "world E J \<longleftrightarrow> kernel_sound E \<and> fresh_pipes E \<and> codec_laws J"

definition event_sound :: "poll_event \<Rightarrow> bool" where
  "event_sound ev \<longleftrightarrow> (\<forall>x \<in> set (pe_control_pending ev). \<not> is_panic x) \<and> (\<forall>x \<in> set (pe_log_pending ev). \<not> is_panic x)"

lemma worldD: "world E J \<Longrightarrow> kernel_sound E" "world E J \<Longrightarrow> fresh_pipes E" "world E J \<Longrightarrow> codec_laws J"
  by (simp_all add: world_def)

lemma panic_of_None: "panic_of r = None \<longleftrightarrow> \<not> is_panic r"
  by (cases r) simp_all

context calm_operation
begin

lemma on_apps_safe:
  assumes sound: "kernel_sound E" and fresh: "fresh_pipes E" and inv: "daemon_inv E d c" and run: "on_apps f d c = (p, d', c')"
  shows "p = None \<and> daemon_inv E d' c'"
proof -
  obtain y apps2 c2 where R: "for_apps f (dm_apps d) c = (y, apps2, c2)" by (rule prod_cases3)
  note calm = for_apps_calm [OF sound fresh daemon_invD(1) [OF inv] R]
  then have "for_apps f (dm_apps d) c = (None, apps2, c2)" using R by simp
  from for_apps_inv [OF fresh daemon_invD(1) [OF inv] this] have "daemon_inv E (d\<lparr>dm_apps := apps2\<rparr>) c2"
    using daemon_inv_apps [OF inv] calm by blast
  with run R calm show ?thesis by (auto simp: on_apps_def)
qed

end

lemma close_control_safe: "daemon_inv E d c \<Longrightarrow> close_control E tok d c = (p, d', c') \<Longrightarrow> p = None \<and> daemon_inv E d' c'"
proof -
  assume inv: "daemon_inv E d c" and run: "close_control E tok d c = (p, d', c')"
  obtain r sv c1 where R: "close_conn E tok (dm_ipc d) c = (r, sv, c1)" by (rule prod_cases3)
  note K = close_conn_keys [OF daemon_invD(2-4) [OF inv] R]
  from inv have "length (server_keys (dm_ipc d)) \<le> sv_max_connections (dm_ipc d)" by (simp add: daemon_inv_def)
  moreover from K have "length (server_keys sv) \<le> length (server_keys (dm_ipc d))" by simp
  ultimately have "length (server_keys sv) \<le> sv_max_connections (dm_ipc d)" by linarith
  with K have "daemon_inv E (d\<lparr>dm_ipc := sv\<rparr>) c1" by (intro daemon_inv_ipc [OF inv]) blast+
  with run R K show ?thesis by (auto simp: close_control_def)
qed

lemma close_log_safe: "daemon_inv E d c \<Longrightarrow> close_log E tok d c = (p, d', c') \<Longrightarrow> p = None \<and> daemon_inv E d' c'"
proof -
  assume inv: "daemon_inv E d c" and run: "close_log E tok d c = (p, d', c')"
  obtain r sv c1 where R: "log_close E tok (dm_log d) c = (r, sv, c1)" by (rule prod_cases3)
  note K = log_close_keys [OF daemon_invD(2,5,6) [OF inv] R]
  from inv have "length (log_keys (dm_log d)) \<le> ls_max_connections (dm_log d)" by (simp add: daemon_inv_def)
  moreover from K have "length (log_keys sv) \<le> length (log_keys (dm_log d))" by simp
  ultimately have "length (log_keys sv) \<le> ls_max_connections (dm_log d)" by linarith
  with K log_close_cursors [OF daemon_invD(7) [OF inv] R] have "daemon_inv E (d\<lparr>dm_log := sv\<rparr>) c1"
    by (intro daemon_inv_log [OF inv]) blast+
  with run R K show ?thesis by (auto simp: close_log_def)
qed

lemma reconcile_control_safe: "daemon_inv E d c \<Longrightarrow> reconcile_control E tok d c = (p, d', c') \<Longrightarrow> p = None \<and> daemon_inv E d' c'"
proof -
  assume inv: "daemon_inv E d c" and run: "reconcile_control E tok d c = (p, d', c')"
  obtain r sv c1 where R: "reconcile E tok (dm_ipc d) c = (r, sv, c1)" by (rule prod_cases3)
  note K = reconcile_keys [OF daemon_invD(2-4) [OF inv] R]
  from inv have "length (server_keys (dm_ipc d)) \<le> sv_max_connections (dm_ipc d)" by (simp add: daemon_inv_def)
  with run R K daemon_inv_ipc [OF inv, of sv c1] show ?thesis by (auto simp: reconcile_control_def)
qed

lemma reconcile_log_safe: "daemon_inv E d c \<Longrightarrow> reconcile_log E tok d c = (p, d', c') \<Longrightarrow> p = None \<and> daemon_inv E d' c'"
proof -
  assume inv: "daemon_inv E d c" and run: "reconcile_log E tok d c = (p, d', c')"
  obtain r sv c1 where R: "log_reconcile E tok (dm_log d) c = (r, sv, c1)" by (rule prod_cases3)
  note K = log_reconcile_keys [OF daemon_invD(2,5,6) [OF inv] R]
  from inv have "length (log_keys (dm_log d)) \<le> ls_max_connections (dm_log d)" by (simp add: daemon_inv_def)
  with run R K daemon_inv_log [OF inv, of sv c1] log_reconcile_cursors [OF daemon_invD(7) [OF inv] R]
  show ?thesis by (auto simp: reconcile_log_def)
qed

lemma control_read_safe:
  assumes w: "world E J" and inv: "daemon_inv E d c" and run: "control_read E J ev d c = (r, d', c')"
  shows "\<not> is_panic r \<and> daemon_inv E d' c'"
proof (cases "ev_readable (pe_io ev)")
  case True
  obtain x as sv c1 where R: "handle_readable E J (pe_token ev) (dm_apps d) (dm_ipc d) c = (x, as, sv, c1)" by (rule prod_cases4)
  note calm = handle_readable_calm [OF worldD(1,2) [OF w] daemon_invD(1) [OF inv] worldD(3) [OF w] R]
  then have I: "apps_inv E as c1" "transfers E c (apps_tokens (dm_apps d)) c1 (apps_tokens as)"
    and K: "server_keys sv = server_keys (dm_ipc d)" "sv_max_connections sv = sv_max_connections (dm_ipc d)"
    using handle_readable_inv [OF worldD(2) [OF w] daemon_invD(1) [OF inv] R] by simp_all
  have "daemon_inv E (d\<lparr>dm_apps := as\<rparr>) c1"
    using daemon_inv_apps [OF inv I] calm by simp
  from daemon_inv_ipc_same [OF this, of sv] K run R calm True show ?thesis
    by (auto simp: control_read_def)
next
  case False
  with run inv show ?thesis by (auto simp: control_read_def)
qed

lemma control_write_safe:
  assumes inv: "daemon_inv E d c" and run: "control_write ev d = (r, d')"
  shows "\<not> is_panic r \<and> daemon_inv E d' c"
proof (cases "ev_writable (pe_io ev)")
  case True
  obtain x sv where R: "handle_writable (pe_token ev) (dm_ipc d) = (x, sv)" by force
  from daemon_inv_ipc_same [OF inv, of sv] handle_writable_keys [OF R] handle_writable_calm [OF R] run R True
  show ?thesis by (auto simp: control_write_def)
next
  case False
  with run inv show ?thesis by (auto simp: control_write_def)
qed

lemma control_event_safe:
  assumes w: "world E J" and inv: "daemon_inv E d c" and run: "control_event E J ev d c = (p, d', c')"
  shows "p = None \<and> daemon_inv E d' c'"
proof -
  obtain r d1 c1 where R: "control_read E J ev d c = (r, d1, c1)" by (rule prod_cases3)
  obtain x d2 where W: "control_write ev d1 = (x, d2)" by force
  note S = control_read_safe [OF w inv R] and T = control_write_safe [OF conjunct2 [OF control_read_safe [OF w inv R]] W]
  show ?thesis
    by (cases r; cases x) (use run R W S T in \<open>auto simp: control_event_def dest: close_control_safe reconcile_control_safe\<close>)
qed

lemma log_read_safe:
  assumes inv: "daemon_inv E d c" and run: "log_read ev d = (r, d')"
  shows "\<not> is_panic r \<and> daemon_inv E d' c"
proof (cases "ev_readable (pe_io ev)")
  case True
  obtain x sv where R: "log_handle_readable (dm_apps d) (pe_token ev) (dm_log d) = (x, sv)" by force
  from daemon_inv_log_same [OF inv, of sv] log_handle_readable_keys [OF R]
    log_handle_readable_calm [OF daemon_invD(1,7) [OF inv] R] run R True
  show ?thesis by (auto simp: log_read_def)
next
  case False
  with run inv show ?thesis by (auto simp: log_read_def)
qed

lemma log_write_safe:
  assumes inv: "daemon_inv E d c" and run: "log_write ev d = (r, d')"
  shows "\<not> is_panic r \<and> daemon_inv E d' c"
proof (cases "ev_writable (pe_io ev)")
  case True
  obtain x sv where R: "log_handle_writable (dm_apps d) (pe_token ev) (dm_log d) = (x, sv)" by force
  then have S: "log_try_send (dm_apps d) (pe_token ev) (dm_log d) = (x, sv)" by (simp add: log_handle_writable_def)
  from daemon_inv_log_same [OF inv, of sv] log_try_send_keys [OF S]
    log_try_send_calm [OF daemon_invD(1,7) [OF inv] S] run R True
  show ?thesis by (auto simp: log_write_def)
next
  case False
  with run inv show ?thesis by (auto simp: log_write_def)
qed

lemma log_event_safe:
  assumes inv: "daemon_inv E d c" and run: "log_event E ev d c = (p, d', c')"
  shows "p = None \<and> daemon_inv E d' c'"
proof -
  obtain r d1 where R: "log_read ev d = (r, d1)" by force
  obtain x d2 where W: "log_write ev d1 = (x, d2)" by force
  note S = log_read_safe [OF inv R] and T = log_write_safe [OF conjunct2 [OF log_read_safe [OF inv R]] W]
  show ?thesis
    by (cases r; cases x) (use run R W S T in \<open>auto simp: log_event_def dest: close_log_safe reconcile_log_safe\<close>)
qed

lemma accept_control_safe:
  assumes inv: "daemon_inv E d c" and ok: "\<forall>x \<in> set pending. \<not> is_panic x"
    and run: "accept_all E J pending (dm_ipc d) c = (r, sv, c')"
  shows "\<not> is_panic r \<and> daemon_inv E (d\<lparr>dm_ipc := sv\<rparr>) c'"
proof -
  from inv have "length (server_keys (dm_ipc d)) \<le> sv_max_connections (dm_ipc d)" by (simp add: daemon_inv_def)
  with accept_all_keys [OF daemon_invD(2-4) [OF inv] run] accept_all_calm [OF ok run] daemon_inv_ipc [OF inv, of sv c']
  show ?thesis by auto
qed

lemma accept_log_safe:
  assumes inv: "daemon_inv E d c" and ok: "\<forall>x \<in> set pending. \<not> is_panic x"
    and run: "log_accept_all E pending (dm_log d) c = (r, sv, c')"
  shows "\<not> is_panic r \<and> daemon_inv E (d\<lparr>dm_log := sv\<rparr>) c'"
proof -
  from inv have "length (log_keys (dm_log d)) \<le> ls_max_connections (dm_log d)" by (simp add: daemon_inv_def)
  with log_accept_all_keys [OF daemon_invD(2,5,6) [OF inv] run] log_accept_all_calm [OF ok daemon_invD(7) [OF inv] run]
    daemon_inv_log [OF inv, of sv c']
  show ?thesis by auto
qed

lemma daemon_inv_flags: "daemon_inv E d c \<Longrightarrow> daemon_inv E (d\<lparr>dm_sigint_count := n, dm_stopping := s\<rparr>) c"
  by (simp add: daemon_inv_def)

lemma dispatch_event_safe:
  assumes w: "world E J" and ev: "event_sound ev" and inv: "daemon_inv E d c" and run: "dispatch_event E J ev d c = (p, d', c')"
  shows "p = None \<and> daemon_inv E d' c'"
proof -
  obtain r1 sv1 c1 where A: "accept_all E J (pe_control_pending ev) (dm_ipc d) c = (r1, sv1, c1)" by (rule prod_cases3)
  obtain r2 sv2 c2 where L: "log_accept_all E (pe_log_pending ev) (dm_log d) c = (r2, sv2, c2)" by (rule prod_cases3)
  from ev have "\<forall>x \<in> set (pe_control_pending ev). \<not> is_panic x" "\<forall>x \<in> set (pe_log_pending ev). \<not> is_panic x"
    by (simp_all add: event_sound_def)
  note SA = accept_control_safe [OF inv this(1) A] and SL = accept_log_safe [OF inv this(2) L]
  show ?thesis
    using run A L SA SL inv daemon_inv_flags [OF inv] control_event_safe [OF w inv] log_event_safe [OF inv]
      poll_calm.on_apps_safe [OF worldD(1,2) [OF w] inv]
    by (auto simp: dispatch_event_def panic_of_None split: if_splits)
qed

lemma dispatch_events_safe:
  assumes "world E J" and "\<forall>ev \<in> set evs. event_sound ev" and "daemon_inv E d c" and "dispatch_events E J evs d c = (p, d', c')"
  shows "p = None \<and> daemon_inv E d' c'"
  using assms
proof (induction evs arbitrary: d c)
  case (Cons ev evs)
  obtain x d1 c1 where D: "dispatch_event E J ev d c = (x, d1, c1)" by (rule prod_cases3)
  have S: "x = None \<and> daemon_inv E d1 c1" by (rule dispatch_event_safe [OF _ _ _ D]) (use Cons.prems in simp_all)
  with Cons.IH [OF Cons.prems(1), of d1 c1] Cons.prems D show ?case by simp
qed simp

lemma push_logs_safe:
  assumes inv: "daemon_inv E d c" and run: "push_logs E d c = (p, d', c')"
  shows "p = None \<and> daemon_inv E d' c'"
proof -
  obtain r sv c1 where R: "push_updates E (dm_apps d) (dm_log d) c = (r, sv, c1)" by (rule prod_cases3)
  note P = R [unfolded push_updates_def]
  note C = push_tokens_calm [OF daemon_invD(1,7,2,5,6) [OF inv] P]
  from inv have "length (log_keys (dm_log d)) \<le> ls_max_connections (dm_log d)" by (simp add: daemon_inv_def)
  with push_tokens_keys [OF daemon_invD(2,5,6) [OF inv] P] C daemon_inv_log [OF inv, of sv c1] run R
  show ?thesis by (auto simp: push_logs_def panic_of_None)
qed

lemma fire_restarts_safe:
  assumes w: "world E J" and inv: "daemon_inv E d c" and run: "fire_restarts E d c = (p, d', c')"
  shows "p = None \<and> daemon_inv E d' c'"
  by (rule restart_calm.on_apps_safe [OF worldD(1,2) [OF w] daemon_inv_tick [OF inv] run [unfolded fire_restarts_def]]) simp

lemma forward_sigint_safe:
  assumes w: "world E J" and inv: "daemon_inv E d c" and run: "forward_sigint E d c = (p, d', c')"
  shows "p = None \<and> daemon_inv E d' c'"
  using run inv stop_calm.on_apps_safe [OF worldD(1,2) [OF w] inv]
  by (auto simp: forward_sigint_def split: if_splits)

lemma loop_iteration_safe:
  assumes w: "world E J" and evs: "\<forall>ev \<in> set evs. event_sound ev" and inv: "daemon_inv E d c"
    and run: "loop_iteration E J keep evs d c = (r, d', c')"
  shows "r = Ok (should_exit keep d') \<and> daemon_inv E d' c'"
proof -
  obtain p1 d1 c1 where 1: "dispatch_events E J evs d c = (p1, d1, c1)" by (rule prod_cases3)
  from dispatch_events_safe [OF w evs inv 1] have s1: "p1 = None" "daemon_inv E d1 c1" by simp_all
  obtain p2 d2 c2 where 2: "push_logs E d1 c1 = (p2, d2, c2)" by (rule prod_cases3)
  from push_logs_safe [OF s1(2) 2] have s2: "p2 = None" "daemon_inv E d2 c2" by simp_all
  obtain p3 d3 c3 where 3: "fire_restarts E d2 c2 = (p3, d3, c3)" by (rule prod_cases3)
  from fire_restarts_safe [OF w s2(2) 3] have s3: "p3 = None" "daemon_inv E d3 c3" by simp_all
  obtain p4 d4 c4 where 4: "forward_sigint E d3 c3 = (p4, d4, c4)" by (rule prod_cases3)
  from forward_sigint_safe [OF w s3(2) 4] have s4: "p4 = None" "daemon_inv E d4 c4" by simp_all
  from run show ?thesis using s4(2) by (auto simp: loop_iteration_def 1 2 3 4 s1 s2 s3 s4)
qed


section \<open>Start-up\<close>

lemma app_create_fresh:
  assumes fresh: "fresh_pipes E" and ok: "ctx_ok E c" and size: "ap_log_buffer_size params < usize_bound"
    and run: "app_create E params echo c = (Ok a, c')"
  shows "app_inv E a c' \<and> transfers E c {} c' (set (app_tokens a))"
proof -
  have pos: "0 < ap_log_buffer_size params"
  proof (rule ccontr)
    assume "\<not> 0 < ap_log_buffer_size params"
    with run show False
      by (auto simp: app_create_def bindM_Ok run_simps new_sealed_def new_from_memfd_buffer_def mmap_ring_buffer_def
          sys_mmap_def usize_add_def split: if_splits outcome.splits)
  qed
  note L = app_create_log [OF run pos size]
  from run show ?thesis
  proof (cases rule: app_create_cases)
    case (autostarted rt c1)
    have "log_room a"
      using autostarted(3) rt_start_fresh [OF fresh autostarted(2)] ring_holdsD(5) [OF L(1)]
      by (simp add: log_room_def app_pending_def usize_bound_def)
    with app_create_inv [OF ok pos size run] rt_start_transfers [OF ok autostarted(2)] autostarted(3,4)
    show ?thesis by (auto simp: app_tokens_def transfers_slab_eq' [of c1 c'])
  next
    case dormant
    have "log_room a"
      using dormant(2) ring_holdsD(5) [OF L(1)] by (simp add: log_room_def app_pending_def usize_bound_def)
    with app_create_inv [OF ok pos size run] dormant(2,3) ok show ?thesis
      by (auto simp: app_tokens_def intro!: transfers_same)
  qed
qed

lemma expect_run: "(case x of (r, c') \<Rightarrow> (expect m r, c')) = (Ok a, c1) \<longleftrightarrow> x = (Ok a, c1)"
  by (cases x; cases "fst x") auto

lemma create_apps_inv:
  assumes fresh: "fresh_pipes E" and ok: "ctx_ok E c" and default: "default_size < usize_bound"
    and sizes: "\<forall>cfg \<in> set cfgs. \<forall>n. cf_log_buffer_size cfg = Some n \<longrightarrow> n < usize_bound"
    and run: "create_apps E H default_size echo cfgs c = (Ok apps, c')"
  shows "apps_inv E apps c' \<and> transfers E c {} c' (apps_tokens apps)"
  using ok sizes run
proof (induction cfgs arbitrary: c apps)
  case Nil
  then show ?case by (auto simp: run_simps intro: transfers_same)
next
  case (Cons cfg cfgs)
  from Cons.prems(3) obtain params a c1 as where p: "app_params_of H (env_page_size E) default_size cfg = Ok params"
    and a: "app_create E params echo c = (Ok a, c1)" and rest: "create_apps E H default_size echo cfgs c1 = (Ok as, c')"
    and apps: "apps = a # as"
    by (auto simp: bindM_Ok run_simps expect_run dest: sym)
  have "ap_log_buffer_size params < usize_bound"
    using p Cons.prems(2) default
    by (cases "cf_log_buffer_size cfg") (auto simp: app_params_of_def Let_def split: outcome.splits)
  from app_create_fresh [OF fresh Cons.prems(1) this a] have inv: "app_inv E a c1"
    and t: "transfers E c {} c1 (set (app_tokens a))" by simp_all
  from Cons.IH [OF transfersD(1) [OF t] _ rest] Cons.prems(2) have I: "apps_inv E as c'"
    and t2: "transfers E c1 {} c' (apps_tokens as)" by simp_all
  have l: "set (app_tokens a) \<subseteq> ctx_live E c1" using app_inv_live [OF inv] by simp
  note o = transfers_other [OF t2 l]
  have "app_inv E a c'" using app_inv_frame [OF inv transfersD(1) [OF t2]] o by simp
  moreover have "transfers E c {} c' (set (app_tokens a) \<union> apps_tokens as)"
    using transfers_trans [OF t] transfers_frame [OF t2 l] by (simp add: Un_commute)
  ultimately show ?case using I o by (simp add: apps)
qed

text \<open>The sizes of the configuration are machine words: every size is a \<open>usize\<close>.\<close>

definition config_words :: "fs_api \<Rightarrow> global_config \<Rightarrow> string \<Rightarrow> bool" where
  "config_words F cfg path \<longleftrightarrow>
     gc_log_buffer_size cfg < usize_bound \<and> gc_max_mio_tokens cfg < key_bound
   \<and> (\<forall>a \<in> set (all_apps F cfg path). \<forall>n. cf_log_buffer_size a = Some n \<longrightarrow> n < usize_bound)"

lemma daemon_init_inv:
  assumes fresh: "fresh_pipes E" and slab: "slab_laws (env_slab E)" and words: "config_words F cfg path"
    and run: "daemon_init E H F cfg path echo = (Ok d, c)"
  shows "daemon_inv E d c"
proof -
  have max: "gc_max_mio_tokens cfg < key_bound" and def: "gc_log_buffer_size cfg < usize_bound"
    and sizes: "\<forall>a \<in> set (all_apps F cfg path). \<forall>n. cf_log_buffer_size a = Some n \<longrightarrow> n < usize_bound"
    using words by (simp_all add: config_words_def)
  let ?c0 = "runtime_init E (gc_max_mio_tokens cfg)"
  have ok: "ctx_ok E ?c0"
    using token_slab_new_ok(1) [OF slab _ max, of RESERVED_MIO_TOKENS]
    by (simp add: runtime_init_def RESERVED_MIO_TOKENS_def key_bound_def)
  have off: "ts_offset (cx_slab ?c0) = RESERVED_MIO_TOKENS"
    by (simp add: runtime_init_def token_slab_new_def)
  from run obtain apps where apps: "create_apps E H (gc_log_buffer_size cfg) echo (all_apps F cfg path) ?c0 = (Ok apps, c)"
    and d: "d = \<lparr>dm_apps = apps, dm_stopping = False, dm_sigint_count = 0,
      dm_ipc = server_new (gc_max_control_connections cfg), dm_log = log_server_new (gc_max_log_connections cfg)\<rparr>"
    by (auto simp: daemon_init_def bindM_Ok run_simps)
  from create_apps_inv [OF fresh ok def sizes apps] off show ?thesis
    by (auto simp: d daemon_inv_def server_new_def log_server_new_def server_keys_def log_keys_def log_cursors_ok_def
        dest: transfersD(3))
qed

section \<open>The running daemon\<close>

text \<open>
  Between two iterations the world goes on: processes write to their pipes and close them, clients
  write, read and hang up.
\<close>

definition app_outside :: "app \<Rightarrow> app \<Rightarrow> bool" where
  "app_outside a a' \<longleftrightarrow>
     a' = a \<or> (\<exists>rt p q. a_state a = Running rt \<and> a' = a\<lparr>a_state := Running (rt\<lparr>rt_stdout := p, rt_stderr := q\<rparr>)\<rparr> \<and> log_room a')"

definition conn_outside :: "token \<times> connection \<Rightarrow> token \<times> connection \<Rightarrow> bool" where
  "conn_outside x y \<longleftrightarrow> (\<exists>tok conn s. x = (tok, conn) \<and> y = (tok, conn\<lparr>cn_stream := s\<rparr>))"

definition lconn_outside :: "token \<times> log_conn \<Rightarrow> token \<times> log_conn \<Rightarrow> bool" where
  "lconn_outside x y \<longleftrightarrow> (\<exists>tok conn s. x = (tok, conn) \<and> y = (tok, conn\<lparr>lconn_stream := s\<rparr>))"

definition outside :: "daemon \<Rightarrow> daemon \<Rightarrow> bool" where
  "outside d d' \<longleftrightarrow>
     list_all2 app_outside (dm_apps d) (dm_apps d')
   \<and> list_all2 conn_outside (sv_connections (dm_ipc d)) (sv_connections (dm_ipc d'))
   \<and> list_all2 lconn_outside (ls_connections (dm_log d)) (ls_connections (dm_log d'))
   \<and> sv_max_connections (dm_ipc d') = sv_max_connections (dm_ipc d)
   \<and> ls_max_connections (dm_log d') = ls_max_connections (dm_log d)
   \<and> dm_stopping d' = dm_stopping d \<and> dm_sigint_count d' = dm_sigint_count d"

inductive daemon_reach :: "'s env \<Rightarrow> codec \<Rightarrow> bool \<Rightarrow> daemon \<times> 's ctx \<Rightarrow> bool" for E J keep where
  reach_init: "config_words F cfg path \<Longrightarrow> daemon_init E H F cfg path echo = (Ok d, c) \<Longrightarrow> daemon_reach E J keep (d, c)"
| reach_iteration: "daemon_reach E J keep (d, c) \<Longrightarrow> \<forall>ev \<in> set evs. event_sound ev \<Longrightarrow>
    loop_iteration E J keep evs d c = (Ok b, d', c') \<Longrightarrow> daemon_reach E J keep (d', c')"
| reach_outside: "daemon_reach E J keep (d, c) \<Longrightarrow> outside d d' \<Longrightarrow> daemon_reach E J keep (d', c)"

lemma app_outside_inv:
  assumes inv: "app_inv E a c" and out: "app_outside a a'"
  shows "app_inv E a' c \<and> app_tokens a' = app_tokens a \<and> a_name a' = a_name a \<and> a_log a' = a_log a"
proof (cases "a' = a")
  case False
  with out obtain rt p q where st: "a_state a = Running rt"
    and a': "a' = a\<lparr>a_state := Running (rt\<lparr>rt_stdout := p, rt_stderr := q\<rparr>)\<rparr>" and room: "log_room a'"
    by (auto simp: app_outside_def)
  from app_step_inv [OF inv step_output [OF st a' room]] st a' show ?thesis
    by (simp add: app_tokens_def rt_token_list_def)
qed (use inv in simp)

lemma apps_outside_inv:
  "list_all2 app_outside apps apps' \<Longrightarrow> apps_inv E apps c \<Longrightarrow>
     apps_inv E apps' c \<and> apps_tokens apps' = apps_tokens apps \<and> apps_grow apps apps'"
proof (induction apps apps' rule: list_all2_induct)
  case (Cons a apps a' apps')
  from Cons.prems have "app_inv E a c" by simp
  from app_outside_inv [OF this Cons.hyps(1)] Cons.IH Cons.prems show ?case by auto
qed simp

lemma conns_outside_keys: "list_all2 conn_outside xs ys \<Longrightarrow> map fst ys = map fst xs"
  by (induction xs ys rule: list_all2_induct) (auto simp: conn_outside_def)

lemma lconns_outside_keys: "list_all2 lconn_outside xs ys \<Longrightarrow> map fst ys = map fst xs"
  by (induction xs ys rule: list_all2_induct) (auto simp: lconn_outside_def)

lemma lconns_outside_get:
  "list_all2 lconn_outside xs ys \<Longrightarrow> map_of ys t = Some conn' \<Longrightarrow>
     \<exists>conn. map_of xs t = Some conn \<and> lconn_state conn' = lconn_state conn"
  by (induction xs ys rule: list_all2_induct) (auto simp: lconn_outside_def split: if_splits)

lemma outside_inv:
  assumes inv: "daemon_inv E d c" and out: "outside d d'"
  shows "daemon_inv E d' c"
proof -
  note a = apps_outside_inv [OF _ daemon_invD(1) [OF inv], of "dm_apps d'"]
  have k: "server_keys (dm_ipc d') = server_keys (dm_ipc d)" "log_keys (dm_log d') = log_keys (dm_log d)"
    using out conns_outside_keys lconns_outside_keys by (auto simp: outside_def server_keys_def log_keys_def)
  have "log_cursors_ok (dm_apps d) (dm_log d')"
    unfolding log_cursors_conn
  proof (intro allI impI)
    fix tok conn'
    assume "map_of (ls_connections (dm_log d')) tok = Some conn'"
    with lconns_outside_get [of "ls_connections (dm_log d)"] out obtain conn where
      "map_of (ls_connections (dm_log d)) tok = Some conn" and s: "lconn_state conn' = lconn_state conn"
      unfolding outside_def by blast
    with log_cursors_get [OF daemon_invD(7) [OF inv]] conn_cursor_okI [OF s] show "conn_cursor_ok (dm_apps d) conn'" by blast
  qed
  with a log_cursors_grow k inv out show ?thesis
    unfolding outside_def daemon_inv_def by simp
qed

lemma daemon_reach_inv:
  assumes w: "world E J" and slab: "slab_laws (env_slab E)" and "daemon_reach E J keep (d, c)"
  shows "daemon_inv E d c"
  using assms(3)
proof (induction "(d, c)" arbitrary: d c rule: daemon_reach.induct)
  case (reach_init F cfg path H echo d c)
  with daemon_init_inv [OF worldD(2) [OF w] slab] show ?case by blast
next
  case (reach_iteration d c evs b d' c')
  with loop_iteration_safe [OF w] show ?case by blast
next
  case (reach_outside d c d')
  with outside_inv show ?case by blast
qed


end
