(* ===== verification/Codec_Sample.thy ===== *)
theory Codec_Sample
  imports Protocol
begin

text \<open>
  A codec that satisfies \<open>codec_laws\<close>, for concrete runs: a message is a letter for its
  constructor and its fields in hexadecimal with the digits \<open>a\<close> to \<open>p\<close>. It shows that the
  documented laws of the JSON library can hold together.
\<close>

section \<open>Strings\<close>

definition digit :: "nat \<Rightarrow> char" where
  "digit n = char_of (97 + n)"

fun enc :: "string \<Rightarrow> string" where
  "enc [] = []"
| "enc (c # cs) = digit (of_char c div 16) # digit (of_char c mod 16) # enc cs"

fun dec :: "string \<Rightarrow> string" where
  "dec (a # b # r) = char_of ((of_char a - 97) * 16 + (of_char b - 97) :: nat) # dec r"
| "dec _ = []"

lemma of_char_digit [simp]: "n < 16 \<Longrightarrow> of_char (digit n) = 97 + n"
  by (simp add: digit_def)

lemma of_char_div: "(of_char c :: nat) div 16 < 16"
  using nat_of_char_less_256 [of c] by linarith

lemma dec_enc [simp]: "dec (enc s) = s"
  by (induction s) (simp_all add: of_char_div)

text \<open>Hexadecimal digits, and all the characters in use.\<close>

definition is_digit :: "char \<Rightarrow> bool" where
  "is_digit c \<longleftrightarrow> 97 \<le> (of_char c :: nat) \<and> (of_char c :: nat) < 113"

definition is_letter :: "char \<Rightarrow> bool" where
  "is_letter c \<longleftrightarrow> 65 \<le> (of_char c :: nat) \<and> (of_char c :: nat) < 123"

lemma is_letter_digit: "is_digit c \<Longrightarrow> is_letter c"
  by (simp add: is_digit_def is_letter_def)

lemma enc_digits: "list_all is_digit (enc s)"
  by (induction s) (simp_all add: is_digit_def of_char_div)

lemma enc_letters [simp]: "list_all is_letter (enc s)"
  using enc_digits by (rule list.pred_mono_strong) (rule is_letter_digit)

lemma enc_no [simp]: "\<not> is_digit d \<Longrightarrow> d \<notin> set (enc s)"
  using enc_digits [of s] by (auto simp: list_all_iff)

text \<open>A nonempty word of letters is a line: no blank, no line break, plain ASCII.\<close>

lemma white_space_not_letter: "list_all (\<lambda>w. w \<noteq> [] \<and> \<not> is_letter (hd w) \<and> \<not> is_letter (last w)) white_space"
  by (simp add: white_space_def is_letter_def)

lemma strip_ws_letters:
  assumes "list_all (\<lambda>w. w \<noteq> [] \<and> \<not> is_letter (hd w)) ws" and "list_all is_letter s"
  shows "strip_ws ws s = s"
proof -
  have "\<not> prefix w s" if "w \<in> set ws" for w
    using assms that by (cases w; cases s) (auto simp: list_all_iff)
  then have "find (\<lambda>w. w \<noteq> [] \<and> prefix w s) ws = None"
    by (auto simp: find_None_iff)
  then show ?thesis by (simp add: strip_ws.simps)
qed

lemma letters_one_line:
  assumes "list_all is_letter s" and "s \<noteq> []"
  shows "one_line s"
proof -
  have "list_all (\<lambda>w. w \<noteq> [] \<and> \<not> is_letter (hd w)) white_space"
    "list_all (\<lambda>w. w \<noteq> [] \<and> \<not> is_letter (hd w)) (map rev white_space)"
    using white_space_not_letter by (auto simp: list_all_iff hd_rev)
  with assms(1) have "trim s = s"
    by (simp add: trim_def strip_ws_letters list_all_rev)
  moreover have "CHR 0x0A \<notin> set s" using assms(1) by (auto simp: list_all_iff is_letter_def)
  moreover have "valid_utf8 (as_bytes s)"
  proof (rule valid_utf8_ascii)
    have "byte_of_char c < 0x80" if "is_letter c" for c
      using that by (simp add: is_letter_def byte_of_char_def word_less_nat_alt unat_of_nat)
    with assms(1) show "\<forall>b \<in> set (as_bytes s). b < 0x80"
      by (auto simp: as_bytes_def list_all_iff)
  qed
  ultimately show ?thesis using assms(2) by (simp add: one_line_def)
qed

section \<open>Lists\<close>

definition enc_list :: "string list \<Rightarrow> string" where
  "enc_list xs = concat (map (\<lambda>x. enc x @ ''Z'') xs)"

definition dec_list :: "string \<Rightarrow> string list" where
  "dec_list s = map dec (butlast (str_split CHR ''Z'' s))"

lemma str_split_not_Nil [simp]: "str_split d s \<noteq> []"
  by (induction s) (auto split: list.split)

lemma str_split_append: "d \<notin> set w \<Longrightarrow> str_split d (w @ d # s) = w # str_split d s"
  by (induction w) (auto split: list.split)

lemma dec_enc_list [simp]: "dec_list (enc_list xs) = xs"
proof -
  have "str_split CHR ''Z'' (enc_list xs) = map enc xs @ [[]]"
    by (induction xs) (simp_all add: enc_list_def str_split_append is_digit_def)
  then show ?thesis by (simp add: dec_list_def comp_def)
qed

lemma enc_list_letters [simp]: "list_all is_letter (enc_list xs)"
  by (induction xs) (simp_all add: enc_list_def is_letter_def [of "CHR ''Z''"])

lemma enc_list_no [simp]: "\<not> is_digit d \<Longrightarrow> d \<noteq> CHR ''Z'' \<Longrightarrow> d \<notin> set (enc_list xs)"
  by (auto simp: enc_list_def)

definition enc_pairs :: "('a \<Rightarrow> string) \<Rightarrow> ('a \<Rightarrow> string) \<Rightarrow> 'a list \<Rightarrow> string" where
  "enc_pairs f g xs = enc_list (concat (map (\<lambda>x. [f x, g x]) xs))"

fun pairs :: "(string \<Rightarrow> string \<Rightarrow> 'a) \<Rightarrow> string list \<Rightarrow> 'a list" where
  "pairs mk (a # b # r) = mk a b # pairs mk r"
| "pairs mk _ = []"

lemma pairs_enc: "(\<And>x. mk (f x) (g x) = x) \<Longrightarrow> pairs mk (concat (map (\<lambda>x. [f x, g x]) xs)) = xs"
  by (induction xs) simp_all

section \<open>Messages\<close>

fun sample_print_request :: "request \<Rightarrow> string" where
  "sample_print_request ReqList = ''L''"
| "sample_print_request (ReqInfo n) = CHR ''I'' # enc n"
| "sample_print_request (ReqConfig n) = CHR ''C'' # enc n"
| "sample_print_request (ReqStart n) = CHR ''S'' # enc n"
| "sample_print_request ReqStartAll = ''A''"
| "sample_print_request (ReqStop n force) = (if force then CHR ''K'' else CHR ''T'') # enc n"
| "sample_print_request (ReqStopAll force) = (if force then ''X'' else ''Y'')"

fun sample_parse_request :: "string \<Rightarrow> (string, request) outcome" where
  "sample_parse_request [] = Err ''EOF while parsing a value''"
| "sample_parse_request (tag # n) =
     (if tag = CHR ''L'' then Ok ReqList
      else if tag = CHR ''I'' then Ok (ReqInfo (dec n))
      else if tag = CHR ''C'' then Ok (ReqConfig (dec n))
      else if tag = CHR ''S'' then Ok (ReqStart (dec n))
      else if tag = CHR ''A'' then Ok ReqStartAll
      else if tag = CHR ''K'' then Ok (ReqStop (dec n) True)
      else if tag = CHR ''T'' then Ok (ReqStop (dec n) False)
      else if tag = CHR ''X'' then Ok (ReqStopAll True)
      else if tag = CHR ''Y'' then Ok (ReqStopAll False)
      else Err ''expected value'')"

fun sample_print_response :: "response \<Rightarrow> string" where
  "sample_print_response (RespStarted n) = CHR ''S'' # enc n"
| "sample_print_response (RespStartedAll ok bad) = CHR ''A'' # enc_list ok @ CHR ''W'' # enc_pairs sf_name sf_message bad"
| "sample_print_response (RespStopped n b) = (if b then CHR ''K'' else CHR ''T'') # enc n"
| "sample_print_response (RespStoppedAll ok bad) = CHR ''X'' # enc_list ok @ CHR ''W'' # enc_pairs pf_name pf_message bad"
| "sample_print_response (RespAppNotFound n apps) = CHR ''N'' # enc_list (n # apps)"
| "sample_print_response (RespError m) = CHR ''E'' # enc m"
| "sample_print_response _ = ''Q''"

fun sample_parse_response :: "string \<Rightarrow> (string, response) outcome" where
  "sample_parse_response [] = Err ''EOF while parsing a value''"
| "sample_parse_response (tag # r) =
     (if tag = CHR ''S'' then Ok (RespStarted (dec r))
      else if tag = CHR ''K'' then Ok (RespStopped (dec r) True)
      else if tag = CHR ''T'' then Ok (RespStopped (dec r) False)
      else if tag = CHR ''E'' then Ok (RespError (dec r))
      else if tag = CHR ''N'' then Ok (RespAppNotFound (hd (dec_list r)) (tl (dec_list r)))
      else case split_once CHR ''W'' r of
        None \<Rightarrow> Err ''expected value''
      | Some (ok, bad) \<Rightarrow>
          if tag = CHR ''A'' then Ok (RespStartedAll (dec_list ok) (pairs (\<lambda>n m. \<lparr>sf_name = n, sf_message = m\<rparr>) (dec_list bad)))
          else if tag = CHR ''X'' then Ok (RespStoppedAll (dec_list ok) (pairs (\<lambda>n m. \<lparr>pf_name = n, pf_message = m\<rparr>) (dec_list bad)))
          else Err ''expected value'')"

definition sample_codec :: codec where
  "sample_codec =
     \<lparr>cd_print_request = (\<lambda>q. Ok (sample_print_request q)), cd_parse_request = sample_parse_request,
      cd_print_response = (\<lambda>r. Ok (sample_print_response r)), cd_parse_response = sample_parse_response,
      cd_io_msg = (\<lambda>_. ''I/O error'')\<rparr>"

lemma sample_request_round: "sample_parse_request (sample_print_request q) = Ok q"
  by (cases q) simp_all

lemma sample_response_round: "plain_response r \<Longrightarrow> sample_parse_response (sample_print_response r) = Ok r"
  by (cases r) (simp_all add: plain_response_def split_once_join is_digit_def enc_pairs_def pairs_enc)

lemma sample_request_letters: "list_all is_letter (sample_print_request q) \<and> sample_print_request q \<noteq> []"
  by (cases q) (simp_all add: is_letter_def)

lemma sample_response_letters: "list_all is_letter (sample_print_response r) \<and> sample_print_response r \<noteq> []"
  by (cases r) (simp_all add: is_letter_def enc_pairs_def)

lemma sample_parse_no_panic: "sample_parse_request s \<noteq> Panic m"
  by (cases s) simp_all

lemma sample_codec_laws: "codec_laws sample_codec"
  using sample_request_letters sample_response_letters
  by (simp add: codec_laws_def sample_codec_def letters_one_line sample_request_round sample_response_round sample_parse_no_panic)

end
