(* ===== verification/Supervisor_Correct.thy ===== *)
theory Supervisor_Correct
  imports Daemon_Safety Codec_Sample
begin

text \<open>
  The properties of the daemon: ownership of tokens, absence of panics, routing of events, the
  timer of the restarts, and shutdown on SIGINT; with a concrete daemon of two apps for the
  witnesses.
\<close>

section \<open>A concrete daemon\<close>

text \<open>
  The environment of theory AppRuntime, with empty pipes and a \<open>waitpid\<close> that reports the child
  it was asked for; two configured apps, of which one is started.
\<close>

definition quiet_pipe :: pipe where
  "quiet_pipe = \<lparr>pipe_data = [], pipe_writers = True, pipe_resp = \<lambda>_. SpliceMoves 100\<rparr>"

definition sound_env :: "(nat \<times> token option list) env" where
  "sound_env = sample_env
     \<lparr>env_spawn := \<lambda>_. sample_spawn\<lparr>sp_stdout_pipe := Ok quiet_pipe, sp_stderr_pipe := Ok quiet_pipe\<rparr>,
      env_waitpid := \<lambda>_ pid. (pid, 1)\<rparr>"

definition sample_config_of :: "string \<Rightarrow> bool \<Rightarrow> app_config" where
  "sample_config_of name autostart =
     \<lparr>cf_name = Some name, cf_command = ''/bin/run -v'', cf_workdir = Some ''/srv'', cf_user = Some (Id 33), cf_group = None,
      cf_env = None, cf_oneshot = False, cf_autostart = autostart, cf_restart = restart_policy_default,
      cf_cgroup = \<lparr>cpu_weight = None, io_weight = None, memory_hard_limit = None, memory_soft_limit = None,
        memory_swap_limit = None\<rparr>,
      cf_log_buffer_size = Some 8\<rparr>"

definition sample_global :: global_config where
  "sample_global = global_config_default
     \<lparr>gc_apps := [sample_config_of ''web'' True, sample_config_of ''job'' False], gc_max_mio_tokens := 8,
      gc_log_buffer_size := 8\<rparr>"

definition sample_host :: host where
  "sample_host = \<lparr>ho_getcwd = (Errno 0, Some [47, 0]), ho_uid = 0, ho_gid = 0, ho_getpwnam = (\<lambda>_. None), ho_getgrnam = (\<lambda>_. None)\<rparr>"

definition sample_fs :: fs_api where
  "sample_fs =
     \<lparr>fs_read_to_string = (\<lambda>_. Err WouldBlock), fs_canonicalize = (\<lambda>_. None), fs_read_dir = (\<lambda>_. Ok []),
      fs_is_file = (\<lambda>_. False), fs_parse_global = (\<lambda>_. Err ''''), fs_parse_app = (\<lambda>_. Err '''')\<rparr>"

lemma sound_env_simps [simp]:
  "env_slab sound_env = vec_slab" "env_page_size sound_env = 4" "env_register sound_env n = None"
  "env_spawn sound_env n = sample_spawn\<lparr>sp_stdout_pipe := Ok quiet_pipe, sp_stderr_pipe := Ok quiet_pipe\<rparr>"
  "env_stop sound_env n = sample_stop" "env_waitpid sound_env n p = (p, 1)"
  "env_now sound_env n = 1000 * n" "env_memfd sound_env n i = Ok 0" "env_mmap sound_env n i = Ok 0"
  "env_kill sound_env n = (WouldBlock, 0)"
  by (simp_all add: sound_env_def sample_env_def)

lemma sound_world: "world sound_env sample_codec"
  by (simp add: world_def kernel_sound_def fresh_pipes_def spawn_sound_def sample_spawn_def sample_stop_def quiet_pipe_def
      sample_codec_laws as_c_int_def)

lemma sound_words: "config_words sample_fs sample_global ''lway.yaml''"
  by (auto simp: config_words_def sample_global_def sample_fs_def all_apps_def scan_apps_dir_def sample_config_of_def
      global_config_default_def usize_bound_def key_bound_def)

definition daemon_rt :: app_runtime where
  "daemon_rt =
     \<lparr>rt_pid = 100, rt_cgroup = ''lway/web'', rt_stdout = quiet_pipe, rt_stderr = quiet_pipe, rt_pidfd = 10,
      rt_tokens = \<lparr>tk_pidfd = Token 3, tk_stdout = Token 4, tk_stderr = Token 5\<rparr>, rt_started_at = 5, rt_proper_cleanup = False\<rparr>"

definition daemon_app :: "string \<Rightarrow> bool \<Rightarrow> app_state \<Rightarrow> app" where
  "daemon_app name autostart st =
     \<lparr>a_name = name,
      a_params = \<lparr>ap_cwd = ''/srv'', ap_name = name, ap_prog = ''/bin/run'', ap_args = [''/bin/run'', ''-v''], ap_uid = 33, ap_gid = 0,
        ap_env = [], ap_oneshot = False,
        ap_cgroup = \<lparr>cpu_weight = None, io_weight = None, memory_hard_limit = None, memory_soft_limit = None,
          memory_swap_limit = None\<rparr>,
        ap_autostart = autostart, ap_restart = restart_policy_default, ap_log_buffer_size = 8\<rparr>,
      a_state = st, a_stats = app_runtime_stats_default, a_stop_requested = False,
      a_log = \<lparr>cb_map = \<lparr>rm_size = 8, rm_file = [0, 0, 0, 0, 0, 0, 0, 0]\<rparr>, cb_capacity = 8, cb_write_pos = 0\<rparr>, a_echo = False\<rparr>"

definition sample_daemon :: daemon where
  "sample_daemon =
     \<lparr>dm_apps = [daemon_app ''web'' True (Running daemon_rt), daemon_app ''job'' False (Stopped None)], dm_stopping = False,
      dm_sigint_count = 0, dm_ipc = server_new 32, dm_log = log_server_new 32\<rparr>"

definition daemon_ctx :: "(nat \<times> token option list) ctx" where
  "daemon_ctx =
     \<lparr>cx_slab = \<lparr>ts_slab = (8, [Some (Token 3), Some (Token 4), Some (Token 5)]), ts_offset = 3\<rparr>, cx_tick = 3,
      cx_trace = [Spawned ''lway/web'' 100, Registered (Token 3), Registered (Token 4), Registered (Token 5)]\<rparr>"

lemma sample_daemon_init: "daemon_init sound_env sample_host sample_fs sample_global ''lway.yaml'' False = (Ok sample_daemon, daemon_ctx)"
  by (simp add: daemon_init_def start_evals runtime_init_def token_slab_new_def RESERVED_MIO_TOKENS_def sample_global_def
      global_config_default_def all_apps_def scan_apps_dir_def sample_fs_def sample_config_of_def app_params_of_def
      validate_log_buffer_size_def resolved_uid_def resolved_gid_def resolve_id_def sample_host_def app_create_def
      new_sealed_def new_from_memfd_buffer_def mmap_ring_buffer_def sys_mmap_def replicate_8 sample_daemon_def
      daemon_app_def daemon_rt_def daemon_ctx_def)

lemma sample_daemon_reach: "daemon_reach sound_env sample_codec False (sample_daemon, daemon_ctx)"
  by (rule reach_init [OF sound_words sample_daemon_init])

section \<open>Properties of the daemon\<close>

text \<open>All the tokens somebody in the daemon owns.\<close>

definition owned :: "daemon \<Rightarrow> token list" where
  "owned d = concat (map app_tokens (dm_apps d)) @ server_keys (dm_ipc d) @ log_keys (dm_log d)"

lemma set_concat_tokens: "set (concat (map app_tokens apps)) = apps_tokens apps"
  by (simp add: apps_tokens_def)

lemma apps_inv_distinct: "apps_inv E apps c \<Longrightarrow> distinct (concat (map app_tokens apps))"
proof (induction apps)
  case (Cons a apps)
  then have "distinct (app_tokens a)" "set (app_tokens a) \<inter> set (concat (map app_tokens apps)) = {}"
    unfolding set_concat_tokens using app_inv_live [of E a c] by simp_all
  with Cons show ?case by simp
qed simp

lemma owned_ok:
  assumes "daemon_inv E d c"
  shows "distinct (owned d) \<and> set (owned d) \<subseteq> ctx_live E c"
  using assms apps_inv_distinct [OF daemon_invD(1) [OF assms]] apps_inv_live [OF daemon_invD(1) [OF assms]]
  unfolding owned_def daemon_inv_def set_append distinct_append set_concat_tokens by blast

lemma owned_not_reserved:
  assumes inv: "daemon_inv E d c" and t: "t \<in> set (owned d)"
  shows "t \<notin> {UNIX_LISTENER_TOKEN, SIGNALFD_TOKEN, LOG_LISTENER_TOKEN}"
proof -
  have "t \<in> ctx_live E c" using owned_ok [OF inv] t by blast
  then obtain k where "t = Token (RESERVED_MIO_TOKENS + k)"
    using daemon_invD(2) [OF inv] inv unfolding slab_ok_def live_def ran_def daemon_inv_def by auto
  then show ?thesis
    by (simp add: UNIX_LISTENER_TOKEN_def SIGNALFD_TOKEN_def LOG_LISTENER_TOKEN_def RESERVED_MIO_TOKENS_def)
qed

text \<open>
  C1. No token ever has two owners: in every state the daemon reaches, over any sequence of
  requests, events, exits, restarts and signals, the tokens of the apps, of the control
  connections and of the log connections are all distinct, all allocated, and none is one of the
  three reserved tokens; and neither server holds more connections than its limit.
\<close>

theorem daemon_tokens_disjoint:
  assumes "world E J" and "slab_laws (env_slab E)" and "daemon_reach E J keep (d, c)"
  shows "distinct (owned d) \<and> set (owned d) \<subseteq> ctx_live E c
    \<and> set (owned d) \<inter> {UNIX_LISTENER_TOKEN, SIGNALFD_TOKEN, LOG_LISTENER_TOKEN} = {}
    \<and> length (sv_connections (dm_ipc d)) \<le> sv_max_connections (dm_ipc d)
    \<and> length (ls_connections (dm_log d)) \<le> ls_max_connections (dm_log d)"
proof -
  have inv: "daemon_inv E d c" using daemon_reach_inv [OF assms] .
  then show ?thesis
    using owned_ok [OF inv] owned_not_reserved [OF inv]
    unfolding daemon_inv_def server_keys_def log_keys_def length_map by blast
qed

lemma daemon_tokens_disjoint_witness:
  "distinct (owned sample_daemon) \<and> set (owned sample_daemon) \<subseteq> ctx_live sound_env daemon_ctx"
  using daemon_tokens_disjoint [OF sound_world _ sample_daemon_reach] vec_slab_laws by simp



subsection \<open>Events\<close>

lemma poll_foreign: "tok \<notin> set (app_tokens a) \<Longrightarrow> app_poll E tok ev tr a c = (Ok (), a, c)"
  by (auto simp: app_poll_def app_tokens_def rt_token_list_def poll_stdio_def get_stdio_def split: app_state.split)

lemma for_apps_foreign: "tok \<notin> apps_tokens apps \<Longrightarrow> for_apps (app_poll E tok ev tr) apps c = (None, apps, c)"
  by (induction apps) (simp_all add: poll_foreign)

lemma for_apps_owner:
  assumes "distinct (concat (map app_tokens apps))" and "i < length apps" and "tok \<in> set (app_tokens (apps ! i))"
    and "app_poll E tok ev tr (apps ! i) c = (r, a', c')"
  shows "for_apps (app_poll E tok ev tr) apps c = (panic_of r, apps[i := a'], c')"
  using assms
proof (induction apps arbitrary: i)
  case (Cons a apps)
  have disj: "set (app_tokens a) \<inter> apps_tokens apps = {}" and d: "distinct (concat (map app_tokens apps))"
    using Cons.prems(1) unfolding list.map concat.simps distinct_append set_concat_tokens by blast+
  show ?case
  proof (cases i)
    case 0
    with Cons.prems disj have "tok \<notin> apps_tokens apps" by auto
    with Cons.prems 0 show ?thesis by (cases r) (simp_all add: for_apps_foreign)
  next
    case (Suc j)
    with Cons.prems have j: "j < length apps" "tok \<in> set (app_tokens (apps ! j))" by simp_all
    then have "tok \<in> apps_tokens apps" unfolding apps_tokens_def using nth_mem by blast
    with disj have "tok \<notin> set (app_tokens a)" by blast
    with Cons.IH [OF d j] Cons.prems(4) Suc show ?thesis by (simp add: poll_foreign)
  qed
qed simp

lemma dispatch_to_owner:
  assumes inv: "daemon_inv E d c" and "pe_token ev \<notin> {UNIX_LISTENER_TOKEN, SIGNALFD_TOKEN, LOG_LISTENER_TOKEN}"
    and "pe_token ev \<notin> set (server_keys (dm_ipc d))" and "pe_token ev \<notin> set (log_keys (dm_log d))"
  shows "dispatch_event E J ev d c =
     (case find (\<lambda>i. pe_token ev \<in> set (app_tokens (dm_apps d ! i))) [0..<length (dm_apps d)] of
        None \<Rightarrow> (None, d, c)
      | Some i \<Rightarrow>
          (case app_poll E (pe_token ev) (pe_io ev) (\<not> dm_stopping d) (dm_apps d ! i) c of
             (r, a', c') \<Rightarrow> (panic_of r, d\<lparr>dm_apps := (dm_apps d)[i := a']\<rparr>, c')))"
proof -
  have k: "\<not> is_known (dm_ipc d) (pe_token ev)" "\<not> log_is_known (dm_log d) (pe_token ev)"
    using assms(3,4) by (simp_all add: is_known_keys log_is_known_def log_keys_def map_of_eq_None_iff)
  have D: "dispatch_event E J ev d c = on_apps (app_poll E (pe_token ev) (pe_io ev) (\<not> dm_stopping d)) d c"
    using assms(2) k by (simp add: dispatch_event_def)
  let ?P = "\<lambda>i. pe_token ev \<in> set (app_tokens (dm_apps d ! i))"
  show ?thesis
  proof (cases "find ?P [0..<length (dm_apps d)]")
    case None
    then have "\<forall>i < length (dm_apps d). \<not> ?P i" by (auto simp: find_None_iff)
    then have "pe_token ev \<notin> apps_tokens (dm_apps d)" by (auto simp: apps_tokens_def in_set_conv_nth)
    with D None show ?thesis by (simp add: on_apps_def for_apps_foreign)
  next
    case (Some i)
    then have i: "i < length (dm_apps d)" "?P i" by (auto simp: find_Some_iff)
    obtain r a' c' where P: "app_poll E (pe_token ev) (pe_io ev) (\<not> dm_stopping d) (dm_apps d ! i) c = (r, a', c')"
      by (rule prod_cases3)
    from for_apps_owner [OF apps_inv_distinct [OF daemon_invD(1) [OF inv]] i P] D Some P show ?thesis
      by (simp add: on_apps_def)
  qed
qed

text \<open>
  C16. An event reaches its owner and nobody else: an event on a descriptor of an app is polled by
  exactly that app, whatever the order of the apps; the others, both servers and the shutdown
  flags stay as they are. An event on a token nobody owns (one left over in the batch after its
  connection or process is gone) changes nothing at all.
\<close>

theorem event_reaches_owner:
  assumes "world E J" and "slab_laws (env_slab E)" and "daemon_reach E J keep (d, c)"
    and "pe_token ev \<notin> {UNIX_LISTENER_TOKEN, SIGNALFD_TOKEN, LOG_LISTENER_TOKEN}"
    and "pe_token ev \<notin> set (server_keys (dm_ipc d))" and "pe_token ev \<notin> set (log_keys (dm_log d))"
  shows "dispatch_event E J ev d c =
     (case find (\<lambda>i. pe_token ev \<in> set (app_tokens (dm_apps d ! i))) [0..<length (dm_apps d)] of
        None \<Rightarrow> (None, d, c)
      | Some i \<Rightarrow>
          (case app_poll E (pe_token ev) (pe_io ev) (\<not> dm_stopping d) (dm_apps d ! i) c of
             (r, a', c') \<Rightarrow> (panic_of r, d\<lparr>dm_apps := (dm_apps d)[i := a']\<rparr>, c')))"
  by (rule dispatch_to_owner [OF daemon_reach_inv [OF assms(1-3)] assms(4-6)])

definition pipe_event :: "nat \<Rightarrow> poll_event" where
  "pipe_event k = \<lparr>pe_token = Token k, pe_io = sample_event, pe_signal = (0, 0), pe_control_pending = [], pe_log_pending = []\<rparr>"

lemma event_reaches_owner_witness:
  "dispatch_event sound_env sample_codec (pipe_event 7) sample_daemon daemon_ctx = (None, sample_daemon, daemon_ctx)"
  using event_reaches_owner [OF sound_world _ sample_daemon_reach, of "pipe_event 7"] vec_slab_laws
  by (simp add: pipe_event_def UNIX_LISTENER_TOKEN_def SIGNALFD_TOKEN_def LOG_LISTENER_TOKEN_def sample_daemon_def
      server_new_def log_server_new_def server_keys_def log_keys_def daemon_app_def app_tokens_def daemon_rt_def
      rt_token_list_def upt_rec)


subsection \<open>Timers\<close>

lemma min_deadline_None: "min_deadline apps = None \<longleftrightarrow> (\<forall>a \<in> set apps. pending_restart_deadline a = None)"
  by (induction apps) (auto split: option.splits)

lemma min_deadline_Some:
  "min_deadline apps = Some d \<Longrightarrow>
     (\<exists>a \<in> set apps. pending_restart_deadline a = Some d) \<and> (\<forall>a \<in> set apps. \<forall>d'. pending_restart_deadline a = Some d' \<longrightarrow> d \<le> d')"
proof (induction apps arbitrary: d)
  case (Cons a apps)
  show ?case
  proof (cases "min_deadline apps")
    case None
    with Cons.prems min_deadline_None [of apps] show ?thesis by (auto split: option.splits)
  next
    case (Some m)
    from Cons.IH [OF Some] Cons.prems Some show ?thesis
      by (cases "pending_restart_deadline a") (auto simp: min_def split: if_splits)
  qed
qed simp

text \<open>
  C21. The loop sleeps until the earliest pending restart and no longer: \<open>poll\<close> gets no timeout
  exactly when no restart is pending, a timeout never reaches past any app's deadline (an overdue
  one gives 0), and it ends exactly at the deadline of some app.
\<close>

theorem poll_timeout_exact:
  "case poll_timeout now d of
     None \<Rightarrow> (\<forall>a \<in> set (dm_apps d). pending_restart_deadline a = None)
   | Some t \<Rightarrow>
       (\<forall>a \<in> set (dm_apps d). case pending_restart_deadline a of None \<Rightarrow> True | Some dl \<Rightarrow> now + t \<le> max now dl)
     \<and> (\<exists>a \<in> set (dm_apps d). \<exists>dl. pending_restart_deadline a = Some dl \<and> now + t = max now dl)"
proof (cases "min_deadline (dm_apps d)")
  case None
  with min_deadline_None [of "dm_apps d"] show ?thesis by (simp add: poll_timeout_def)
next
  case (Some m)
  have t: "now + duration_since m now = max now m" by (simp add: duration_since_def)
  have "max now m \<le> max now dl" if "m \<le> dl" for dl using that by simp
  with min_deadline_Some [OF Some] show ?thesis
    by (simp add: poll_timeout_def Some t split: option.split) blast
qed

lemma poll_timeout_exact_witness:
  "\<exists>t dl. poll_timeout 5 (sample_daemon\<lparr>dm_apps := [sample_down]\<rparr>) = Some t
     \<and> pending_restart_deadline sample_down = Some dl \<and> 5 + t = max 5 dl"
  using poll_timeout_exact [of "sample_daemon\<lparr>dm_apps := [sample_down]\<rparr>" 5]
  by (auto simp: sample_down_def sample_app_def pending_restart_deadline_def split: option.splits)

text \<open>What a loop over the apps does to each of them.\<close>

lemma for_apps_each:
  assumes "for_apps f apps c = (None, apps', c')" and "\<And>a c r a' c'. f a c = (r, a', c') \<Longrightarrow> \<not> is_panic r \<Longrightarrow> P a a'"
  shows "list_all2 P apps apps'"
  using assms(1)
proof (induction apps arbitrary: c apps' c')
  case (Cons a apps)
  obtain x a' c1 where F: "f a c = (x, a', c1)" by (rule prod_cases3)
  obtain y apps2 c2 where R: "for_apps f apps c1 = (y, apps2, c2)" by (rule prod_cases3)
  from Cons.prems for_apps_Cons [OF F R] have ok: "\<not> is_panic x" and eqs: "y = None" "apps' = a' # apps2"
    by (auto split: outcome.splits)
  from Cons.IH [OF R [unfolded eqs(1)]] assms(2) [OF F ok] show ?case by (simp add: eqs(2))
qed simp

lemma list_all2_right: "list_all2 (\<lambda>_. Q) xs ys \<Longrightarrow> \<forall>y \<in> set ys. Q y"
  by (induction rule: list_all2_induct) simp_all

lemma on_apps_each:
  assumes "on_apps f d c = (None, d', c')" and "\<And>a c r a' c'. f a c = (r, a', c') \<Longrightarrow> \<not> is_panic r \<Longrightarrow> Q a'"
  shows "(\<forall>a \<in> set (dm_apps d'). Q a) \<and> d' = d\<lparr>dm_apps := dm_apps d'\<rparr>"
proof -
  from assms(1) obtain apps' where run: "for_apps f (dm_apps d) c = (None, apps', c')" and d': "d' = d\<lparr>dm_apps := apps'\<rparr>"
    by (auto simp: on_apps_def split: prod.splits)
  from for_apps_each [OF run, where P = "\<lambda>_. Q"] assms(2) have "list_all2 (\<lambda>_. Q) (dm_apps d) apps'" by blast
  from list_all2_right [OF this] show ?thesis by (simp add: d')
qed

lemma maybe_restart_not_overdue:
  assumes "maybe_restart E now allow a c = (r, a', c')" and "\<not> is_panic r"
  shows "case pending_restart_deadline a' of None \<Rightarrow> True | Some dl \<Rightarrow> allow \<and> now < dl"
  using assms(1)
  by (cases rule: maybe_restart_cases)
    (use assms(2) in \<open>auto simp: pending_restart_deadline_def stopped_with_cause_def split: option.splits app_state.splits\<close>)

lemma on_apps_all2:
  assumes "on_apps f d c = (None, d', c')" and "\<And>a c r a' c'. f a c = (r, a', c') \<Longrightarrow> \<not> is_panic r \<Longrightarrow> P a a'"
  shows "list_all2 P (dm_apps d) (dm_apps d')"
proof -
  from assms(1) obtain apps' where run: "for_apps f (dm_apps d) c = (None, apps', c')" and d': "d' = d\<lparr>dm_apps := apps'\<rparr>"
    by (auto simp: on_apps_def split: prod.splits)
  from for_apps_each [OF run assms(2)] show ?thesis by (simp add: d')
qed

lemma restart_settles:
  assumes "maybe_restart E now allow a c = (r, a', c')" and "\<not> is_panic r"
  shows "case pending_restart_deadline a of
      None \<Rightarrow> a' = a
    | Some dl \<Rightarrow>
        if \<not> allow then \<not> is_running a' \<and> pending_restart_deadline a' = None
        else if now < dl then a' = a
        else if is_running a' then st_restart_count (a_stats a') = st_restart_count (a_stats a) + 1
        else pending_restart_deadline a' = None \<and> (\<exists>c1 e c2. rt_start E (a_params a) c1 = (Err e, c2))"
  using assms(1)
proof (cases rule: maybe_restart_cases)
  case untouched
  then show ?thesis by (auto split: option.split)
next
  case (failed le d e)
  then show ?thesis by (auto simp: pending_restart_deadline_def stopped_with_cause_def is_running_def)
next
  case (restarted le d rt)
  then show ?thesis by (auto simp: pending_restart_deadline_def is_running_def)
qed (use assms(2) in \<open>auto simp: pending_restart_deadline_def stopped_with_cause_def is_running_def\<close>)

text \<open>
  C20. No restart is late and none is forgotten: once the restarts of an iteration have fired, no app
  has a deadline that has passed, and during shutdown none has a deadline at all. An app that was due
  runs again, counted as a restart, unless its start failed, which ends its restarts; during shutdown
  a pending restart is dropped; an app that was not due is untouched. Together with the timeout of
  \<open>poll\<close> this starts every restart in the first iteration after its deadline.
\<close>

theorem no_restart_overdue:
  assumes "fire_restarts E d c = (None, d', c')"
  shows "(\<forall>a \<in> set (dm_apps d'). case pending_restart_deadline a of
           None \<Rightarrow> True | Some dl \<Rightarrow> \<not> dm_stopping d \<and> env_now E (cx_tick c) < dl)
    \<and> list_all2 (\<lambda>a a'. case pending_restart_deadline a of
           None \<Rightarrow> a' = a
         | Some dl \<Rightarrow>
             if dm_stopping d then \<not> is_running a' \<and> pending_restart_deadline a' = None
             else if env_now E (cx_tick c) < dl then a' = a
             else if is_running a' then st_restart_count (a_stats a') = st_restart_count (a_stats a) + 1
             else pending_restart_deadline a' = None \<and> (\<exists>c1 e c2. rt_start E (a_params a) c1 = (Err e, c2)))
        (dm_apps d) (dm_apps d')"
proof (rule conjI)
  note run = assms [unfolded fire_restarts_def]
  show "\<forall>a \<in> set (dm_apps d'). case pending_restart_deadline a of
      None \<Rightarrow> True | Some dl \<Rightarrow> \<not> dm_stopping d \<and> env_now E (cx_tick c) < dl"
    using on_apps_each [OF run, of "\<lambda>a. case pending_restart_deadline a of
      None \<Rightarrow> True | Some dl \<Rightarrow> \<not> dm_stopping d \<and> env_now E (cx_tick c) < dl"] maybe_restart_not_overdue by blast
qed (rule on_apps_all2 [OF assms [unfolded fire_restarts_def]], drule (1) restart_settles, simp only: not_not)

definition overdue_daemon :: daemon where
  "overdue_daemon = sample_daemon\<lparr>dm_apps :=
     [daemon_app ''job'' False (Stopped (Some \<lparr>le_cause = Completed 1, le_restart_deadline = Some 2000\<rparr>))]\<rparr>"

lemma no_restart_overdue_witness:
  "\<exists>a' d' c'. fire_restarts sound_env overdue_daemon daemon_ctx = (None, d', c')
    \<and> dm_apps d' = [a'] \<and> is_running a' \<and> st_restart_count (a_stats a') = 1"
proof -
  obtain a' d' c' where run: "fire_restarts sound_env overdue_daemon daemon_ctx = (None, d', c')"
    and a': "dm_apps d' = [a']" "is_running a'"
    by (simp add: fire_restarts_def on_apps_def overdue_daemon_def sample_daemon_def daemon_app_def maybe_restart_def
        daemon_ctx_def start_evals is_running_def)
  from no_restart_overdue [OF run] run a' show ?thesis
    by (auto simp: overdue_daemon_def sample_daemon_def daemon_app_def daemon_ctx_def pending_restart_deadline_def
        app_runtime_stats_default_def)
qed

subsection \<open>Shutdown\<close>

lemma app_stop_after:
  assumes "app_stop E force a c = (r, a', c')"
  shows "pending_restart_deadline a' = None \<and> (is_running a' \<longrightarrow> a_stop_requested a')"
  using assms
  by (cases rule: app_stop_cases) (auto simp: pending_restart_deadline_def stopped_with_cause_def is_running_def)

lemma forward_sigint_after:
  assumes run: "forward_sigint E d c = (None, d', c')" and sig: "0 < dm_sigint_count d'"
  shows "\<forall>a \<in> set (dm_apps d'). pending_restart_deadline a = None \<and> (is_running a \<longrightarrow> a_stop_requested a)"
proof -
  have E: "(\<forall>a \<in> set (dm_apps d2). pending_restart_deadline a = None \<and> (is_running a \<longrightarrow> a_stop_requested a))
      \<and> d2 = d\<lparr>dm_apps := dm_apps d2\<rparr>" if "on_apps (app_stop E force) d c = (None, d2, c')" for force d2
    by (rule on_apps_each [OF that, where Q = "\<lambda>a. pending_restart_deadline a = None \<and> (is_running a \<longrightarrow> a_stop_requested a)"])
      (use app_stop_after in blast)
  show ?thesis
    using run sig E [of True d'] E [of False d'] by (auto simp: forward_sigint_def split: if_splits)
qed

text \<open>
  C17. SIGINT ends the daemon: after an iteration in which a SIGINT has been seen (then or
  earlier), no restart is pending, every app still running has been told to stop and will not be
  restarted, and the loop is left exactly when no app runs any more, even with \<open>--keep-running\<close>.
\<close>

theorem sigint_shuts_down:
  assumes "loop_iteration E J keep evs d c = (Ok leave, d', c')" and "0 < dm_sigint_count d'"
  shows "(\<forall>a \<in> set (dm_apps d'). pending_restart_deadline a = None \<and> (if is_running a then a_stop_requested a else True))
    \<and> leave = (\<forall>a \<in> set (dm_apps d'). \<not> is_running a)"
proof -
  from assms(1) obtain d3 c3 where "forward_sigint E d3 c3 = (None, d', c')" and l: "leave = should_exit keep d'"
    by (auto simp: loop_iteration_def split: prod.splits option.splits)
  from forward_sigint_after [OF this(1) assms(2)] assms(2) show ?thesis
    by (auto simp: l should_exit_def)
qed

definition sigint_event :: poll_event where
  "sigint_event = \<lparr>pe_token = SIGNALFD_TOKEN, pe_io = sample_event, pe_signal = (128, of_int SIGINT),
      pe_control_pending = [], pe_log_pending = []\<rparr>"

lemma sigint_event_sound: "event_sound sigint_event"
  by (simp add: event_sound_def sigint_event_def)

lemma sigint_shuts_down_witness:
  "\<exists>d' c'. loop_iteration sound_env sample_codec True [sigint_event] sample_daemon daemon_ctx = (Ok False, d', c')
    \<and> (\<forall>a \<in> set (dm_apps d'). pending_restart_deadline a = None \<and> (if is_running a then a_stop_requested a else True))"
proof -
  obtain leave d' c' where run: "loop_iteration sound_env sample_codec True [sigint_event] sample_daemon daemon_ctx = (Ok leave, d', c')"
    and d': "dm_sigint_count d' = 1" "\<exists>a \<in> set (dm_apps d'). is_running a"
    by (simp add: loop_iteration_def dispatch_event_def sigint_event_def handle_signal_fd_def SIGINT_def siginfo_size_def
        sample_daemon_def push_logs_def push_updates_def log_server_new_def fire_restarts_def on_apps_def maybe_restart_def
        daemon_app_def forward_sigint_def SIGINT_THRESHOLD_def app_stop_def send_sigterm_def send_signal_def bindM_def
        next_tick_def emit_def to_ioresult_def lift_outcome_def ret_def Let_def daemon_ctx_def is_running_def usize_add_def
        usize_bound_def)
  from sigint_shuts_down [OF run] d' run show ?thesis by auto
qed

text \<open>The signals of the forwarding, one for every process that still runs.\<close>

fun stop_signals :: "int \<Rightarrow> app list \<Rightarrow> sys_event list" where
  "stop_signals s [] = []"
| "stop_signals s (a # apps) =
     (case a_state a of Running rt \<Rightarrow> Signalled (rt_pid rt) s # stop_signals s apps | Stopped _ \<Rightarrow> stop_signals s apps)"

lemma app_stop_trace:
  "app_stop E force a c = (r, a', c') \<Longrightarrow>
     cx_trace c' = cx_trace c @ stop_signals (if force then SIGKILL else SIGTERM) [a] \<and> \<not> is_panic r"
  by (auto simp: app_stop_def send_sigkill_def send_sigterm_def send_signal_def bindM_def next_tick_def emit_def
      to_ioresult_def lift_outcome_def ret_def Let_def split: app_state.splits option.splits prod.splits if_splits)

lemma stop_signals_Cons: "stop_signals s (a # apps) = stop_signals s [a] @ stop_signals s apps"
  by (simp split: app_state.split)

lemma for_apps_stop_trace:
  "for_apps (app_stop E force) apps c = (p, apps', c') \<Longrightarrow>
     p = None \<and> cx_trace c' = cx_trace c @ stop_signals (if force then SIGKILL else SIGTERM) apps"
proof (induction apps arbitrary: c p apps' c')
  case (Cons a apps)
  obtain x a' c1 where F: "app_stop E force a c = (x, a', c1)" by (rule prod_cases3)
  obtain y apps2 c2 where R: "for_apps (app_stop E force) apps c1 = (y, apps2, c2)" by (rule prod_cases3)
  from Cons.IH [OF R] app_stop_trace [OF F] Cons.prems for_apps_Cons [OF F R] show ?case
    unfolding stop_signals_Cons [of _ a apps] by (cases x) (simp_all del: stop_signals.simps)
qed simp

text \<open>
  C30. The escalation: with one SIGINT seen, every process that runs is sent SIGTERM, once per
  iteration and in the order of the apps, and no other signal is sent; from the second SIGINT on
  it is SIGKILL; without one nothing is sent.
\<close>

theorem sigint_escalates:
  assumes "forward_sigint E d c = (p, d', c')"
  shows "p = None \<and> cx_trace c' = cx_trace c @
    (if dm_sigint_count d = 0 then [] else stop_signals (if dm_sigint_count d = 1 then SIGTERM else SIGKILL) (dm_apps d))"
  using assms
  by (auto simp: forward_sigint_def on_apps_def SIGINT_THRESHOLD_def split: if_splits prod.splits dest!: for_apps_stop_trace)

lemma sigint_escalates_witness:
  "\<exists>d' c'. forward_sigint sound_env (sample_daemon\<lparr>dm_sigint_count := 2\<rparr>) daemon_ctx = (None, d', c')
    \<and> cx_trace c' = cx_trace daemon_ctx @ [Signalled 100 SIGKILL]"
proof -
  obtain p d' c' where "forward_sigint sound_env (sample_daemon\<lparr>dm_sigint_count := 2\<rparr>) daemon_ctx = (p, d', c')"
    by (rule prod_cases3)
  with sigint_escalates [OF this] show ?thesis
    by (auto simp: sample_daemon_def daemon_app_def daemon_rt_def)
qed


subsection \<open>The apps of the daemon\<close>

text \<open>
  C22. The invariant of an app holds for every app of the running daemon: sharing the allocator and
  the loop with the other apps and both servers never breaks it. A running app has a child and its
  three tokens, its ring holds the history of its output and the byte counters add up to the
  length of that history, and a restart is pending only for an app that may be restarted.
\<close>

theorem daemon_apps_sound:
  assumes "world E J" and "slab_laws (env_slab E)" and "daemon_reach E J keep (d, c)" and "a \<in> set (dm_apps d)"
  shows "(case a_state a of
            Running rt \<Rightarrow> set (rt_token_list rt) \<subseteq> ctx_live E c \<and> distinct (rt_token_list rt) \<and> rt_pid rt \<noteq> 0
          | Stopped _ \<Rightarrow> True)
    \<and> (\<exists>hist. ring_holds (a_log a) hist
         \<and> st_stdout_bytes (a_stats a) + st_stderr_bytes (a_stats a) = of_nat (length hist))
    \<and> \<not> (pending_restart_deadline a \<noteq> None \<and> (a_stop_requested a \<or> ap_oneshot (a_params a)))"
proof -
  have "app_inv E a c"
    using apps_inv_app [OF daemon_invD(1) [OF daemon_reach_inv [OF assms(1-3)]] assms(4)] .
  then show ?thesis
    by (auto simp: app_inv_def log_inv_def restart_sound_def app_owns_def app_tokens_def split: app_state.split)
qed

lemma daemon_apps_sound_witness:
  "set [Token 3, Token 4, Token 5] \<subseteq> ctx_live sound_env daemon_ctx"
  using daemon_apps_sound [OF sound_world _ sample_daemon_reach, of "daemon_app ''web'' True (Running daemon_rt)"] vec_slab_laws
  by (simp add: sample_daemon_def daemon_app_def daemon_rt_def rt_token_list_def)

text \<open>
  A restart that fails to start the process is the last one: whatever the policy and however
  many attempts it still allows, the app settles as stopped with its last cause, and no later
  iteration tries again. (The counters are left alone, so it does not count as an attempt.)
\<close>

theorem failed_restart_gives_up:
  assumes "a_state a = Stopped (Some le)" and "le_restart_deadline le = Some deadline" and "deadline \<le> now"
    and "rt_start E (a_params a) c = (Err e, c')"
  shows "\<exists>a'. maybe_restart E now True a c = (Ok (), a', c') \<and> a_state a' = stopped_with_cause (le_cause le)
    \<and> a_stats a' = a_stats a \<and> (\<forall>E2 now2 allow c2. maybe_restart E2 now2 allow a' c2 = (Ok (), a', c2))"
  using assms by (simp add: maybe_restart_def stopped_with_cause_def)

text \<open>A kernel that is out of processes: \<open>clone3\<close> fails.\<close>

definition no_process_env :: "(nat \<times> token option list) env" where
  "no_process_env = sample_env\<lparr>env_spawn := \<lambda>_. sample_spawn\<lparr>sp_clone3 := \<lambda>_. (Errno 11, -1)\<rparr>\<rparr>"

lemma failed_restart_gives_up_witness:
  "\<exists>a' c'. maybe_restart no_process_env 2000000000 True sample_down sample_ctx2 = (Ok (), a', c')
    \<and> (\<forall>E2 now2 allow c2. maybe_restart E2 now2 allow a' c2 = (Ok (), a', c2))"
proof -
  have "\<exists>e c'. rt_start no_process_env (a_params sample_down) sample_ctx2 = (Err e, c')"
    by (simp add: no_process_env_def sample_down_def sample_app_def start_evals sample_ctx2_def)
  then obtain e c' where "rt_start no_process_env (a_params sample_down) sample_ctx2 = (Err e, c')" by blast
  from failed_restart_gives_up [OF _ _ _ this, of "\<lparr>le_cause = Completed 1, le_restart_deadline = Some 1000004000\<rparr>" 1000004000 2000000000]
  show ?thesis by (auto simp: sample_down_def)
qed


end
