(* ===== verification/Ipc_Correct.thy ===== *)
theory Ipc_Correct
  imports Supervisor_Correct
begin

text \<open>
  Correctness of the control socket: requests are found in the byte stream however it is cut up
  and answered once each in order, responses are written whole, connections are closed when they
  are done and refused above the limit, and what some requests answer.
\<close>

section \<open>Requests in the byte stream\<close>

text \<open>The complete lines of a buffer, newline included, and the bytes after the last newline.\<close>

fun complete_lines :: "bytes \<Rightarrow> bytes list \<times> bytes" where
  "complete_lines [] = ([], [])"
| "complete_lines (b # bs) =
     (case complete_lines bs of (ls, rest) \<Rightarrow>
        if b = newline then ([newline] # ls, rest)
        else (case ls of [] \<Rightarrow> ([], b # rest) | l # ls' \<Rightarrow> ((b # l) # ls', rest)))"

lemma take_line_Cons:
  "take_line (b # bs) =
     (if b = newline then Some ([newline], bs)
      else map_option (\<lambda>(l, r). (b # l, r)) (take_line bs))"
  by (cases "dropWhile (\<lambda>b. b \<noteq> newline) bs") (auto simp: take_line_def simp del: dropWhile_eq_Nil_conv)

lemma take_line_Nil [simp]: "take_line [] = None"
  by (simp add: take_line_def)

lemma complete_lines_take_line:
  "complete_lines buf =
     (case take_line buf of None \<Rightarrow> ([], buf)
      | Some (l, r) \<Rightarrow> (case complete_lines r of (ls, rest) \<Rightarrow> (l # ls, rest)))"
  by (induction buf) (auto simp: take_line_Cons split: option.splits prod.splits)

lemma take_line_append: "take_line x = Some (l, r) \<Longrightarrow> take_line (x @ y) = Some (l, r @ y)"
  by (induction x arbitrary: l) (auto simp: take_line_Cons split: if_splits)

text \<open>The requests of some lines: trimmed, blank lines left out.\<close>

definition requests :: "bytes list \<Rightarrow> string list" where
  "requests lines = filter (\<lambda>t. t \<noteq> '''') (map (\<lambda>l. trim (from_utf8_lossy l)) lines)"

fun answer_all :: "'s env \<Rightarrow> codec \<Rightarrow> string list \<Rightarrow> app list \<Rightarrow> 's ctx \<Rightarrow> response list \<times> app list \<times> 's ctx" where
  "answer_all E J [] apps c = ([], apps, c)"
| "answer_all E J (t # ts) apps c =
     (case answer E J t apps c of
        (Ok r, apps1, c1) \<Rightarrow> (case answer_all E J ts apps1 c1 of (rs, apps2, c2) \<Rightarrow> (r # rs, apps2, c2))
      | (_, apps1, c1) \<Rightarrow> ([], apps1, c1))"

definition response_line :: "codec \<Rightarrow> response \<Rightarrow> bytes" where
  "response_line J r = (case cd_print_response J r of Ok s \<Rightarrow> as_bytes s @ [newline] | _ \<Rightarrow> [])"

lemma queue_response_line:
  assumes "codec_laws J"
  shows "queue_response J r conn = Ok (conn\<lparr>cn_write_buf := cn_write_buf conn @ response_line J r\<rparr>)"
proof -
  obtain s where "queue_response J r conn = Ok (conn\<lparr>cn_write_buf := cn_write_buf conn @ as_bytes s @ [newline]\<rparr>)"
    and "cd_print_response J r = Ok s" by (rule queue_response_calm [OF assms])
  then show ?thesis by (simp add: response_line_def)
qed

lemma process_lines_steps:
  assumes "kernel_sound E" and "fresh_pipes E" and "apps_inv E apps c" and "codec_laws J"
    and "answer_all E J (requests (fst (complete_lines (cn_read_buf conn)))) apps c = (rs, apps', c')"
  shows "process_lines E J conn apps c =
     (Ok (), conn\<lparr>cn_read_buf := snd (complete_lines (cn_read_buf conn)),
        cn_write_buf := cn_write_buf conn @ concat (map (response_line J) rs),
        cn_close_after_flush := cn_close_after_flush conn \<or> rs \<noteq> []\<rparr>, apps', c')"
  using assms
proof (induction "length (cn_read_buf conn)" arbitrary: conn apps c rs rule: less_induct)
  case less
  note sound = less.prems(1) and fresh = less.prems(2) and inv = less.prems(3) and J = less.prems(4) and all = less.prems(5)
  show ?case
  proof (cases "take_line (cn_read_buf conn)")
    case None
    then have "complete_lines (cn_read_buf conn) = ([], cn_read_buf conn)"
      by (simp add: complete_lines_take_line)
    with all None show ?thesis by (subst process_lines.simps) (simp add: requests_def)
  next
    case (Some lr)
    obtain line rest where L: "take_line (cn_read_buf conn) = Some (line, rest)" using Some by (cases lr) simp
    let ?conn = "conn\<lparr>cn_read_buf := rest\<rparr>" and ?t = "trim (from_utf8_lossy line)"
    have short: "length rest < length (cn_read_buf conn)" using take_line_shorter [OF L] .
    have cl: "fst (complete_lines (cn_read_buf conn)) = line # fst (complete_lines rest)"
      "snd (complete_lines (cn_read_buf conn)) = snd (complete_lines rest)"
      using complete_lines_take_line [of "cn_read_buf conn"] L by (simp_all split: prod.split)
    show ?thesis
    proof (cases "?t = ''''")
      case True
      then have "requests (line # fst (complete_lines rest)) = requests (fst (complete_lines rest))"
        by (simp add: requests_def)
      with less.hyps [of ?conn apps c rs] short sound fresh inv J all cl True L show ?thesis
        by (subst process_lines.simps) simp
    next
      case False
      then have rq: "requests (line # fst (complete_lines rest)) = ?t # requests (fst (complete_lines rest))"
        by (simp add: requests_def)
      obtain x as c1 where D: "answer E J ?t apps c = (x, as, c1)" by (rule prod_cases3)
      from answer_calm [OF sound fresh inv J D] obtain resp where x: "x = Ok resp" by blast
      from answer_inv [OF fresh inv D] x have inv1: "apps_inv E as c1" by simp
      obtain rs2 apps2 c2 where R: "answer_all E J (requests (fst (complete_lines rest))) as c1 = (rs2, apps2, c2)"
        by (rule prod_cases3)
      with all cl rq D x have eqs: "rs = resp # rs2" "apps' = apps2" "c' = c2" by simp_all
      let ?conn2 = "?conn\<lparr>cn_write_buf := cn_write_buf conn @ response_line J resp, cn_close_after_flush := True\<rparr>"
      have "process_lines E J conn apps c = process_lines E J ?conn2 as c1"
        using process_lines_answer [OF L False D] x queue_response_line [OF J] by simp
      with less.hyps [of ?conn2 as c1 rs2] short sound fresh inv1 J R show ?thesis
        by (simp add: cl eqs)
    qed
  qed
qed

lemma answer_all_count:
  assumes "kernel_sound E" and "fresh_pipes E" and "apps_inv E apps c" and "codec_laws J"
    and "answer_all E J ts apps c = (rs, apps', c')"
  shows "length rs = length ts \<and> apps_inv E apps' c'"
  using assms(3,5)
proof (induction ts arbitrary: apps c rs)
  case (Cons t ts)
  obtain x as c1 where D: "answer E J t apps c = (x, as, c1)" by (rule prod_cases3)
  from answer_calm [OF assms(1,2) Cons.prems(1) assms(4) D] obtain resp where x: "x = Ok resp" by blast
  from answer_inv [OF assms(2) Cons.prems(1) D] x have "apps_inv E as c1" by simp
  from Cons.IH [OF this] Cons.prems(2) D x show ?case by (auto split: prod.splits)
qed simp

text \<open>
  C13. Every request is answered, once and in order: a read on a control connection leaves in the
  write buffer, after what was there, exactly one response line for every complete line that is
  not blank, each computed on the apps as the requests before it left them; the incomplete last
  line stays buffered, and the connection is to be closed once a request was answered.
\<close>

theorem requests_answered_in_order:
  assumes "world E J" and "apps_inv E apps c" and "process_lines E J conn apps c = (r, conn', apps', c')"
  shows "\<exists>rs. answer_all E J (requests (fst (complete_lines (cn_read_buf conn)))) apps c = (rs, apps', c') \<and> r = Ok ()
    \<and> length rs = length (requests (fst (complete_lines (cn_read_buf conn))))
    \<and> cn_write_buf conn' = cn_write_buf conn @ concat (map (response_line J) rs)
    \<and> cn_read_buf conn' = snd (complete_lines (cn_read_buf conn))
    \<and> cn_close_after_flush conn' = (cn_close_after_flush conn \<or> rs \<noteq> [])"
proof -
  obtain rs apps2 c2 where A: "answer_all E J (requests (fst (complete_lines (cn_read_buf conn)))) apps c = (rs, apps2, c2)"
    by (rule prod_cases3)
  note w = worldD [OF assms(1)]
  from process_lines_steps [OF w(1,2) assms(2) w(3) A] assms(3) answer_all_count [OF w(1,2) assms(2) w(3) A] A
  show ?thesis by auto
qed

definition sample_conn :: connection where
  "sample_conn = (connection_new sample_log_sock (\<lambda>_. 0))\<lparr>cn_read_buf := as_bytes (''Q'' @ [CHR 0x0A, CHR 0x0A] @ ''Tah'')\<rparr>"

lemma sample_daemon_apps: "apps_inv sound_env (dm_apps sample_daemon) daemon_ctx"
  using daemon_invD(1) [OF daemon_reach_inv [OF sound_world _ sample_daemon_reach]] vec_slab_laws by simp

lemma requests_answered_in_order_witness:
  "\<exists>conn' apps' c'. process_lines sound_env sample_codec sample_conn (dm_apps sample_daemon) daemon_ctx = (Ok (), conn', apps', c')
    \<and> cn_read_buf conn' = as_bytes ''Tah'' \<and> cn_close_after_flush conn'"
proof -
  obtain r conn' apps' c' where P: "process_lines sound_env sample_codec sample_conn (dm_apps sample_daemon) daemon_ctx = (r, conn', apps', c')"
    by (rule prod_cases4)
  have "complete_lines (cn_read_buf sample_conn) = ([[81, 10], [10]], as_bytes ''Tah'')"
    by (simp add: sample_conn_def as_bytes_def byte_of_char_def newline_def)
  moreover have "requests [[81, 10], [10]] = [''Q'']"
    by code_simp
  ultimately show ?thesis
    using requests_answered_in_order [OF sound_world sample_daemon_apps P] P by auto
qed

lemma complete_lines_append:
  "complete_lines (x @ y) =
     (case complete_lines x of (ls, rest) \<Rightarrow> case complete_lines (rest @ y) of (ls2, rest2) \<Rightarrow> (ls @ ls2, rest2))"
proof (induction "length x" arbitrary: x rule: less_induct)
  case less
  show ?case
  proof (cases "take_line x")
    case None
    then have "complete_lines x = ([], x)" by (simp add: complete_lines_take_line)
    then show ?thesis by (simp split: prod.split)
  next
    case (Some lr)
    then obtain l r where L: "take_line x = Some (l, r)" by (cases lr) simp
    note IH = less.hyps [OF take_line_shorter [OF L]]
    have "complete_lines (x @ y) = (case complete_lines (r @ y) of (ls, rest) \<Rightarrow> (l # ls, rest))"
      using take_line_append [OF L] by (subst complete_lines_take_line) simp
    moreover have "complete_lines x = (case complete_lines r of (ls, rest) \<Rightarrow> (l # ls, rest))"
      using L by (subst complete_lines_take_line) simp
    ultimately show ?thesis using IH by (simp split: prod.splits)
  qed
qed

lemma requests_append: "requests (xs @ ys) = requests xs @ requests ys"
  by (simp add: requests_def)

lemma answer_all_append:
  assumes "kernel_sound E" and "fresh_pipes E" and "apps_inv E apps c" and "codec_laws J"
    and "answer_all E J ts apps c = (rs, apps1, c1)" and "answer_all E J us apps1 c1 = (rs2, apps2, c2)"
  shows "answer_all E J (ts @ us) apps c = (rs @ rs2, apps2, c2)"
  using assms(3,5)
proof (induction ts arbitrary: apps c rs)
  case Nil
  with assms(6) show ?case by simp
next
  case (Cons t ts)
  obtain x as c0 where D: "answer E J t apps c = (x, as, c0)" by (rule prod_cases3)
  from answer_calm [OF assms(1,2) Cons.prems(1) assms(4) D] obtain resp where x: "x = Ok resp" by blast
  from answer_inv [OF assms(2) Cons.prems(1) D] x have inv: "apps_inv E as c0" by simp
  obtain rs1 apps3 c3 where R: "answer_all E J ts as c0 = (rs1, apps3, c3)" by (rule prod_cases3)
  with Cons.prems(2) D x have eqs: "rs = resp # rs1" "apps3 = apps1" "c3 = c1" by simp_all
  from Cons.IH [OF inv R [unfolded eqs]] D x show ?case by (simp add: eqs(1))
qed

text \<open>
  C24. The network may cut requests up anywhere: reading some bytes, answering what is complete and
  reading the rest later leaves the connection, the apps and the kernel exactly as reading all the
  bytes at once; a request is never lost, repeated or torn at the boundary.
\<close>

theorem requests_in_pieces:
  assumes "world E J" and "apps_inv E apps c" and "process_lines E J (conn\<lparr>cn_read_buf := x\<rparr>) apps c = (r, conn1, apps1, c1)"
  shows "process_lines E J (conn\<lparr>cn_read_buf := x @ y\<rparr>) apps c
    = process_lines E J (conn1\<lparr>cn_read_buf := cn_read_buf conn1 @ y\<rparr>) apps1 c1"
proof -
  note w = worldD [OF assms(1)]
  obtain ls rest where X: "complete_lines x = (ls, rest)" by force
  obtain ls2 rest2 where Y: "complete_lines (rest @ y) = (ls2, rest2)" by force
  have XY: "complete_lines (x @ y) = (ls @ ls2, rest2)" using complete_lines_append [of x y] X Y by simp
  obtain rs apps2 c2 where A: "answer_all E J (requests ls) apps c = (rs, apps2, c2)" by (rule prod_cases3)
  from process_lines_steps [OF w(1,2) assms(2) w(3), of "conn\<lparr>cn_read_buf := x\<rparr>" rs apps2 c2] A X assms(3)
  have eqs: "conn1 = conn\<lparr>cn_read_buf := rest, cn_write_buf := cn_write_buf conn @ concat (map (response_line J) rs),
      cn_close_after_flush := cn_close_after_flush conn \<or> rs \<noteq> []\<rparr>" "apps1 = apps2" "c1 = c2" by auto
  from answer_all_count [OF w(1,2) assms(2) w(3) A] have inv1: "apps_inv E apps2 c2" by simp
  obtain rs2 apps3 c3 where B: "answer_all E J (requests ls2) apps2 c2 = (rs2, apps3, c3)" by (rule prod_cases3)
  note AB = answer_all_append [OF w(1,2) assms(2) w(3) A B]
  have "process_lines E J (conn1\<lparr>cn_read_buf := cn_read_buf conn1 @ y\<rparr>) apps1 c1
      = (Ok (), conn1\<lparr>cn_read_buf := rest2, cn_write_buf := cn_write_buf conn1 @ concat (map (response_line J) rs2),
           cn_close_after_flush := cn_close_after_flush conn1 \<or> rs2 \<noteq> []\<rparr>, apps3, c3)"
    using process_lines_steps [OF w(1,2) inv1 w(3), of "conn1\<lparr>cn_read_buf := cn_read_buf conn1 @ y\<rparr>" rs2 apps3 c3] B
    by (simp add: eqs Y)
  moreover have "process_lines E J (conn\<lparr>cn_read_buf := x @ y\<rparr>) apps c
      = (Ok (), conn\<lparr>cn_read_buf := rest2, cn_write_buf := cn_write_buf conn @ concat (map (response_line J) (rs @ rs2)),
           cn_close_after_flush := cn_close_after_flush conn \<or> rs @ rs2 \<noteq> []\<rparr>, apps3, c3)"
    using process_lines_steps [OF w(1,2) assms(2) w(3), of "conn\<lparr>cn_read_buf := x @ y\<rparr>" "rs @ rs2" apps3 c3] AB
    by (simp add: XY requests_append)
  ultimately show ?thesis by (simp add: eqs disj_assoc)
qed

lemma requests_in_pieces_witness:
  "\<exists>conn1 apps1 c1. process_lines sound_env sample_codec (sample_conn\<lparr>cn_read_buf := [81]\<rparr>) (dm_apps sample_daemon) daemon_ctx
      = (Ok (), conn1, apps1, c1)
    \<and> process_lines sound_env sample_codec (sample_conn\<lparr>cn_read_buf := [81] @ [10]\<rparr>) (dm_apps sample_daemon) daemon_ctx
      = process_lines sound_env sample_codec (conn1\<lparr>cn_read_buf := cn_read_buf conn1 @ [10]\<rparr>) apps1 c1"
proof -
  have P: "process_lines sound_env sample_codec (sample_conn\<lparr>cn_read_buf := [81]\<rparr>) (dm_apps sample_daemon) daemon_ctx
      = (Ok (), sample_conn\<lparr>cn_read_buf := [81]\<rparr>, dm_apps sample_daemon, daemon_ctx)"
    by (subst process_lines.simps) (simp add: take_line_def newline_def)
  from requests_in_pieces [OF sound_world sample_daemon_apps P, of "[10]"] P show ?thesis by blast
qed

section \<open>Writing and closing\<close>

lemma write_loop_spec:
  "write_loop s buf split = (r, rest, s') \<Longrightarrow>
     sk_out s' @ rest = sk_out s @ buf \<and> sk_in s' = sk_in s
   \<and> (r = Ok () \<and> rest = [] \<or> rest \<noteq> [] \<and>
        (case sk_write_error s' (sk_room s') of
           Some e \<Rightarrow> r = (if e = WouldBlock then Ok () else Err e)
         | None \<Rightarrow> r = Ok () \<and> sk_room s' = 0))"
proof (induction s buf split rule: write_loop.induct)
  case (1 s buf split)
  show ?case
  proof (cases "buf = []")
    case True
    with 1(2) show ?thesis by (subst (asm) write_loop.simps) auto
  next
    case False
    let ?chunk = "take (transfer (split (length buf)) (length buf)) buf"
    have ne: "?chunk \<noteq> []" using False by simp
    obtain x s1 where W: "sock_write s ?chunk = (x, s1)" by force
    show ?thesis
    proof (cases x)
      case (Ok n)
      with W have W: "sock_write s ?chunk = (Ok n, s1)" by simp
      note D = sock_write_OkD [OF W]
      have n: "0 < n" using D(4) ne by simp
      have run: "write_loop s1 (drop n buf) split = (r, rest, s')"
        using 1(2) False W n by (subst (asm) write_loop.simps) simp
      have "take n ?chunk = take n buf"
        using D(2) by (simp add: min_absorb1)
      moreover have "sk_in s1 = sk_in s" using D(5) by (metis sock.select_convs(1) sock.surjective sock.update_convs(5,6))
      ultimately show ?thesis
        using 1(1) [OF False W [symmetric] refl _ run] n D(1) by simp
    next
      case (Err e)
      with W have s1: "s1 = s" using sock_write_ErrD by blast
      from 1(2) False W Err s1 have "rest = buf" "s' = s" "r = (if e = WouldBlock then Ok () else Err e)"
        by (subst (asm) write_loop.simps; simp split: if_splits)+
      moreover have "sk_write_error s (sk_room s) = Some e \<or> sk_write_error s (sk_room s) = None \<and> sk_room s = 0 \<and> e = WouldBlock"
        using W Err by (auto simp: sock_write_def Let_def split: option.splits if_splits)
      ultimately show ?thesis using False by auto
    next
      case (Panic m)
      with W sock_write_no_panic show ?thesis by blast
    qed
  qed
qed

text \<open>
  A response reaches the client whole: a write moves a prefix of the write buffer to the
  socket, in order, dropping and repeating nothing, and it stops only when the buffer is empty,
  the socket is full, or the kernel reports an error; other connections are untouched.
\<close>

theorem write_conserves_responses:
  assumes "map_of (sv_connections sv) tok = Some conn" and "handle_writable tok sv = (r, sv')"
  shows "\<exists>conn'. map_of (sv_connections sv') = (map_of (sv_connections sv))(tok \<mapsto> conn')
    \<and> sk_out (cn_stream conn') @ cn_write_buf conn' = sk_out (cn_stream conn) @ cn_write_buf conn
    \<and> (cn_write_buf conn' = [] \<and> r = Ok ()
       \<or> cn_write_buf conn' \<noteq> [] \<and>
         (case sk_write_error (cn_stream conn') (sk_room (cn_stream conn')) of
            Some e \<Rightarrow> r = (if e = WouldBlock then Ok () else Err (IpcIo e))
          | None \<Rightarrow> r = Ok () \<and> sk_room (cn_stream conn') = 0))"
proof -
  obtain x buf s where W: "write_loop (cn_stream conn) (cn_write_buf conn) (cn_split conn) = (x, buf, s)"
    by (rule prod_cases3)
  with assms have eqs: "r = map_err IpcIo x" "sv' = set_conn tok (conn\<lparr>cn_stream := s, cn_write_buf := buf\<rparr>) sv"
    by (simp_all add: handle_writable_def)
  from write_loop_spec [OF W] show ?thesis
    unfolding eqs
    by (intro exI [of _ "conn\<lparr>cn_stream := s, cn_write_buf := buf\<rparr>"])
      (auto simp: set_conn_def update_conv split: option.splits if_splits)
qed

definition writing_server :: server where
  "writing_server = \<lparr>sv_connections = [(Token 3, (connection_new sample_log_sock (\<lambda>_. 1))\<lparr>cn_write_buf := [1, 2, 3, 4]\<rparr>)],
     sv_max_connections = 2\<rparr>"

lemma write_conserves_responses_witness:
  "\<exists>conn'. map_of (sv_connections (snd (handle_writable (Token 3) writing_server))) (Token 3) = Some conn'
    \<and> sk_out (cn_stream conn') @ cn_write_buf conn' = [1, 2, 3, 4]"
proof -
  obtain r sv' where H: "handle_writable (Token 3) writing_server = (r, sv')" by force
  have "map_of (sv_connections writing_server) (Token 3) =
      Some ((connection_new sample_log_sock (\<lambda>_. 1))\<lparr>cn_write_buf := [1, 2, 3, 4]\<rparr>)"
    by (simp add: writing_server_def)
  from write_conserves_responses [OF this H] H show ?thesis
    by (auto simp: connection_new_def sample_log_sock_def)
qed


text \<open>
  A connection is closed exactly when it is done: once it is to be closed and every response
  byte has been written, it is forgotten and its token freed; until then it stays, and \<open>epoll\<close> is
  asked for writability exactly while there is something to write (unless it refuses the change).
\<close>

theorem reconcile_closes_when_flushed:
  assumes "daemon_inv E d c" and "map_of (sv_connections (dm_ipc d)) tok = Some conn"
    and "reconcile E tok (dm_ipc d) c = (r, sv', c')"
  shows "r = Ok ()
    \<and> (if cn_close_after_flush conn \<and> cn_write_buf conn = []
       then map_of (sv_connections sv') tok = None \<and> ctx_live E c' = ctx_live E c - {tok}
       else ctx_live E c' = ctx_live E c
         \<and> (\<exists>registered. map_of (sv_connections sv') tok = Some (conn\<lparr>cn_writable_registered := registered\<rparr>)
              \<and> (registered = (cn_write_buf conn \<noteq> []) \<or> registered = cn_writable_registered conn \<and> env_register E (cx_tick c) \<noteq> None)))"
proof -
  have live: "tok \<in> ctx_live E c"
    using daemon_invD(4) [OF assms(1)] map_of_key [OF assms(2)] by (auto simp: server_keys_def)
  from free_live [OF daemon_invD(2) [OF assms(1)] live] obtain ts where F: "free (env_slab E) (cx_slab c) tok = Some ts"
    "slab_ok (env_slab E) ts" "live (env_slab E) ts = ctx_live E c - {tok}"
    "slab_cap (env_slab E) ts = ctx_cap E c" "ts_offset ts = ts_offset (cx_slab c)" .
  show ?thesis
  proof (cases "cn_close_after_flush conn \<and> cn_write_buf conn = []")
    case True
    with assms(2,3) F(1) have "r = Ok ()" "sv' = (dm_ipc d)\<lparr>sv_connections := AList.delete tok (sv_connections (dm_ipc d))\<rparr>"
      "c' = c\<lparr>cx_slab := ts\<rparr>"
      by (auto simp: reconcile_def close_conn_def Let_def)
    with True F(3) show ?thesis by (simp add: delete_conv')
  next
    case False
    have same: "conn\<lparr>cn_writable_registered := cn_writable_registered conn\<rparr> = conn" by simp
    show ?thesis
    proof (cases "(cn_write_buf conn \<noteq> []) = cn_writable_registered conn")
      case True
      with assms(2,3) False have "r = Ok ()" "sv' = dm_ipc d" "c' = c" by (auto simp: reconcile_def Let_def)
      with False True assms(2) show ?thesis by (auto intro!: exI [of _ "cn_writable_registered conn"])
    next
      case change: False
      show ?thesis
      proof (cases "env_register E (cx_tick c)")
        case None
        with assms(2,3) False change have "r = Ok ()" "c' = c\<lparr>cx_tick := Suc (cx_tick c)\<rparr>"
          "sv' = set_conn tok (conn\<lparr>cn_writable_registered := (cn_write_buf conn \<noteq> [])\<rparr>) (dm_ipc d)"
          by (auto simp: reconcile_def Let_def)
        with False show ?thesis by (auto simp: set_conn_def update_conv')
      next
        case (Some e)
        with assms(2,3) False change have "r = Ok ()" "c' = c\<lparr>cx_tick := Suc (cx_tick c)\<rparr>" "sv' = dm_ipc d"
          by (auto simp: reconcile_def Let_def)
        with False Some assms(2) show ?thesis by (auto intro!: exI [of _ "cn_writable_registered conn"])
      qed
    qed
  qed
qed

lemma reconcile_closes_when_flushed_witness:
  "\<exists>sv c r sv' c'. map_of (sv_connections sv) (Token 6) \<noteq> None \<and> reconcile sound_env (Token 6) sv c = (r, sv', c')
    \<and> r = Ok () \<and> map_of (sv_connections sv') (Token 6) = None \<and> ctx_live sound_env c' = ctx_live sound_env c - {Token 6}"
proof -
  let ?conn = "connection_new sample_log_sock (\<lambda>_. 0)" let ?sv = "set_conn (Token 6) ?conn (server_new 32)"
  let ?d = "sample_daemon\<lparr>dm_ipc := ?sv\<rparr>" and ?sv1 = "set_conn (Token 6) (?conn\<lparr>cn_close_after_flush := True\<rparr>) ?sv"
  let ?c = "daemon_ctx\<lparr>cx_slab := \<lparr>ts_slab = (8, [Some (Token 3), Some (Token 4), Some (Token 5), Some (Token 6)]), ts_offset = 3\<rparr>, cx_tick := 4\<rparr>"
  have A: "accept_all sound_env sample_codec [Ok (sample_log_sock, \<lambda>_. 0)] (dm_ipc sample_daemon) daemon_ctx = (Ok (), ?sv, ?c)"
    by (simp add: sample_daemon_def server_new_def daemon_ctx_def start_evals)
  have "daemon_inv sound_env sample_daemon daemon_ctx"
    using daemon_reach_inv [OF sound_world _ sample_daemon_reach] vec_slab_laws by simp
  from accept_control_safe [OF this _ A] have "daemon_inv sound_env ?d ?c" by simp
  from daemon_inv_ipc_same [OF this, of ?sv1] have inv: "daemon_inv sound_env (?d\<lparr>dm_ipc := ?sv1\<rparr>) ?c"
    by (simp add: server_keys_def set_conn_def server_new_def)
  have m: "map_of (sv_connections (dm_ipc (?d\<lparr>dm_ipc := ?sv1\<rparr>))) (Token 6) = Some (?conn\<lparr>cn_close_after_flush := True\<rparr>)"
    by (simp add: set_conn_def update_conv')
  obtain r sv' c' where R: "reconcile sound_env (Token 6) (dm_ipc (?d\<lparr>dm_ipc := ?sv1\<rparr>)) ?c = (r, sv', c')" by (rule prod_cases3)
  have "r = Ok () \<and> map_of (sv_connections sv') (Token 6) = None \<and> ctx_live sound_env c' = ctx_live sound_env ?c - {Token 6}"
    using reconcile_closes_when_flushed [OF inv m R] by (simp add: connection_new_def)
  moreover have "map_of (sv_connections ?sv1) (Token 6) \<noteq> None" "reconcile sound_env (Token 6) ?sv1 ?c = (r, sv', c')"
    using m R by simp_all
  ultimately show ?thesis by (intro exI conjI) (assumption | elim conjE, assumption)+
qed

section \<open>Requests on apps\<close>

lemma with_app_None: "name \<notin> set (map a_name apps) \<Longrightarrow> with_app name f apps c = (None, apps, c)"
  by (induction apps) auto

fun request_name :: "request \<Rightarrow> string option" where
  "request_name (ReqInfo n) = Some n"
| "request_name (ReqConfig n) = Some n"
| "request_name (ReqStart n) = Some n"
| "request_name (ReqStop n force) = Some n"
| "request_name _ = None"

text \<open>
  A request for an app that does not exist is refused with the names of those that do, and
  touches neither an app nor the kernel.
\<close>

theorem unknown_app_refused:
  assumes "request_name q = Some name" and "name \<notin> set (map a_name apps)"
  shows "dispatch_request E J q apps c = (Ok (RespAppNotFound name (map a_name apps)), apps, c)"
  using assms
  by (cases q) (auto simp: dispatch_request_def with_app_None not_found_def app_names_def)

lemma unknown_app_refused_witness:
  "dispatch_request sound_env sample_codec (ReqStop ''db'' True) (dm_apps sample_daemon) daemon_ctx
     = (Ok (RespAppNotFound ''db'' [''web'', ''job'']), dm_apps sample_daemon, daemon_ctx)"
  using unknown_app_refused [of "ReqStop ''db'' True" "''db''" "dm_apps sample_daemon" sound_env sample_codec daemon_ctx]
  by (simp add: sample_daemon_def daemon_app_def)

text \<open>What \<open>app_start\<close> says about the app it was given.\<close>

lemma app_start_result:
  assumes "app_start E a c = (r, a', c')" and "\<not> is_panic r"
  shows "(r = Ok () \<longleftrightarrow> \<not> is_running a \<and> is_running a') \<and> (is_running a \<longrightarrow> r = Err AlreadyRunning \<and> a' = a \<and> c' = c)
    \<and> (is_running a \<longrightarrow> is_running a')"
  using assms
  by (auto simp: app_start_def is_running_def split: app_state.splits prod.splits outcome.splits)

text \<open>
  C31. The answer to \<open>start-all\<close> tells the truth: the started apps are, in order, exactly those
  that were down before and run now; all others are reported as failed, those that were running
  with the message that they run already, and an app that ran is left running and untouched.
\<close>

theorem start_all_reports:
  assumes "start_all E J apps c = (Ok (started, failed), apps', c')"
  shows "started = map (a_name \<circ> snd) (filter (\<lambda>(a, a'). \<not> is_running a \<and> is_running a') (zip apps apps'))
    \<and> map sf_name failed = map (a_name \<circ> snd) (filter (\<lambda>(a, a'). is_running a \<or> \<not> is_running a') (zip apps apps'))
    \<and> list_all2 (\<lambda>a a'. if is_running a then a' = a \<and> \<lparr>sf_name = a_name a, sf_message = ''App already running''\<rparr> \<in> set failed else True)
        apps apps'"
  using assms
proof (induction apps arbitrary: c c' started failed apps')
  case (Cons a apps)
  obtain x a' c1 where F: "app_start E a c = (x, a', c1)" by (rule prod_cases3)
  obtain y apps2 c2 where R: "start_all E J apps c1 = (y, apps2, c2)" by (rule prod_cases3)
  from Cons.prems F R have ok: "\<not> is_panic x" by (cases x) auto
  from Cons.prems F R ok obtain st fl where y: "y = Ok (st, fl)" and apps': "apps' = a' # apps2"
    by (cases x; cases y) auto
  note IH = Cons.IH [OF R [unfolded y]] and S = app_start_result [OF F ok]
  note step = Cons.prems [unfolded apps'] F R y
  have mono: "list_all2 (\<lambda>a a'. if is_running a then a' = a \<and> \<lparr>sf_name = a_name a, sf_message = ''App already running''\<rparr> \<in> set failed else True)
        apps apps2" if "set fl \<subseteq> set failed"
    using conjunct2 [OF conjunct2 [OF IH]] by (rule list_all2_mono) (use that in \<open>auto split: if_splits\<close>)
  show ?case
  proof (cases x)
    case (Ok u)
    with step have "started = a_name a' # st" "failed = fl" by auto
    with IH S Ok mono show ?thesis by (auto simp: apps')
  next
    case (Err e)
    with step have eqs: "started = st" "failed = \<lparr>sf_name = a_name a', sf_message = app_err_msg (cd_io_msg J) e\<rparr> # fl" by auto
    have parts: "started = map (a_name \<circ> snd) (filter (\<lambda>(a, a'). \<not> is_running a \<and> is_running a') (zip (a # apps) apps'))"
      "map sf_name failed = map (a_name \<circ> snd) (filter (\<lambda>(a, a'). is_running a \<or> \<not> is_running a') (zip (a # apps) apps'))"
      using IH S Err by (auto simp: apps' eqs)
    have "\<lparr>sf_name = a_name a, sf_message = ''App already running''\<rparr> \<in> set failed \<and> a' = a" if "is_running a"
      using S Err that by (simp add: eqs app_err_msg_def)
    moreover have "set fl \<subseteq> set failed" by (auto simp: eqs(2))
    note mono [OF this]
    ultimately have "list_all2 (\<lambda>a a'. if is_running a then a' = a \<and> \<lparr>sf_name = a_name a, sf_message = ''App already running''\<rparr> \<in> set failed else True)
        (a # apps) apps'"
      by (simp only: apps' list_all2_Cons) simp
    with parts show ?thesis by (intro conjI)
  qed (use ok in simp)
qed auto


lemma start_all_reports_witness:
  "\<exists>started failed apps' c'. start_all sound_env sample_codec (dm_apps sample_daemon) daemon_ctx = (Ok (started, failed), apps', c')
    \<and> \<lparr>sf_name = ''web'', sf_message = ''App already running''\<rparr> \<in> set failed"
proof -
  obtain r apps' c' where S: "start_all sound_env sample_codec (dm_apps sample_daemon) daemon_ctx = (r, apps', c')"
    by (rule prod_cases3)
  from start_all_calm [OF worldD(1,2) [OF sound_world] sample_daemon_apps S] obtain started failed
    where "r = Ok (started, failed)" by auto
  with S have S: "start_all sound_env sample_codec (dm_apps sample_daemon) daemon_ctx = (Ok (started, failed), apps', c')" by simp
  from start_all_reports [OF S] have "list_all2 (\<lambda>a a'. if is_running a then a' = a
      \<and> \<lparr>sf_name = a_name a, sf_message = ''App already running''\<rparr> \<in> set failed else True) (dm_apps sample_daemon) apps'" by simp
  then have "\<lparr>sf_name = ''web'', sf_message = ''App already running''\<rparr> \<in> set failed"
    by (auto simp: sample_daemon_def daemon_app_def list_all2_Cons1 is_running_def)
  with S show ?thesis by blast
qed

section \<open>Too many connections\<close>

lemma write_all_spec:
  "write_all s buf = (r, s') \<Longrightarrow>
     (\<exists>n. sk_out s' = sk_out s @ take n buf)
   \<and> ((\<forall>k. sk_write_error s k = None) \<longrightarrow> length buf \<le> sk_room s \<longrightarrow> sk_out s' = sk_out s @ buf)"
proof (induction s buf rule: write_all.induct)
  case (1 s buf)
  show ?case
  proof (cases "buf = []")
    case True
    with 1(2) show ?thesis by (subst (asm) write_all.simps) auto
  next
    case False
    obtain x s1 where W: "sock_write s buf = (x, s1)" by force
    show ?thesis
    proof (cases x)
      case (Ok n)
      with W have W: "sock_write s buf = (Ok n, s1)" by simp
      note D = sock_write_OkD [OF W]
      have n: "0 < n" using D(4) False by simp
      have run: "write_all s1 (drop n buf) = (r, s')"
        using 1(2) False W n by (subst (asm) write_all.simps) simp
      have e: "sk_write_error s1 = sk_write_error s" by (subst D(5)) simp
      from 1(1) [OF False W [symmetric] refl _ run] n
      have IH: "\<exists>k. sk_out s' = sk_out s1 @ take k (drop n buf)"
        "(\<forall>k. sk_write_error s1 k = None) \<longrightarrow> length (drop n buf) \<le> sk_room s1 \<longrightarrow> sk_out s' = sk_out s1 @ drop n buf"
        by auto
      from IH(1) obtain k where "sk_out s' = sk_out s1 @ take k (drop n buf)" by blast
      with D(1) have "sk_out s' = sk_out s @ take (n + k) buf" by (simp add: take_add)
      with IH(2) D(1,3) e show ?thesis by auto
    next
      case (Err e)
      with W have "s1 = s" using sock_write_ErrD by blast
      moreover from 1(2) False W Err have "s' = s1" by (subst (asm) write_all.simps) simp
      moreover have "sk_write_error s (sk_room s) = Some e \<or> sk_room s = 0"
        using W Err by (auto simp: sock_write_def Let_def split: option.splits if_splits)
      ultimately show ?thesis using False by (auto intro: exI [of _ 0])
    next
      case (Panic m)
      with W sock_write_no_panic show ?thesis by blast
    qed
  qed
qed

lemma reject_line:
  assumes "codec_laws J"
  shows "reject_over_capacity J s = [Refused (sk_out (snd (write_all s (response_line J over_capacity))))]"
proof -
  obtain line where "cd_print_response J over_capacity = Ok line" by (rule codec_response [OF assms])
  then show ?thesis by (simp add: reject_over_capacity_def response_line_def as_bytes_def newline_def byte_of_char_def)
qed

text \<open>
  C32. At the limit the server keeps what it has: every further connection is told, on one line,
  that there are too many (all of the line if its socket takes it, otherwise a prefix), and is
  dropped; the connections being served, the apps and the allocator are not touched.
\<close>

theorem overload_refused:
  assumes "codec_laws J" and "sv_max_connections sv \<le> length (sv_connections sv)"
  shows "\<exists>outs. accept_all E J (map Ok streams) sv c = (Ok (), sv, c\<lparr>cx_trace := cx_trace c @ map Refused outs\<rparr>)
    \<and> list_all2 (\<lambda>(s, split) out.
         (\<exists>n. out = sk_out s @ take n (response_line J over_capacity))
       \<and> (if (\<forall>k. sk_write_error s k = None) \<and> length (response_line J over_capacity) \<le> sk_room s
          then out = sk_out s @ response_line J over_capacity else True)) streams outs"
proof (induction streams arbitrary: c)
  case Nil
  show ?case by (intro exI [of _ "[]"]) simp
next
  case (Cons st streams)
  obtain s split where st: "st = (s, split)" by force
  obtain r s' where W: "write_all s (response_line J over_capacity) = (r, s')" by force
  let ?c = "c\<lparr>cx_trace := cx_trace c @ [Refused (sk_out s')]\<rparr>"
  from Cons.IH [of ?c] obtain outs where
    "accept_all E J (map Ok streams) sv ?c = (Ok (), sv, ?c\<lparr>cx_trace := cx_trace ?c @ map Refused outs\<rparr>)"
    and all: "list_all2 (\<lambda>(s, split) out.
         (\<exists>n. out = sk_out s @ take n (response_line J over_capacity))
       \<and> (if (\<forall>k. sk_write_error s k = None) \<and> length (response_line J over_capacity) \<le> sk_room s
          then out = sk_out s @ response_line J over_capacity else True)) streams outs" by blast
  with assms(2) reject_line [OF assms(1), of s] W st
  have "accept_all E J (map Ok (st # streams)) sv c = (Ok (), sv, c\<lparr>cx_trace := cx_trace c @ map Refused (sk_out s' # outs)\<rparr>)"
    by simp
  with all write_all_spec [OF W] st show ?case
    by (intro exI [of _ "sk_out s' # outs"]) auto
qed

lemma overload_refused_witness:
  "\<exists>out. accept_all sound_env sample_codec [Ok (sample_log_sock, \<lambda>_. 0)] (writing_server\<lparr>sv_max_connections := 1\<rparr>) daemon_ctx
      = (Ok (), writing_server\<lparr>sv_max_connections := 1\<rparr>, daemon_ctx\<lparr>cx_trace := cx_trace daemon_ctx @ [Refused out]\<rparr>)"
  using overload_refused [OF sample_codec_laws, of "writing_server\<lparr>sv_max_connections := 1\<rparr>" sound_env "[(sample_log_sock, \<lambda>_. 0)]" daemon_ctx]
  by (auto simp: writing_server_def list_all2_Cons1)

text \<open>
  The log size \<open>list\<close> and \<open>info\<close> report for an app is the length of everything it has ever
  written (modulo \<open>2 ^ 64\<close>), whatever the ring still holds of it; the reports come in the order of
  the apps, one each.
\<close>

theorem reported_log_bytes:
  assumes "apps_inv E apps c" and "list_infos E apps c = (infos, c')" and "i < length apps"
  shows "i < length infos \<and> ai_name (infos ! i) = a_name (apps ! i)
    \<and> (\<exists>hist. ring_holds (a_log (apps ! i)) hist \<and> ai_log_bytes (infos ! i) = of_nat (length hist))"
  using assms
proof (induction apps arbitrary: c infos i)
  case (Cons a apps)
  obtain info c1 where A: "app_info E a c = (info, c1)" by force
  obtain infos2 c2 where L: "list_infos E apps c1 = (infos2, c2)" by force
  from Cons.prems(2) A L have eqs: "infos = info # infos2" "c' = c2" by simp_all
  have c1: "cx_slab c1 = cx_slab c" using A by (auto simp: app_info_def read_stats_def)
  have inv: "apps_inv E apps c1" by (rule apps_inv_same [OF _ c1]) (use Cons.prems(1) in simp)
  from Cons.prems(1) obtain hist where "log_inv a hist" by (auto simp: app_inv_def)
  then have "ring_holds (a_log a) hist \<and> ai_log_bytes info = of_nat (length hist)" and n: "ai_name info = a_name a"
    using A by (auto simp: app_info_def read_stats_def app_info_of_def Let_def stats_def log_inv_def split: app_state.splits)
  with Cons.IH [OF inv, of infos2] L Cons.prems(3) show ?case
    unfolding eqs by (cases i) auto
qed simp

lemma reported_log_bytes_witness:
  "\<exists>infos c'. list_infos sound_env (dm_apps sample_daemon) daemon_ctx = (infos, c') \<and> 1 < length infos
    \<and> ai_name (infos ! 1) = ''job''"
proof -
  obtain infos c' where L: "list_infos sound_env (dm_apps sample_daemon) daemon_ctx = (infos, c')" by force
  from reported_log_bytes [OF sample_daemon_apps L, of 1] L show ?thesis
    by (simp add: sample_daemon_def daemon_app_def)
qed


end
