(* ===== verification/Cli.thy ===== *)
theory Cli
  imports Ipc LogIpc F64
begin

text \<open>
  The command-line client, \<open>src/src/cli/\<close>: one blocking request to the control socket or the
  log socket, and what is printed of the answer. A command is a function of what the daemon sends
  back to what goes to the standard output, to the standard error, and the exit status.

  The result of \<open>connect\<close> and of \<open>write_all\<close>, and what arrives before the stream ends (as a
  function of what was written), are the record \<open>dial\<close>; a read interrupted by a signal is
  repeated by the standard library, so the error at the end is any other. The names of users and
  groups and the YAML printer are parameters. Not modelled: a closed standard output, on which
  \<open>println!\<close> panics.
\<close>

section \<open>One request\<close>

record dial =
  di_connect :: bool
  di_write :: "bytes \<Rightarrow> (io_error, unit) outcome"
  di_reply :: "bytes \<Rightarrow> bytes \<times> io_error option"

text \<open>\<open>BufRead::read_line\<close>: up to the first newline, or to the end of the stream.\<close>

definition read_line :: "bytes \<times> io_error option \<Rightarrow> (io_error, string) outcome" where
  "read_line reply =
     (case take_line (fst reply) of
        Some (line, _) \<Rightarrow> if valid_utf8 line then Ok (of_bytes line) else Err InvalidData
      | None \<Rightarrow>
          (case snd reply of
             Some e \<Rightarrow> Err e
           | None \<Rightarrow> if valid_utf8 (fst reply) then Ok (of_bytes (fst reply)) else Err InvalidData))"

definition send_request :: "codec \<Rightarrow> (string \<Rightarrow> dial) \<Rightarrow> string \<Rightarrow> request \<Rightarrow> (ipc_error, response) outcome" where
  "send_request J net socket_path q =
     (if \<not> di_connect (net socket_path) then Err (IpcNotRunning socket_path)
      else case map_err IpcJson (cd_print_request J q) of
        Err e \<Rightarrow> Err e | Panic m \<Rightarrow> Panic m
      | Ok line \<Rightarrow>
          (let request = as_bytes (line @ [CHR 0x0A])
           in case map_err IpcIo (di_write (net socket_path) request) of
                Err e \<Rightarrow> Err e | Panic m \<Rightarrow> Panic m
              | Ok _ \<Rightarrow>
                  (case map_err IpcIo (read_line (di_reply (net socket_path) request)) of
                     Err e \<Rightarrow> Err e | Panic m \<Rightarrow> Panic m
                   | Ok line \<Rightarrow>
                       if trim line = '''' then Err (IpcIo UnexpectedEof)
                       else map_err IpcJson (cd_parse_response J (trim line)))))"

definition unexpected :: "(ipc_error, 'a) outcome" where
  "unexpected = Err (IpcDaemon ''unexpected response'')"

section \<open>The requests of the commands\<close>

definition list_apps :: "codec \<Rightarrow> (string \<Rightarrow> dial) \<Rightarrow> string \<Rightarrow> (ipc_error, app_info list) outcome" where
  "list_apps J net socket_path =
     (case send_request J net socket_path ReqList of
        Err e \<Rightarrow> Err e | Panic m \<Rightarrow> Panic m
      | Ok (RespAppList apps) \<Rightarrow> Ok apps
      | Ok (RespError message) \<Rightarrow> Err (IpcDaemon message)
      | Ok (RespAppNotFound name apps) \<Rightarrow> Err (IpcAppNotFound name apps)
      | Ok _ \<Rightarrow> unexpected)"

record app_full_info =
  fi_info :: app_info
  fi_stats :: app_stats
  fi_debug :: app_debug_info

definition get_info :: "codec \<Rightarrow> (string \<Rightarrow> dial) \<Rightarrow> string \<Rightarrow> string \<Rightarrow> (ipc_error, app_full_info) outcome" where
  "get_info J net socket_path name =
     (case send_request J net socket_path (ReqInfo name) of
        Err e \<Rightarrow> Err e | Panic m \<Rightarrow> Panic m
      | Ok (RespInfo _ info s debug) \<Rightarrow> Ok \<lparr>fi_info = info, fi_stats = s, fi_debug = debug\<rparr>
      | Ok (RespAppNotFound name apps) \<Rightarrow> Err (IpcAppNotFound name apps)
      | Ok (RespError message) \<Rightarrow> Err (IpcDaemon message)
      | Ok _ \<Rightarrow> unexpected)"

definition get_config :: "codec \<Rightarrow> (string \<Rightarrow> dial) \<Rightarrow> string \<Rightarrow> string \<Rightarrow> (ipc_error, app_config_snapshot) outcome" where
  "get_config J net socket_path name =
     (case send_request J net socket_path (ReqConfig name) of
        Err e \<Rightarrow> Err e | Panic m \<Rightarrow> Panic m
      | Ok (RespConfig _ config) \<Rightarrow> Ok config
      | Ok (RespAppNotFound name apps) \<Rightarrow> Err (IpcAppNotFound name apps)
      | Ok (RespError message) \<Rightarrow> Err (IpcDaemon message)
      | Ok _ \<Rightarrow> unexpected)"

definition start_app :: "codec \<Rightarrow> (string \<Rightarrow> dial) \<Rightarrow> string \<Rightarrow> string \<Rightarrow> (ipc_error, unit) outcome" where
  "start_app J net socket_path name =
     (case send_request J net socket_path (ReqStart name) of
        Err e \<Rightarrow> Err e | Panic m \<Rightarrow> Panic m
      | Ok (RespStarted _) \<Rightarrow> Ok ()
      | Ok (RespAppNotFound name apps) \<Rightarrow> Err (IpcAppNotFound name apps)
      | Ok (RespError message) \<Rightarrow> Err (IpcDaemon message)
      | Ok _ \<Rightarrow> unexpected)"

definition start_all_apps :: "codec \<Rightarrow> (string \<Rightarrow> dial) \<Rightarrow> string \<Rightarrow>
    (ipc_error, string list \<times> start_failure list) outcome" where
  "start_all_apps J net socket_path =
     (case send_request J net socket_path ReqStartAll of
        Err e \<Rightarrow> Err e | Panic m \<Rightarrow> Panic m
      | Ok (RespStartedAll started failed) \<Rightarrow> Ok (started, failed)
      | Ok (RespError message) \<Rightarrow> Err (IpcDaemon message)
      | Ok (RespAppNotFound name apps) \<Rightarrow> Err (IpcAppNotFound name apps)
      | Ok _ \<Rightarrow> unexpected)"

definition stop_app :: "codec \<Rightarrow> (string \<Rightarrow> dial) \<Rightarrow> string \<Rightarrow> string \<Rightarrow> bool \<Rightarrow> (ipc_error, bool) outcome" where
  "stop_app J net socket_path name force =
     (case send_request J net socket_path (ReqStop name force) of
        Err e \<Rightarrow> Err e | Panic m \<Rightarrow> Panic m
      | Ok (RespStopped _ app_was_running) \<Rightarrow> Ok app_was_running
      | Ok (RespAppNotFound name apps) \<Rightarrow> Err (IpcAppNotFound name apps)
      | Ok (RespError message) \<Rightarrow> Err (IpcDaemon message)
      | Ok _ \<Rightarrow> unexpected)"

definition stop_all_apps :: "codec \<Rightarrow> (string \<Rightarrow> dial) \<Rightarrow> string \<Rightarrow> bool \<Rightarrow>
    (ipc_error, string list \<times> stop_failure list) outcome" where
  "stop_all_apps J net socket_path force =
     (case send_request J net socket_path (ReqStopAll force) of
        Err e \<Rightarrow> Err e | Panic m \<Rightarrow> Panic m
      | Ok (RespStoppedAll stopped failed) \<Rightarrow> Ok (stopped, failed)
      | Ok (RespError message) \<Rightarrow> Err (IpcDaemon message)
      | Ok _ \<Rightarrow> unexpected)"

section \<open>Formatting\<close>

text \<open>The sum of the lines \<open>println!\<close> writes.\<close>

definition println :: "string list \<Rightarrow> string" where
  "println ls = concat (map (\<lambda>l. l @ [CHR 0x0A]) ls)"

text \<open>\<open>{:.1}\<close> of a non-negative \<open>f64\<close>: its exact value rounded to one digit, ties to even.\<close>

fun show_fixed1 :: "f64 \<Rightarrow> string" where
  "show_fixed1 (Fin x) = (let h = nat (round_even (x * 10)) in show_nat (h div 10) @ ''.'' @ show_nat (h mod 10))"
| "show_fixed1 NaN = ''NaN''"
| "show_fixed1 PInf = ''inf''"
| "show_fixed1 NInf = ''-inf''"

text \<open>\<open>value /= 1024.0\<close>.\<close>

fun div_1024 :: "f64 \<Rightarrow> f64" where
  "div_1024 (Fin x) = round_f64 (x / 1024)"
| "div_1024 v = v"

fun scale_units :: "f64 \<Rightarrow> string \<Rightarrow> string list \<Rightarrow> f64 \<times> string" where
  "scale_units value unit [] = (value, unit)"
| "scale_units value unit (n # ns) = (if value < Fin 1024 then (value, unit) else scale_units (div_1024 value) n ns)"

definition format_bytes :: "u64 \<Rightarrow> string" where
  "format_bytes bytes =
     (case scale_units (f64_of_nat (unat bytes)) ''B'' [''kB'', ''MB'', ''GB''] of (value, unit) \<Rightarrow>
        if unit = ''B'' then show_nat (unat bytes) @ '' '' @ unit else show_fixed1 value @ '' '' @ unit)"

definition DURATION_UNITS :: "(nat \<times> string) list" where
  "DURATION_UNITS =
     [(365 * 24 * 60 * 60, ''y''), (30 * 24 * 60 * 60, ''mo''), (7 * 24 * 60 * 60, ''w''), (24 * 60 * 60, ''d''),
      (60 * 60, ''h''), (60, ''m''), (1, ''s'')]"

text \<open>\<open>position\<close> of the first unit that is not larger, the last unit when there is none.\<close>

fun pick_units :: "nat \<Rightarrow> (nat \<times> string) list \<Rightarrow> ((nat \<times> string) \<times> (nat \<times> string) option) option" where
  "pick_units secs [] = None"
| "pick_units secs [u] = Some (u, None)"
| "pick_units secs (u # v # us) = (if fst u \<le> secs then Some (u, Some v) else pick_units secs (v # us))"

definition format_duration_compact :: "duration \<Rightarrow> string" where
  "format_duration_compact d =
     (let secs = d div 1000000000
      in case pick_units secs DURATION_UNITS of
           None \<Rightarrow> ''''
         | Some ((unit_secs, unit_name), next_unit) \<Rightarrow>
             show_nat (secs div unit_secs) @ unit_name @
             (case next_unit of
                None \<Rightarrow> ''''
              | Some (next_unit_secs, next_unit_name) \<Rightarrow>
                  let next_value = secs mod unit_secs div next_unit_secs
                  in if 0 < next_value then '' '' @ show_nat next_value @ next_unit_name else ''''))"

definition format_id :: "nat \<Rightarrow> (nat \<Rightarrow> string option) \<Rightarrow> string" where
  "format_id i resolve_name =
     (case resolve_name i of
        Some name \<Rightarrow> name @ '' ('' @ show_nat i @ '')''
      | None \<Rightarrow> show_nat i)"

definition show_bool :: "bool \<Rightarrow> string" where
  "show_bool b = (if b then ''true'' else ''false'')"

definition format_opt :: "('a \<Rightarrow> string) \<Rightarrow> 'a option \<Rightarrow> string" where
  "format_opt f v = (case v of None \<Rightarrow> ''-'' | Some v \<Rightarrow> f v)"

text \<open>
  \<open>{:.2?}\<close> of a \<open>Duration\<close>: the largest of the units s, ms, \<mu>s (in UTF-8) and ns that is not
  larger than it, with two decimals, ties to even. (The clamping of a value that rounds past
  \<open>u64::MAX\<close> seconds is not modelled.)
\<close>

definition fixed2 :: "nat \<Rightarrow> nat \<Rightarrow> string" where
  "fixed2 nanos unit =
     (let h = nat (round_even (of_nat (nanos * 100) / of_nat unit))
      in show_nat (h div 100) @ ''.'' @ show_nat (h mod 100 div 10) @ show_nat (h mod 10))"

definition debug_duration2 :: "duration \<Rightarrow> string" where
  "debug_duration2 d =
     (if 1000000000 \<le> d then fixed2 d 1000000000 @ ''s''
      else if 1000000 \<le> d then fixed2 d 1000000 @ ''ms''
      else if 1000 \<le> d then fixed2 d 1000 @ [CHR 0xC2, CHR 0xB5, CHR ''s'']
      else fixed2 d 1 @ ''ns'')"

definition format_duration :: "duration option \<Rightarrow> string" where
  "format_duration d = format_opt debug_duration2 d"

section \<open>Printing the answers\<close>

text \<open>\<open>get_username\<close> and \<open>get_groupname\<close>: the databases behind \<open>getpwuid\<close> and \<open>getgrgid\<close>.\<close>

record name_db =
  nd_getpwuid :: "nat \<Rightarrow> bytes option"
  nd_getgrgid :: "nat \<Rightarrow> bytes option"

definition get_username :: "name_db \<Rightarrow> nat \<Rightarrow> string option" where
  "get_username db uid = map_option from_utf8_lossy (nd_getpwuid db uid)"

definition get_groupname :: "name_db \<Rightarrow> nat \<Rightarrow> string option" where
  "get_groupname db gid = map_option from_utf8_lossy (nd_getgrgid db gid)"

definition HEADERS :: "string list" where
  "HEADERS =
     [''NAME'', ''STATE'', ''PID'', ''RUNTIME'', ''COMMAND'', ''CWD'', ''UID'', ''GID'', ''REST'', ''LOG'', ''MEM'',
      ''IO (R/W)'', ''ONESHOT'', ''CPU_W'', ''IO_W'']"

definition app_row :: "name_db \<Rightarrow> app_info \<Rightarrow> string list" where
  "app_row db a =
     [ai_name a, ai_state a, format_opt show_nat (ai_pid a), format_opt format_duration_compact (ai_runtime a),
      ai_command a, ai_cwd a, format_id (ai_uid a) (get_username db), format_id (ai_gid a) (get_groupname db),
      show_nat (unat (ai_restart_count a)), format_bytes (ai_log_bytes a), format_bytes (ai_memory_current a),
      format_bytes (ai_io_read_bytes a) @ '' / '' @ format_bytes (ai_io_write_bytes a), show_bool (ai_oneshot a),
      format_opt show_nat (ai_cpu_weight a), format_opt show_nat (ai_io_weight a)]"

definition widen :: "string list \<Rightarrow> nat list \<Rightarrow> nat list" where
  "widen row widths = map2 (\<lambda>width cell. max width (length cell)) widths row"

definition column_widths :: "string list list \<Rightarrow> nat list" where
  "column_widths rows = fold widen rows (map length HEADERS)"

text \<open>\<open>trim_end\<close>.\<close>

definition trim_end :: "string \<Rightarrow> string" where
  "trim_end s = rev (strip_ws (map rev white_space) (rev s))"

definition row_line :: "nat list \<Rightarrow> string list \<Rightarrow> string" where
  "row_line widths cells = trim_end (join ''  '' (map2 (\<lambda>cell width. pad_right width cell) cells widths))"

definition print_apps_table :: "name_db \<Rightarrow> app_info list \<Rightarrow> string" where
  "print_apps_table db apps =
     (let rows = map (app_row db) apps; widths = column_widths rows
      in println (map (row_line widths) (HEADERS # rows)))"

definition print_info :: "name_db \<Rightarrow> string \<Rightarrow> app_full_info \<Rightarrow> string" where
  "print_info db name full =
     (let info = fi_info full; s = fi_stats full; debug = fi_debug full; g = ad_cgroup_config debug; l = ad_log_buffer debug;
          pos = word_of_nat (lb_write_pos l) :: u64; start = word_of_nat (lb_start_pos l) :: u64
      in println
     [name,
      ''General:'',
      ''  state             '' @ ai_state info,
      ''  pid               '' @ format_opt show_nat (ai_pid info),
      ''  command           '' @ ai_command info,
      ''  cwd               '' @ ai_cwd info,
      ''  uid               '' @ format_id (ai_uid info) (get_username db),
      ''  gid               '' @ format_id (ai_gid info) (get_groupname db),
      ''  oneshot           '' @ show_bool (ai_oneshot info),
      ''  cpu_weight        '' @ format_opt show_nat (ai_cpu_weight info),
      ''  io_weight         '' @ format_opt show_nat (ai_io_weight info),
      ''  runtime           '' @ format_opt format_duration_compact (ai_runtime info),
      ''Lifecycle:'',
      ''  uptime            '' @ format_duration (stats_uptime s),
      ''  total_uptime      '' @ format_duration (Some (stats_total_uptime s)),
      ''  last_run_duration '' @ format_duration (stats_last_run_duration s),
      ''  restart_count     '' @ show_nat (unat (stats_restart_count s)),
      ''  last_exit_code    '' @ format_opt show_int (stats_last_exit_code s),
      ''  last_exit_reason  '' @ unwrap_or (stats_last_exit_reason s) ''-'',
      ''Resource usage:'',
      ''  cpu_usage_usec    '' @ show_nat (unat (cu_cpu_usage_usec (stats_usage s))),
      ''  memory_current    '' @ format_bytes (cu_memory_current (stats_usage s)),
      ''  memory_peak       '' @ format_bytes (cu_memory_peak (stats_usage s)),
      ''I/O:'',
      ''  io_read_bytes     '' @ format_bytes (cu_io_read_bytes (stats_usage s)),
      ''  io_write_bytes    '' @ format_bytes (cu_io_write_bytes (stats_usage s)),
      ''  stdout_bytes      '' @ format_bytes (stats_stdout_bytes s),
      ''  stderr_bytes      '' @ format_bytes (stats_stderr_bytes s),
      ''Debug:'',
      ''  cgroup_path         '' @ unwrap_or (ad_cgroup_path debug) ''-'',
      ''  memory_hard_limit   '' @ format_opt show_int (memory_hard_limit g),
      ''  memory_soft_limit   '' @ format_opt show_int (memory_soft_limit g),
      ''  memory_swap_limit   '' @ format_opt show_int (memory_swap_limit g),
      ''Log buffer:'',
      ''  kind                '' @ lb_kind l,
      ''  capacity            '' @ format_opt (\<lambda>n. format_bytes (word_of_nat n)) (lb_capacity l),
      ''  retained            '' @ format_bytes (pos - start),
      ''  write_pos           '' @ format_bytes pos,
      ''  start_pos           '' @ format_bytes start])"

section \<open>Printing a configuration\<close>

text \<open>The entry that \<open>serde_yaml\<close> prints; an empty \<open>env\<close> is left out.\<close>

record app_config_yaml =
  cy_name :: string
  cy_command :: string
  cy_workdir :: string
  cy_user :: nat
  cy_group :: nat
  cy_env :: "(string \<times> string) list"
  cy_oneshot :: bool
  cy_autostart :: bool
  cy_restart :: restart_policy
  cy_cgroup :: app_cgroup_config
  cy_log_buffer_size :: nat

text \<open>
  A \<open>Mapping\<close> keeps the order of insertion; inserting at a key it holds replaces the value in
  place.
\<close>

definition env_mapping :: "string list \<Rightarrow> (string \<times> string) list" where
  "env_mapping entries =
     fold (\<lambda>entry env. case split_once CHR ''='' entry of Some (key, value) \<Rightarrow> AList.update key value env | None \<Rightarrow> env)
       entries []"

definition yaml_of_config :: "app_config_snapshot \<Rightarrow> app_config_yaml" where
  "yaml_of_config config =
     \<lparr>cy_name = ac_name config, cy_command = ac_command config, cy_workdir = ac_workdir config, cy_user = ac_uid config,
      cy_group = ac_gid config, cy_env = env_mapping (ac_env config), cy_oneshot = ac_oneshot config,
      cy_autostart = ac_autostart config, cy_restart = ac_restart config, cy_cgroup = ac_cgroup config,
      cy_log_buffer_size = ac_log_buffer_size config\<rparr>"

definition print_config :: "(app_config_yaml \<Rightarrow> (string, string) outcome) \<Rightarrow> app_config_snapshot \<Rightarrow> (unit, string) outcome" where
  "print_config to_yaml config = expect ''serialize app config to yaml'' (to_yaml (yaml_of_config config))"

section \<open>Logs\<close>

definition log_request :: "string \<Rightarrow> bool \<Rightarrow> bytes" where
  "log_request name follow =
     (let name_bytes = take (min (length name) 255) (as_bytes name)
      in [if follow then 1 else 0, word_of_nat (length name_bytes)] @ name_bytes)"

text \<open>
  \<open>logs::run\<close>: what was printed before the stream ended, and how it ended. The reads come in
  pieces of any size, each written out as it is.
\<close>

definition logs_run :: "(string \<Rightarrow> dial) \<Rightarrow> string \<Rightarrow> string \<Rightarrow> bool \<Rightarrow> bytes \<times> (ipc_error, unit) outcome" where
  "logs_run net log_socket_path name follow =
     (if \<not> di_connect (net log_socket_path) then ([], Err (IpcNotRunning log_socket_path))
      else let request = log_request name follow
           in case map_err IpcIo (di_write (net log_socket_path) request) of
                Err e \<Rightarrow> ([], Err e) | Panic m \<Rightarrow> ([], Panic m)
              | Ok _ \<Rightarrow>
                  (case di_reply (net log_socket_path) request of
                     (bs, None) \<Rightarrow> (bs, Ok ())
                   | (bs, Some e) \<Rightarrow> (bs, Err (IpcIo e))))"

section \<open>The commands\<close>

datatype command =
    CmdList
  | CmdInfo string
  | CmdConfig string
  | CmdStart string
  | CmdStartAll
  | CmdStop string bool
  | CmdStopAll bool
  | CmdLog string bool

text \<open>What a client leaves behind: its output and its exit status (134 after a panic).\<close>

record cli_result =
  cr_out :: bytes
  cr_err :: string
  cr_status :: nat

definition cli_ok :: "string \<Rightarrow> cli_result" where
  "cli_ok s = \<lparr>cr_out = as_bytes s, cr_err = '''', cr_status = 0\<rparr>"

definition cli_fail :: "codec \<Rightarrow> ipc_error \<Rightarrow> cli_result" where
  "cli_fail J e = \<lparr>cr_out = [], cr_err = println [''error: '' @ ipc_error_msg (cd_io_msg J) e], cr_status = 1\<rparr>"

definition cli_panic :: "string \<Rightarrow> cli_result" where
  "cli_panic m = \<lparr>cr_out = [], cr_err = m, cr_status = 134\<rparr>"

fun finish :: "codec \<Rightarrow> ('a \<Rightarrow> cli_result) \<Rightarrow> (ipc_error, 'a) outcome \<Rightarrow> cli_result" where
  "finish J f (Ok x) = f x"
| "finish J f (Err e) = cli_fail J e"
| "finish J f (Panic m) = cli_panic m"

definition run_list_client :: "codec \<Rightarrow> name_db \<Rightarrow> (string \<Rightarrow> dial) \<Rightarrow> string \<Rightarrow> cli_result" where
  "run_list_client J db net socket_path = finish J (\<lambda>apps. cli_ok (print_apps_table db apps)) (list_apps J net socket_path)"

definition run_info_client :: "codec \<Rightarrow> name_db \<Rightarrow> (string \<Rightarrow> dial) \<Rightarrow> string \<Rightarrow> string \<Rightarrow> cli_result" where
  "run_info_client J db net socket_path name =
     finish J (\<lambda>full. cli_ok (print_info db name full)) (get_info J net socket_path name)"

definition run_config_client :: "codec \<Rightarrow> (app_config_yaml \<Rightarrow> (string, string) outcome) \<Rightarrow> (string \<Rightarrow> dial) \<Rightarrow> string \<Rightarrow>
    string \<Rightarrow> cli_result" where
  "run_config_client J to_yaml net socket_path name =
     finish J (\<lambda>config. case print_config to_yaml config of Ok yaml \<Rightarrow> cli_ok yaml | Err _ \<Rightarrow> cli_panic '''' | Panic m \<Rightarrow> cli_panic m)
       (get_config J net socket_path name)"

definition run_start_client :: "codec \<Rightarrow> (string \<Rightarrow> dial) \<Rightarrow> string \<Rightarrow> string \<Rightarrow> cli_result" where
  "run_start_client J net socket_path name =
     finish J (\<lambda>_. cli_ok (println [''started '' @ name])) (start_app J net socket_path name)"

text \<open>One line per app, one per failure; the status tells whether there was a failure.\<close>

definition print_start_all_result :: "string list \<Rightarrow> start_failure list \<Rightarrow> string \<times> string" where
  "print_start_all_result started failed =
     (println (map (\<lambda>name. ''started '' @ name) started),
      println (map (\<lambda>f. ''error: '' @ sf_name f @ '': '' @ sf_message f) failed))"

definition print_stop_all_result :: "string list \<Rightarrow> stop_failure list \<Rightarrow> string \<times> string" where
  "print_stop_all_result stopped failed =
     (println (map (\<lambda>name. ''stopped '' @ name) stopped),
      println (map (\<lambda>f. ''error: '' @ pf_name f @ '': '' @ pf_message f) failed))"

definition run_start_all_client :: "codec \<Rightarrow> (string \<Rightarrow> dial) \<Rightarrow> string \<Rightarrow> cli_result" where
  "run_start_all_client J net socket_path =
     finish J (\<lambda>(started, failed). case print_start_all_result started failed of (out, err) \<Rightarrow>
         \<lparr>cr_out = as_bytes out, cr_err = err, cr_status = (if failed = [] then 0 else 1)\<rparr>)
       (start_all_apps J net socket_path)"

definition run_stop_client :: "codec \<Rightarrow> (string \<Rightarrow> dial) \<Rightarrow> string \<Rightarrow> string \<Rightarrow> bool \<Rightarrow> cli_result" where
  "run_stop_client J net socket_path name force =
     finish J (\<lambda>app_was_running.
         cli_ok (println [if app_was_running then ''stopped '' @ name else name @ '' was not running'']))
       (stop_app J net socket_path name force)"

definition run_stop_all_client :: "codec \<Rightarrow> (string \<Rightarrow> dial) \<Rightarrow> string \<Rightarrow> bool \<Rightarrow> cli_result" where
  "run_stop_all_client J net socket_path force =
     finish J (\<lambda>(stopped, failed). case print_stop_all_result stopped failed of (out, err) \<Rightarrow>
         \<lparr>cr_out = as_bytes out, cr_err = err, cr_status = (if failed = [] then 0 else 1)\<rparr>)
       (stop_all_apps J net socket_path force)"

text \<open>The app must be known to the control socket before the log socket is asked.\<close>

definition run_log_client :: "codec \<Rightarrow> (string \<Rightarrow> dial) \<Rightarrow> string \<Rightarrow> string \<Rightarrow> string \<Rightarrow> bool \<Rightarrow> cli_result" where
  "run_log_client J net socket_path log_socket_path name follow =
     finish J (\<lambda>apps.
         if \<not> list_ex (\<lambda>a. ai_name a = name) apps then cli_fail J (IpcAppNotFound name (map ai_name apps))
         else case logs_run net log_socket_path name follow of (out, r) \<Rightarrow>
                (finish J (\<lambda>_. cli_ok '''') r)\<lparr>cr_out := out\<rparr>)
       (list_apps J net socket_path)"

definition run_client_command :: "codec \<Rightarrow> name_db \<Rightarrow> (app_config_yaml \<Rightarrow> (string, string) outcome) \<Rightarrow> (string \<Rightarrow> dial) \<Rightarrow>
    command \<Rightarrow> string \<Rightarrow> string \<Rightarrow> cli_result" where
  "run_client_command J db to_yaml net command socket_path log_socket_path =
     (case command of
        CmdList \<Rightarrow> run_list_client J db net socket_path
      | CmdInfo name \<Rightarrow> run_info_client J db net socket_path name
      | CmdConfig name \<Rightarrow> run_config_client J to_yaml net socket_path name
      | CmdStart name \<Rightarrow> run_start_client J net socket_path name
      | CmdStartAll \<Rightarrow> run_start_all_client J net socket_path
      | CmdStop name force \<Rightarrow> run_stop_client J net socket_path name force
      | CmdStopAll force \<Rightarrow> run_stop_all_client J net socket_path force
      | CmdLog name follow \<Rightarrow> run_log_client J net socket_path log_socket_path name follow)"

end
