(* ===== verification/Serde.thy ===== *)
theory Serde
  imports F64 "HOL-Library.Monad_Syntax"
begin

text \<open>
  What \<open>#[derive(Serialize, Deserialize)]\<close> makes of a type declaration, as documented by
  \<open>serde\<close>: the readers of structs and of internally tagged enums, the attributes \<open>default\<close>,
  \<open>flatten\<close>, \<open>tag\<close>, \<open>untagged\<close> and \<open>skip_serializing_if\<close> the source uses, and the
  readers of the primitive types. The data formats (\<open>serde_json\<close>, \<open>serde_yaml\<close>) are a
  parameter: a \<open>deserializer\<close> tells what a format makes of a node of its input under each of
  the requests a derived reader can make. An error is \<open>None\<close>; its text is the format's.
\<close>

section \<open>Values and formats\<close>

text \<open>
  Serde's data model, which is also the buffer (\<open>Content\<close>) that tagged, untagged and flattened
  values are read from.
\<close>

datatype content =
    CNull
  | CBool bool
  | CInt int
  | CFloat f64
  | CStr string
  | CSeq "content list"
  | CMap "(string \<times> content) list"

text \<open>
  The answers of a format about a node \<open>'n\<close>: as a value of any type, as null, bool, integer,
  string, sequence and map. \<open>ds_ident\<close> is how the name of a variant may be written in the tag
  of an enum: by name, or by its index.
\<close>

record 'n deserializer =
  ds_any :: "'n \<Rightarrow> content"
  ds_null :: "'n \<Rightarrow> bool"
  ds_bool :: "'n \<Rightarrow> bool option"
  ds_int :: "'n \<Rightarrow> int option"
  ds_str :: "'n \<Rightarrow> string option"
  ds_seq :: "'n \<Rightarrow> 'n list option"
  ds_map :: "'n \<Rightarrow> (string \<times> 'n) list option"
  ds_ident :: "content \<Rightarrow> (string + nat) option"

text \<open>The format of a buffered value.\<close>

definition content_de :: "content deserializer" where
  "content_de =
     \<lparr>ds_any = (\<lambda>v. v),
      ds_null = (\<lambda>v. case v of CNull \<Rightarrow> True | _ \<Rightarrow> False),
      ds_bool = (\<lambda>v. case v of CBool b \<Rightarrow> Some b | _ \<Rightarrow> None),
      ds_int = (\<lambda>v. case v of CInt i \<Rightarrow> Some i | _ \<Rightarrow> None),
      ds_str = (\<lambda>v. case v of CStr s \<Rightarrow> Some s | _ \<Rightarrow> None),
      ds_seq = (\<lambda>v. case v of CSeq vs \<Rightarrow> Some vs | _ \<Rightarrow> None),
      ds_map = (\<lambda>v. case v of CMap kvs \<Rightarrow> Some kvs | _ \<Rightarrow> None),
      ds_ident = (\<lambda>v. case v of CStr s \<Rightarrow> Some (Inl s) | CInt i \<Rightarrow> (if 0 \<le> i then Some (Inr (nat i)) else None) | _ \<Rightarrow> None)\<rparr>"

text \<open>\<open>from_str\<close>: \<open>parse\<close> is the syntax, \<open>de\<close> the reader of the type.\<close>

definition from_str :: "(string \<Rightarrow> 'n option) \<Rightarrow> ('n \<Rightarrow> 'a option) \<Rightarrow> (string \<Rightarrow> string) \<Rightarrow> string \<Rightarrow> (string, 'a) outcome" where
  "from_str parse de message text =
     (case parse text \<bind> de of Some x \<Rightarrow> Ok x | None \<Rightarrow> Err (message text))"

section \<open>Primitive types\<close>

text \<open>An unsigned or signed integer of a width: out of range is an error.\<close>

definition de_uint :: "nat \<Rightarrow> 'n deserializer \<Rightarrow> 'n \<Rightarrow> nat option" where
  "de_uint w D n = do { i \<leftarrow> ds_int D n; if 0 \<le> i \<and> i < 2 ^ w then Some (nat i) else None }"

definition de_sint :: "nat \<Rightarrow> 'n deserializer \<Rightarrow> 'n \<Rightarrow> int option" where
  "de_sint w D n = do { i \<leftarrow> ds_int D n; if - (2 ^ (w - 1)) \<le> i \<and> i < 2 ^ (w - 1) then Some i else None }"

definition de_word :: "'n deserializer \<Rightarrow> 'n \<Rightarrow> 'w::len word option" where
  "de_word D n = map_option of_nat (de_uint LENGTH('w) D n)"

text \<open>An integer is read as a float, too.\<close>

definition de_f64 :: "content \<Rightarrow> f64 option" where
  "de_f64 v = (case v of CFloat x \<Rightarrow> Some x | CInt i \<Rightarrow> Some (round_f64 (of_int i)) | _ \<Rightarrow> None)"

definition de_option :: "'n deserializer \<Rightarrow> ('n \<Rightarrow> 'a option) \<Rightarrow> 'n \<Rightarrow> 'a option option" where
  "de_option D f n = (if ds_null D n then Some None else map_option Some (f n))"

definition de_seq :: "'n deserializer \<Rightarrow> ('n \<Rightarrow> 'a option) \<Rightarrow> 'n \<Rightarrow> 'a list option" where
  "de_seq D f n = do { ns \<leftarrow> ds_seq D n; those (map f ns) }"

text \<open>A \<open>HashMap<String, String>\<close>: of several entries of a key the last one counts.\<close>

definition de_string_map :: "'n deserializer \<Rightarrow> 'n \<Rightarrow> (string \<times> string) list option" where
  "de_string_map D n = do {
     ms \<leftarrow> ds_map D n;
     kvs \<leftarrow> those (map (\<lambda>(k, m). map_option (Pair k) (ds_str D m)) ms);
     Some (fold (\<lambda>(k, v). AList.update k v) kvs []) }"

section \<open>Structs\<close>

text \<open>
  The node of a field: there, missing in a map, or beyond the end of a sequence. A map may hold
  further keys, which are ignored, but no field twice; a sequence gives the fields in their order
  and may not be longer.
\<close>

datatype 'n slot = Present 'n | Absent | Short

definition map_slots :: "string list \<Rightarrow> (string \<times> 'n) list \<Rightarrow> (string \<Rightarrow> 'n slot) option" where
  "map_slots names ms =
     (if distinct (filter (\<lambda>k. k \<in> set names) (map fst ms))
      then Some (\<lambda>f. case map_of ms f of Some n \<Rightarrow> Present n | None \<Rightarrow> Absent)
      else None)"

definition struct_slots :: "'n deserializer \<Rightarrow> string list \<Rightarrow> 'n \<Rightarrow> (string \<Rightarrow> 'n slot) option" where
  "struct_slots D names n =
     (case ds_map D n of
        Some ms \<Rightarrow> map_slots names ms
      | None \<Rightarrow>
          (case ds_seq D n of
             Some ns \<Rightarrow>
               if length ns \<le> length names
               then Some (\<lambda>f. case map_of (zip names ns) f of Some m \<Rightarrow> Present m | None \<Rightarrow> Short)
               else None
           | None \<Rightarrow> None))"

text \<open>
  A field that must be there, one of an \<open>Option\<close> type, which may be missing in a map, and one
  with a default.
\<close>

definition req :: "('n \<Rightarrow> 'a option) \<Rightarrow> 'n slot \<Rightarrow> 'a option" where
  "req f s = (case s of Present n \<Rightarrow> f n | _ \<Rightarrow> None)"

definition opt :: "'n deserializer \<Rightarrow> ('n \<Rightarrow> 'a option) \<Rightarrow> 'n slot \<Rightarrow> 'a option option" where
  "opt D f s = (case s of Present n \<Rightarrow> de_option D f n | Absent \<Rightarrow> Some None | Short \<Rightarrow> None)"

definition dflt :: "'a \<Rightarrow> ('n \<Rightarrow> 'a option) \<Rightarrow> 'n slot \<Rightarrow> 'a option" where
  "dflt d f s = (case s of Present n \<Rightarrow> f n | _ \<Rightarrow> Some d)"

section \<open>Internally tagged enums\<close>

text \<open>
  The variant named by the tag and what is left for its fields: the other entries of a map, or
  the other elements of a sequence, whose first is the tag.
\<close>

definition variant_of :: "'n deserializer \<Rightarrow> string list \<Rightarrow> content \<Rightarrow> string option" where
  "variant_of D variants t =
     (case ds_ident D t of
        Some (Inl s) \<Rightarrow> if s \<in> set variants then Some s else None
      | Some (Inr i) \<Rightarrow> if i < length variants then Some (variants ! i) else None
      | None \<Rightarrow> None)"

definition tagged :: "string \<Rightarrow> string list \<Rightarrow> 'n deserializer \<Rightarrow> 'n \<Rightarrow> (string \<times> content) option" where
  "tagged tag variants D n =
     (case ds_any D n of
        CMap kvs \<Rightarrow>
          (case filter (\<lambda>kv. fst kv = tag) kvs of
             [(_, t)] \<Rightarrow> map_option (\<lambda>v. (v, CMap (filter (\<lambda>kv. fst kv \<noteq> tag) kvs))) (variant_of D variants t)
           | _ \<Rightarrow> None)
      | CSeq (t # vs) \<Rightarrow> map_option (\<lambda>v. (v, CSeq vs)) (variant_of D variants t)
      | _ \<Rightarrow> None)"

text \<open>A variant without fields ignores the entries of a map, but admits no further element.\<close>

definition de_unit_variant :: "content \<Rightarrow> unit option" where
  "de_unit_variant c = (case c of CMap _ \<Rightarrow> Some () | CSeq [] \<Rightarrow> Some () | _ \<Rightarrow> None)"

section \<open>Writing\<close>

definition ser_option :: "('a \<Rightarrow> content) \<Rightarrow> 'a option \<Rightarrow> content" where
  "ser_option f x = (case x of None \<Rightarrow> CNull | Some y \<Rightarrow> f y)"

definition ser_nat :: "nat \<Rightarrow> content" where
  "ser_nat n = CInt (int n)"

definition ser_word :: "'w::len word \<Rightarrow> content" where
  "ser_word x = CInt (uint x)"

text \<open>\<open>skip_serializing_if = "Option::is_none"\<close>.\<close>

definition ser_skip_none :: "string \<Rightarrow> ('a \<Rightarrow> content) \<Rightarrow> 'a option \<Rightarrow> (string \<times> content) list" where
  "ser_skip_none name f x = (case x of None \<Rightarrow> [] | Some y \<Rightarrow> [(name, f y)])"

section \<open>What a format makes of a value\<close>

text \<open>
  \<open>presents D v n\<close>: the node \<open>n\<close> of a format is a faithful copy of \<open>v\<close>, that is, every request
  that fits \<open>v\<close> gets the answer that \<open>v\<close> gives. Of requests that do not fit nothing is said
  (YAML, for one, reads a number as a string when asked for one).
\<close>

inductive presents :: "'n deserializer \<Rightarrow> content \<Rightarrow> 'n \<Rightarrow> bool" for D where
  null: "ds_any D n = CNull \<Longrightarrow> ds_null D n \<Longrightarrow> presents D CNull n"
| bool: "ds_any D n = CBool b \<Longrightarrow> \<not> ds_null D n \<Longrightarrow> ds_bool D n = Some b \<Longrightarrow> presents D (CBool b) n"
| int: "ds_any D n = CInt i \<Longrightarrow> \<not> ds_null D n \<Longrightarrow> ds_int D n = Some i \<Longrightarrow> presents D (CInt i) n"
| float: "ds_any D n = CFloat x \<Longrightarrow> \<not> ds_null D n \<Longrightarrow> presents D (CFloat x) n"
| str: "ds_any D n = CStr s \<Longrightarrow> \<not> ds_null D n \<Longrightarrow> ds_str D n = Some s \<Longrightarrow> presents D (CStr s) n"
| seq: "ds_any D n = CSeq vs \<Longrightarrow> \<not> ds_null D n \<Longrightarrow> ds_map D n = None \<Longrightarrow> ds_seq D n = Some ns
    \<Longrightarrow> list_all2 (presents D) vs ns \<Longrightarrow> presents D (CSeq vs) n"
| map: "ds_any D n = CMap kvs \<Longrightarrow> \<not> ds_null D n \<Longrightarrow> ds_map D n = Some ms
    \<Longrightarrow> list_all2 (\<lambda>kv km. fst kv = fst km \<and> presents D (snd kv) (snd km)) kvs ms \<Longrightarrow> presents D (CMap kvs) n"

inductive_simps presents_simps:
  "presents D CNull n" "presents D (CBool b) n" "presents D (CInt i) n" "presents D (CFloat x) n"
  "presents D (CStr s) n" "presents D (CSeq vs) n" "presents D (CMap kvs) n"

lemma presents_any: "presents D v n \<Longrightarrow> ds_any D n = v"
  by (erule presents.cases) simp_all

lemma presents_null: "presents D v n \<Longrightarrow> ds_null D n \<longleftrightarrow> v = CNull"
  by (erule presents.cases) simp_all

text \<open>A value presents itself.\<close>

lemma content_presents: "presents content_de v v"
proof (induction v)
  case (CSeq vs)
  then have "list_all2 (presents content_de) vs vs" by (simp add: list_all2_same)
  then show ?case by (simp add: presents_simps content_de_def)
next
  case (CMap kvs)
  then have "list_all2 (\<lambda>kv km. fst kv = fst km \<and> presents content_de (snd kv) (snd km)) kvs kvs"
    by (auto simp: list_all2_same snds.simps)
  then show ?case by (simp add: presents_simps content_de_def)
qed (simp_all add: presents_simps content_de_def)

section \<open>Reading back\<close>

text \<open>The readers on the buffered values, constructor by constructor.\<close>

lemma content_de_simps [simp]:
  "ds_any content_de v = v"
  "ds_null content_de v \<longleftrightarrow> v = CNull"
  "ds_bool content_de (CBool b) = Some b"
  "ds_int content_de (CInt i) = Some i"
  "ds_str content_de (CStr s) = Some s"
  "ds_seq content_de (CSeq vs) = Some vs"
  "ds_map content_de (CMap kvs) = Some kvs"
  "ds_map content_de (CSeq vs) = None"
  "ds_ident content_de (CStr s) = Some (Inl s)"
  by (cases v; simp add: content_de_def)+

lemma slot_simps [simp]:
  "req f (Present n) = f n" "req f Absent = None" "req f Short = None"
  "opt D f (Present n) = de_option D f n" "opt D f Absent = Some None" "opt D f Short = None"
  "dflt d f (Present n) = f n" "dflt d f Absent = Some d" "dflt d f Short = Some d"
  by (simp_all add: req_def opt_def dflt_def)

lemma ser_nat_simps [simp]: "ser_nat k \<noteq> CNull" "k < 2 ^ w \<Longrightarrow> de_uint w content_de (ser_nat k) = Some k"
  by (simp_all add: ser_nat_def de_uint_def)

lemma ser_word_simps [simp]: "ser_word x \<noteq> CNull" "de_word content_de (ser_word x) = Some x"
  using uint_bounded [of x] by (simp_all add: ser_word_def de_word_def de_uint_def)

lemma de_sint_CInt [simp]:
  "- (2 ^ (w - 1)) \<le> i \<Longrightarrow> i < 2 ^ (w - 1) \<Longrightarrow> de_sint w content_de (CInt i) = Some i"
  by (simp add: de_sint_def)

lemma de_f64_CFloat [simp]: "de_f64 (CFloat x) = Some x"
  by (simp add: de_f64_def)

lemma de_option_ser [simp]:
  "de_option D f n = Some None \<longleftrightarrow> ds_null D n"
  "de_option content_de f CNull = Some None"
  by (auto simp: de_option_def)

lemma de_option_ser_option:
  "(\<And>y. x = Some y \<Longrightarrow> ser y \<noteq> CNull \<and> f (ser y) = Some y) \<Longrightarrow> de_option content_de f (ser_option ser x) = Some x"
  by (cases x) (simp_all add: de_option_def ser_option_def)

lemma those_map: "(\<And>x. x \<in> set xs \<Longrightarrow> f (g x) = Some (h x)) \<Longrightarrow> those (map f (map g xs)) = Some (map h xs)"
  by (induction xs) simp_all

lemma de_seq_ser: "(\<And>x. x \<in> set xs \<Longrightarrow> f (ser x) = Some x) \<Longrightarrow> de_seq content_de f (CSeq (map ser xs)) = Some xs"
  using those_map [of xs f ser id] by (simp add: de_seq_def del: map_map)

text \<open>Structs written as maps with distinct keys.\<close>

lemma map_slots_distinct:
  "distinct (map fst ms) \<Longrightarrow> map_slots names ms = Some (\<lambda>f. case map_of ms f of Some n \<Rightarrow> Present n | None \<Rightarrow> Absent)"
  by (simp add: map_slots_def)

lemma struct_slots_map:
  "ds_map D n = Some ms \<Longrightarrow> distinct (map fst ms) \<Longrightarrow>
     struct_slots D names n = Some (\<lambda>f. case map_of ms f of Some n \<Rightarrow> Present n | None \<Rightarrow> Absent)"
  by (simp add: struct_slots_def map_slots_distinct)

lemma tagged_CStr:
  "tag \<notin> set (map fst kvs) \<Longrightarrow> v \<in> set variants \<Longrightarrow> ds_ident D (CStr v) = Some (Inl v) \<Longrightarrow> ds_any D n = CMap ((tag, CStr v) # kvs)
     \<Longrightarrow> tagged tag variants D n = Some (v, CMap kvs)"
proof -
  assume a: "tag \<notin> set (map fst kvs)" "v \<in> set variants" "ds_ident D (CStr v) = Some (Inl v)"
    "ds_any D n = CMap ((tag, CStr v) # kvs)"
  from a(1) have f: "filter (\<lambda>kv. fst kv = tag) kvs = []" "filter (\<lambda>kv. fst kv \<noteq> tag) kvs = kvs"
    by (induction kvs) auto
  from a(2-4) show ?thesis by (simp add: tagged_def variant_of_def f)
qed

text \<open>The entries of a map in a format that presents it.\<close>

lemma presents_map_any:
  "list_all2 (\<lambda>kv km. fst kv = fst km \<and> presents D (snd kv) (snd km)) kvs ms \<Longrightarrow>
     map (\<lambda>(k, m). (k, ds_any D m)) ms = kvs"
  by (induction rule: list_all2_induct) (auto simp: presents_any)

lemma presents_map_keys:
  "list_all2 (\<lambda>kv km. fst kv = fst km \<and> presents D (snd kv) (snd km)) kvs ms \<Longrightarrow> map fst ms = map fst kvs"
  by (induction rule: list_all2_induct) auto

lemma presents_map_of:
  "list_all2 (\<lambda>kv km. fst kv = fst km \<and> presents D (snd kv) (snd km)) kvs ms \<Longrightarrow>
     case map_of kvs f of None \<Rightarrow> map_of ms f = None | Some v \<Rightarrow> \<exists>m. map_of ms f = Some m \<and> presents D v m"
  by (induction rule: list_all2_induct) (auto split: prod.splits option.splits)

lemma struct_presents:
  assumes "presents D (CMap kvs) n" and "distinct (map fst kvs)"
  obtains g where "struct_slots D names n = Some g"
    and "\<And>f. case map_of kvs f of None \<Rightarrow> g f = Absent | Some v \<Rightarrow> \<exists>m. g f = Present m \<and> presents D v m"
proof -
  from assms(1) obtain ms where ms: "ds_map D n = Some ms"
    and all: "list_all2 (\<lambda>kv km. fst kv = fst km \<and> presents D (snd kv) (snd km)) kvs ms"
    by (auto simp: presents_simps)
  from presents_map_keys [OF all] assms(2) have dist: "distinct (map fst ms)" by simp
  show thesis
  proof (rule that [OF struct_slots_map [OF ms dist]])
    fix f
    from presents_map_of [OF all, of f]
    show "case map_of kvs f of None \<Rightarrow> (case map_of ms f of None \<Rightarrow> Absent | Some n \<Rightarrow> Present n) = Absent
      | Some v \<Rightarrow> \<exists>m. (case map_of ms f of None \<Rightarrow> Absent | Some n \<Rightarrow> Present n) = Present m \<and> presents D v m"
      by (auto split: option.splits)
  qed
qed

lemma presents_uint: "presents D (ser_nat k) n \<Longrightarrow> k < 2 ^ w \<Longrightarrow> de_uint w D n = Some k"
  by (simp add: ser_nat_def presents_simps de_uint_def)

lemma presents_word: "presents D (ser_word (x :: 'w::len word)) n \<Longrightarrow> de_word D n = Some x"
  using uint_bounded [of x] by (simp add: ser_word_def presents_simps de_word_def de_uint_def)

lemma presents_option:
  assumes "presents D (ser_option ser x) n" and "\<And>y. x = Some y \<Longrightarrow> ser y \<noteq> CNull \<and> (\<forall>n. presents D (ser y) n \<longrightarrow> f n = Some y)"
  shows "de_option D f n = Some x"
  using assms by (cases x) (auto simp: ser_option_def de_option_def presents_null)

lemma presents_string_map:
  assumes "presents D (CMap (map (\<lambda>(k, v). (k, CStr v)) kvs)) n" and "distinct (map fst kvs)"
  shows "de_string_map D n = Some kvs"
proof -
  from assms(1) obtain ms where ms: "ds_map D n = Some ms"
    and all: "list_all2 (\<lambda>kv km. fst kv = fst km \<and> presents D (snd kv) (snd km)) (map (\<lambda>(k, v). (k, CStr v)) kvs) ms"
    by (auto simp: presents_simps)
  from all have "those (map (\<lambda>(k, m). map_option (Pair k) (ds_str D m)) ms) = Some kvs"
  proof (induction kvs arbitrary: ms)
    case (Cons kv kvs)
    then show ?case by (cases ms) (auto simp: presents_simps split: prod.splits)
  qed simp
  moreover have "fold (\<lambda>(k, v). AList.update k v) kvs acc = acc @ kvs" if "distinct (map fst (acc @ kvs))" for acc
    using that
  proof (induction kvs arbitrary: acc)
    case (Cons kv kvs)
    obtain k v where kv: "kv = (k, v)" by force
    have "AList.update k v al = al @ [(k, v)]" if "k \<notin> set (map fst al)" for al
      using that by (induction al) auto
    with Cons.prems kv have "AList.update k v acc = acc @ [(k, v)]" by simp
    with Cons.IH [of "acc @ [(k, v)]"] Cons.prems kv show ?case by simp
  qed simp
  from this [of "[]"] assms(2) have "fold (\<lambda>(k, v). AList.update k v) kvs [] = kvs" by simp
  ultimately show ?thesis by (simp add: de_string_map_def ms)
qed

end
