(* ===== verification/Config_Serde.thy ===== *)
theory Config_Serde
  imports Serde Cli Config "HOL-Library.Multiset"
begin

text \<open>
  The configuration as text: the readers derived for the types of \<open>src/src/parser.rs\<close>,
  \<open>src/src/restart.rs\<close>, \<open>src/src/cgroups.rs\<close> and \<open>src/src/config.rs\<close> with their attributes,
  and the writers of the entry that \<open>lway config\<close> prints (\<open>src/src/cli/config.rs\<close>). The
  lemmas show that what is written is read back, for every format.
\<close>

section \<open>Restart policies\<close>

definition ser_restart_delay :: "restart_delay \<Rightarrow> content" where
  "ser_restart_delay s =
     (case s of
        Never \<Rightarrow> CMap [(''strategy'', CStr ''never'')]
      | Constant ms \<Rightarrow> CMap [(''strategy'', CStr ''constant''), (''delay_ms'', ser_nat ms)]
      | ExponentialBackoff i m f \<Rightarrow>
          CMap [(''strategy'', CStr ''exponential_backoff''), (''initial_delay_ms'', ser_nat i), (''max_delay_ms'', ser_nat m),
            (''multiplier'', CFloat f)])"

definition de_restart_delay :: "'n deserializer \<Rightarrow> 'n \<Rightarrow> restart_delay option" where
  "de_restart_delay D n = do {
     (variant, c) \<leftarrow> tagged ''strategy'' [''never'', ''constant'', ''exponential_backoff''] D n;
     if variant = ''never'' then map_option (\<lambda>_. Never) (de_unit_variant c)
     else if variant = ''constant'' then do {
       g \<leftarrow> struct_slots content_de [''delay_ms''] c;
       ms \<leftarrow> dflt default_constant_delay_ms (de_uint 64 content_de) (g ''delay_ms'');
       Some (Constant ms) }
     else do {
       g \<leftarrow> struct_slots content_de [''initial_delay_ms'', ''max_delay_ms'', ''multiplier''] c;
       i \<leftarrow> req (de_uint 64 content_de) (g ''initial_delay_ms'');
       m \<leftarrow> req (de_uint 64 content_de) (g ''max_delay_ms'');
       f \<leftarrow> dflt default_backoff_multiplier de_f64 (g ''multiplier'');
       Some (ExponentialBackoff i m f) } }"

definition ser_restart_policy :: "restart_policy \<Rightarrow> content" where
  "ser_restart_policy p =
     CMap [(''on_success'', ser_restart_delay (on_success p)), (''on_error'', ser_restart_delay (on_error p)),
       (''reset_after_ms'', ser_nat (reset_after_ms p)), (''max_restart_attempts'', ser_option ser_word (max_restart_attempts p))]"

text \<open>\<open>#[serde(default)]\<close> on the struct: a missing field keeps its value in the default.\<close>

definition de_restart_policy :: "'n deserializer \<Rightarrow> 'n \<Rightarrow> restart_policy option" where
  "de_restart_policy D n = do {
     g \<leftarrow> struct_slots D [''on_success'', ''on_error'', ''reset_after_ms'', ''max_restart_attempts''] n;
     success \<leftarrow> dflt (on_success restart_policy_default) (de_restart_delay D) (g ''on_success'');
     error \<leftarrow> dflt (on_error restart_policy_default) (de_restart_delay D) (g ''on_error'');
     reset \<leftarrow> dflt (reset_after_ms restart_policy_default) (de_uint 64 D) (g ''reset_after_ms'');
     attempts \<leftarrow> dflt (max_restart_attempts restart_policy_default) (de_option D (de_word D)) (g ''max_restart_attempts'');
     Some \<lparr>on_success = success, on_error = error, reset_after_ms = reset, max_restart_attempts = attempts\<rparr> }"

section \<open>Limits\<close>

definition ser_app_cgroup_config :: "app_cgroup_config \<Rightarrow> (string \<times> content) list" where
  "ser_app_cgroup_config c =
     ser_skip_none ''cpu_weight'' ser_nat (cpu_weight c) @ ser_skip_none ''io_weight'' ser_nat (io_weight c)
   @ ser_skip_none ''memory_hard_limit'' CInt (memory_hard_limit c) @ ser_skip_none ''memory_soft_limit'' CInt (memory_soft_limit c)
   @ ser_skip_none ''memory_swap_limit'' CInt (memory_swap_limit c)"

definition cgroup_fields :: "string list" where
  "cgroup_fields = [''cpu_weight'', ''io_weight'', ''memory_hard_limit'', ''memory_soft_limit'', ''memory_swap_limit'']"

definition de_app_cgroup_config :: "'n deserializer \<Rightarrow> 'n \<Rightarrow> app_cgroup_config option" where
  "de_app_cgroup_config D n = do {
     g \<leftarrow> struct_slots D cgroup_fields n;
     cpu \<leftarrow> opt D (de_uint 64 D) (g ''cpu_weight'');
     io \<leftarrow> opt D (de_uint 16 D) (g ''io_weight'');
     hard \<leftarrow> opt D (de_sint 64 D) (g ''memory_hard_limit'');
     soft \<leftarrow> opt D (de_sint 64 D) (g ''memory_soft_limit'');
     swap \<leftarrow> opt D (de_sint 64 D) (g ''memory_swap_limit'');
     Some \<lparr>cpu_weight = cpu, io_weight = io, memory_hard_limit = hard, memory_soft_limit = soft, memory_swap_limit = swap\<rparr> }"

section \<open>Apps\<close>

text \<open>\<open>#[serde(untagged)]\<close>: the first variant that fits.\<close>

definition de_user_id :: "'n deserializer \<Rightarrow> 'n \<Rightarrow> user_id option" where
  "de_user_id D n =
     (case de_uint 32 content_de (ds_any D n) of
        Some i \<Rightarrow> Some (Id i)
      | None \<Rightarrow> map_option Name (ds_str content_de (ds_any D n)))"

definition app_config_fields :: "string list" where
  "app_config_fields =
     [''name'', ''command'', ''workdir'', ''user'', ''group'', ''env'', ''oneshot'', ''autostart'', ''restart'', ''log_buffer_size'']"

text \<open>
  \<open>#[serde(flatten)]\<close>: the entries that are no field of the struct itself are kept and the
  limits are read from them; such a struct is read from maps only. \<open>hash_order\<close> is the order in
  which the \<open>HashMap\<close> of the environment will be iterated.
\<close>

definition de_app_config :: "((string \<times> string) list \<Rightarrow> (string \<times> string) list) \<Rightarrow> 'n deserializer \<Rightarrow> 'n \<Rightarrow> app_config option" where
  "de_app_config hash_order D n = do {
     ms \<leftarrow> ds_map D n;
     g \<leftarrow> map_slots app_config_fields ms;
     name \<leftarrow> opt D (ds_str D) (g ''name'');
     command \<leftarrow> req (ds_str D) (g ''command'');
     workdir \<leftarrow> opt D (ds_str D) (g ''workdir'');
     user \<leftarrow> opt D (de_user_id D) (g ''user'');
     grp \<leftarrow> opt D (de_user_id D) (g ''group'');
     env \<leftarrow> opt D (\<lambda>m. map_option hash_order (de_string_map D m)) (g ''env'');
     oneshot \<leftarrow> dflt False (ds_bool D) (g ''oneshot'');
     autostart \<leftarrow> dflt default_autostart (ds_bool D) (g ''autostart'');
     restart \<leftarrow> dflt restart_policy_default (de_restart_policy D) (g ''restart'');
     size \<leftarrow> opt D (de_uint 64 D) (g ''log_buffer_size'');
     cgroup \<leftarrow> de_app_cgroup_config content_de
       (CMap (filter (\<lambda>kv. fst kv \<notin> set app_config_fields) (map (\<lambda>(k, m). (k, ds_any D m)) ms)));
     Some \<lparr>cf_name = name, cf_command = command, cf_workdir = workdir, cf_user = user, cf_group = grp, cf_env = env,
       cf_oneshot = oneshot, cf_autostart = autostart, cf_restart = restart, cf_cgroup = cgroup, cf_log_buffer_size = size\<rparr> }"

text \<open>\<open>parser::Config\<close>, a file of apps.\<close>

definition de_config :: "((string \<times> string) list \<Rightarrow> (string \<times> string) list) \<Rightarrow> 'n deserializer \<Rightarrow> 'n \<Rightarrow> app_config list option" where
  "de_config hash_order D n = do {
     g \<leftarrow> struct_slots D [''apps''] n;
     req (de_seq D (de_app_config hash_order D)) (g ''apps'') }"

section \<open>The global configuration\<close>

definition de_global_config :: "((string \<times> string) list \<Rightarrow> (string \<times> string) list) \<Rightarrow> 'n deserializer \<Rightarrow> 'n \<Rightarrow> global_config option" where
  "de_global_config hash_order D n = do {
     g \<leftarrow> struct_slots D [''apps_dir'', ''apps'', ''log_buffer_size'', ''max_mio_tokens'', ''max_control_connections'',
       ''max_log_connections''] n;
     dir \<leftarrow> dflt (gc_apps_dir global_config_default) (ds_str D) (g ''apps_dir'');
     apps \<leftarrow> dflt (gc_apps global_config_default) (de_seq D (de_app_config hash_order D)) (g ''apps'');
     size \<leftarrow> dflt (gc_log_buffer_size global_config_default) (de_uint 64 D) (g ''log_buffer_size'');
     tokens \<leftarrow> dflt (gc_max_mio_tokens global_config_default) (de_uint 64 D) (g ''max_mio_tokens'');
     control \<leftarrow> dflt (gc_max_control_connections global_config_default) (de_uint 64 D) (g ''max_control_connections'');
     logs \<leftarrow> dflt (gc_max_log_connections global_config_default) (de_uint 64 D) (g ''max_log_connections'');
     Some \<lparr>gc_apps_dir = dir, gc_apps = apps, gc_log_buffer_size = size, gc_max_mio_tokens = tokens,
       gc_max_control_connections = control, gc_max_log_connections = logs\<rparr> }"

section \<open>The printed entry\<close>

text \<open>An empty environment is left out; the limits are flattened into the entry.\<close>

definition yaml_entries :: "app_config_yaml \<Rightarrow> (string \<times> content) list" where
  "yaml_entries y =
     [(''name'', CStr (cy_name y)), (''command'', CStr (cy_command y)), (''workdir'', CStr (cy_workdir y)),
      (''user'', ser_nat (cy_user y)), (''group'', ser_nat (cy_group y))]
   @ (if cy_env y = [] then [] else [(''env'', CMap (map (\<lambda>(k, v). (k, CStr v)) (cy_env y)))])
   @ [(''oneshot'', CBool (cy_oneshot y)), (''autostart'', CBool (cy_autostart y)),
      (''restart'', ser_restart_policy (cy_restart y))]
   @ ser_app_cgroup_config (cy_cgroup y)
   @ [(''log_buffer_size'', ser_nat (cy_log_buffer_size y))]"

definition ser_app_config_yaml :: "app_config_yaml \<Rightarrow> content" where
  "ser_app_config_yaml y = CMap (yaml_entries y)"

section \<open>What is written is read back\<close>

text \<open>Formats write and read the tag of an enum by its name.\<close>

definition names_ok :: "'n deserializer \<Rightarrow> bool" where
  "names_ok D \<longleftrightarrow> (\<forall>s. ds_ident D (CStr s) = Some (Inl s))"

lemma content_names_ok: "names_ok content_de"
  by (simp add: names_ok_def)

text \<open>The values that the types of the source can hold.\<close>

definition delay_fits :: "restart_delay \<Rightarrow> bool" where
  "delay_fits s =
     (case s of Never \<Rightarrow> True | Constant ms \<Rightarrow> ms < 2 ^ 64 | ExponentialBackoff i m _ \<Rightarrow> i < 2 ^ 64 \<and> m < 2 ^ 64)"

definition policy_fits :: "restart_policy \<Rightarrow> bool" where
  "policy_fits p \<longleftrightarrow> delay_fits (on_success p) \<and> delay_fits (on_error p) \<and> reset_after_ms p < 2 ^ 64"

definition i64_fits :: "int \<Rightarrow> bool" where
  "i64_fits i \<longleftrightarrow> - (2 ^ 63) \<le> i \<and> i < 2 ^ 63"

definition cgroup_fits :: "app_cgroup_config \<Rightarrow> bool" where
  "cgroup_fits c \<longleftrightarrow>
     pred_option (\<lambda>x. x < 2 ^ 64) (cpu_weight c) \<and> pred_option (\<lambda>x. x < 2 ^ 16) (io_weight c)
   \<and> pred_option i64_fits (memory_hard_limit c) \<and> pred_option i64_fits (memory_soft_limit c)
   \<and> pred_option i64_fits (memory_swap_limit c)"

lemma restart_delay_reads_back:
  assumes "presents D (ser_restart_delay s) n" and "names_ok D" and "delay_fits s"
  shows "de_restart_delay D n = Some s"
proof -
  have any: "ds_any D n = ser_restart_delay s" by (rule presents_any [OF assms(1)])
  show ?thesis
  proof (cases s)
    case Never
    with any assms(2) have "tagged ''strategy'' [''never'', ''constant'', ''exponential_backoff''] D n = Some (''never'', CMap [])"
      by (intro tagged_CStr) (simp_all add: ser_restart_delay_def names_ok_def)
    with Never show ?thesis by (simp add: de_restart_delay_def de_unit_variant_def)
  next
    case (Constant ms)
    with any assms(2) have "tagged ''strategy'' [''never'', ''constant'', ''exponential_backoff''] D n
        = Some (''constant'', CMap [(''delay_ms'', ser_nat ms)])"
      by (intro tagged_CStr) (simp_all add: ser_restart_delay_def names_ok_def)
    with Constant assms(3) show ?thesis by (simp add: de_restart_delay_def struct_slots_map delay_fits_def)
  next
    case (ExponentialBackoff i m f)
    with any assms(2) have "tagged ''strategy'' [''never'', ''constant'', ''exponential_backoff''] D n
        = Some (''exponential_backoff'', CMap [(''initial_delay_ms'', ser_nat i), (''max_delay_ms'', ser_nat m), (''multiplier'', CFloat f)])"
      by (intro tagged_CStr) (simp_all add: ser_restart_delay_def names_ok_def)
    with ExponentialBackoff assms(3) show ?thesis by (simp add: de_restart_delay_def struct_slots_map delay_fits_def)
  qed
qed

lemma restart_policy_reads_back:
  assumes "presents D (ser_restart_policy p) n" and "names_ok D" and "policy_fits p"
  shows "de_restart_policy D n = Some p"
proof -
  let ?kvs = "[(''on_success'', ser_restart_delay (on_success p)), (''on_error'', ser_restart_delay (on_error p)),
       (''reset_after_ms'', ser_nat (reset_after_ms p)), (''max_restart_attempts'', ser_option ser_word (max_restart_attempts p))]"
  have dist: "distinct (map fst ?kvs)" by simp
  obtain g where g: "struct_slots D [''on_success'', ''on_error'', ''reset_after_ms'', ''max_restart_attempts''] n = Some g"
    and C: "\<And>f. case map_of ?kvs f of None \<Rightarrow> g f = Absent | Some v \<Rightarrow> \<exists>m. g f = Present m \<and> presents D v m"
    by (rule struct_presents [OF assms(1) [unfolded ser_restart_policy_def] dist]) (rule that)
  from C [of "''on_success''"] C [of "''on_error''"] C [of "''reset_after_ms''"] C [of "''max_restart_attempts''"]
  obtain m1 m2 m3 m4 where slots: "g ''on_success'' = Present m1" "g ''on_error'' = Present m2" "g ''reset_after_ms'' = Present m3"
      "g ''max_restart_attempts'' = Present m4"
    and P: "presents D (ser_restart_delay (on_success p)) m1" "presents D (ser_restart_delay (on_error p)) m2"
      "presents D (ser_nat (reset_after_ms p)) m3" "presents D (ser_option ser_word (max_restart_attempts p)) m4"
    by auto
  have a: "de_option D (de_word D) m4 = Some (max_restart_attempts p)"
    by (rule presents_option [OF P(4)]) (simp add: presents_word)
  from assms(3) restart_delay_reads_back [OF P(1) assms(2)] restart_delay_reads_back [OF P(2) assms(2)] presents_uint [OF P(3), of 64] a
  show ?thesis by (simp add: de_restart_policy_def g slots policy_fits_def)
qed

lemma app_cgroup_config_reads_back:
  "cgroup_fits c \<Longrightarrow> de_app_cgroup_config content_de (CMap (ser_app_cgroup_config c)) = Some c"
  by (cases "cpu_weight c"; cases "io_weight c"; cases "memory_hard_limit c"; cases "memory_soft_limit c"; cases "memory_swap_limit c")
    (simp_all add: de_app_cgroup_config_def ser_app_cgroup_config_def ser_skip_none_def struct_slots_map cgroup_fits_def i64_fits_def de_option_def)

text \<open>The keys of the limits are none of the entry's own.\<close>

lemma ser_skip_none_key: "kv \<in> set (ser_skip_none k f x) \<Longrightarrow> fst kv = k"
  by (cases x) (simp_all add: ser_skip_none_def)

lemma ser_skip_none_distinct: "k \<notin> fst ` set kvs \<Longrightarrow> distinct (map fst kvs) \<Longrightarrow> distinct (map fst (ser_skip_none k f x @ kvs))"
  by (cases x) (simp_all add: ser_skip_none_def)

lemma cgroup_keys: "kv \<in> set (ser_app_cgroup_config c) \<Longrightarrow> fst kv \<in> set cgroup_fields"
  unfolding ser_app_cgroup_config_def set_append Un_iff
  by (elim disjE; drule ser_skip_none_key) (simp_all add: cgroup_fields_def)

lemma cgroup_keys_other: "kv \<in> set (ser_app_cgroup_config c) \<Longrightarrow> fst kv \<notin> set app_config_fields"
  by (drule cgroup_keys) (auto simp: cgroup_fields_def app_config_fields_def)

lemma cgroup_keys_distinct: "distinct (map fst (ser_app_cgroup_config c))"
proof -
  have not_in: "k \<notin> fst ` set (ser_skip_none k' f x)" if "k \<noteq> k'" for k k' :: string and f and x :: "'z option"
    using that by (auto dest: ser_skip_none_key)
  have nil: "distinct (map fst (ser_skip_none k f x))" for k :: string and f and x :: "'z option"
    by (cases x) (simp_all add: ser_skip_none_def)
  show ?thesis
    unfolding ser_app_cgroup_config_def
    by (intro ser_skip_none_distinct nil) (simp_all add: image_Un not_in)
qed

lemma cgroup_entries:
  "filter (\<lambda>kv. fst kv \<notin> set app_config_fields) (ser_app_cgroup_config c) = ser_app_cgroup_config c"
  "f \<in> set app_config_fields \<Longrightarrow> map_of (ser_app_cgroup_config c) f = None"
  "distinct (map fst (ser_app_cgroup_config c))"
proof -
  show "filter (\<lambda>kv. fst kv \<notin> set app_config_fields) (ser_app_cgroup_config c) = ser_app_cgroup_config c"
    by (rule filter_True) (use cgroup_keys_other in blast)
  show "map_of (ser_app_cgroup_config c) f = None" if "f \<in> set app_config_fields"
    using cgroup_keys_other [of _ c] that by (auto simp: map_of_eq_None_iff)
  show "distinct (map fst (ser_app_cgroup_config c))" by (rule cgroup_keys_distinct)
qed

lemma yaml_entries_keys:
  "distinct (map fst (yaml_entries y))"
  "filter (\<lambda>kv. fst kv \<notin> set app_config_fields) (yaml_entries y) = ser_app_cgroup_config (cy_cgroup y)"
proof -
  have "fst ` set (ser_app_cgroup_config (cy_cgroup y)) \<inter> set app_config_fields = {}"
    unfolding disjoint_iff by (metis cgroup_entries(2) map_of_eq_None_iff)
  then show "distinct (map fst (yaml_entries y))"
    using cgroup_entries(3) [of "cy_cgroup y"] by (auto simp: yaml_entries_def app_config_fields_def)
  show "filter (\<lambda>kv. fst kv \<notin> set app_config_fields) (yaml_entries y) = ser_app_cgroup_config (cy_cgroup y)"
    using cgroup_entries(1) [of "cy_cgroup y"] by (simp add: yaml_entries_def app_config_fields_def)
qed

lemma yaml_entries_at:
  "map_of (yaml_entries y) ''name'' = Some (CStr (cy_name y))"
  "map_of (yaml_entries y) ''command'' = Some (CStr (cy_command y))"
  "map_of (yaml_entries y) ''workdir'' = Some (CStr (cy_workdir y))"
  "map_of (yaml_entries y) ''user'' = Some (ser_nat (cy_user y))"
  "map_of (yaml_entries y) ''group'' = Some (ser_nat (cy_group y))"
  "map_of (yaml_entries y) ''oneshot'' = Some (CBool (cy_oneshot y))"
  "map_of (yaml_entries y) ''autostart'' = Some (CBool (cy_autostart y))"
  "map_of (yaml_entries y) ''restart'' = Some (ser_restart_policy (cy_restart y))"
  "map_of (yaml_entries y) ''log_buffer_size'' = Some (ser_nat (cy_log_buffer_size y))"
  "map_of (yaml_entries y) ''env'' = (if cy_env y = [] then None else Some (CMap (map (\<lambda>(k, v). (k, CStr v)) (cy_env y))))"
  using cgroup_entries(2) [of "''log_buffer_size''"] cgroup_entries(2) [of "''env''"]
  by (simp_all add: yaml_entries_def map_add_def app_config_fields_def)

definition yaml_fits :: "app_config_yaml \<Rightarrow> bool" where
  "yaml_fits y \<longleftrightarrow> cy_user y < 2 ^ 32 \<and> cy_group y < 2 ^ 32 \<and> cy_log_buffer_size y < 2 ^ 64
     \<and> policy_fits (cy_restart y) \<and> cgroup_fits (cy_cgroup y) \<and> distinct (map fst (cy_env y))"

text \<open>
  An entry and its reading: the same values under the names of \<open>parser::AppConfig\<close>; the
  environment comes back as a \<open>HashMap\<close>, in any order.
\<close>

definition reads_back :: "app_config_yaml \<Rightarrow> app_config \<Rightarrow> bool" where
  "reads_back y cfg \<longleftrightarrow>
     cf_name cfg = Some (cy_name y) \<and> cf_command cfg = cy_command y \<and> cf_workdir cfg = Some (cy_workdir y)
   \<and> cf_user cfg = Some (Id (cy_user y)) \<and> cf_group cfg = Some (Id (cy_group y))
   \<and> (case cf_env cfg of None \<Rightarrow> cy_env y = [] | Some m \<Rightarrow> mset m = mset (cy_env y))
   \<and> cf_oneshot cfg = cy_oneshot y \<and> cf_autostart cfg = cy_autostart y \<and> cf_restart cfg = cy_restart y
   \<and> cf_cgroup cfg = cy_cgroup y \<and> cf_log_buffer_size cfg = Some (cy_log_buffer_size y)"

lemma user_id_reads_back: "presents D (ser_nat k) m \<Longrightarrow> k < 2 ^ 32 \<Longrightarrow> de_option D (de_user_id D) m = Some (Some (Id k))"
  by (simp add: de_user_id_def presents_any presents_null de_option_def)

lemma string_reads_back: "presents D (CStr s) m \<Longrightarrow> ds_str D m = Some s \<and> de_option D (ds_str D) m = Some (Some s)"
  by (simp add: presents_simps de_option_def)

lemma bool_reads_back: "presents D (CBool b) m \<Longrightarrow> ds_bool D m = Some b"
  by (simp add: presents_simps)

lemma uint_option_reads_back: "presents D (ser_nat k) m \<Longrightarrow> k < 2 ^ w \<Longrightarrow> de_option D (de_uint w D) m = Some (Some k)"
  by (simp add: presents_uint presents_null de_option_def)

lemma env_reads_back:
  assumes "if kvs = [] then s = Absent else \<exists>m. s = Present m \<and> presents D (CMap (map (\<lambda>(k, v). (k, CStr v)) kvs)) m"
    and "distinct (map fst kvs)"
  shows "opt D (\<lambda>m. map_option hash_order (de_string_map D m)) s = Some (if kvs = [] then None else Some (hash_order kvs))"
  using assms by (auto simp: presents_null presents_string_map de_option_def)

lemma app_config_reads_back:
  assumes P: "presents D (ser_app_config_yaml y) n" and "names_ok D" and "yaml_fits y" and "\<And>kvs. mset (hash_order kvs) = mset kvs"
  obtains cfg where "de_app_config hash_order D n = Some cfg" and "reads_back y cfg"
proof -
  from P obtain ms where ms: "ds_map D n = Some ms"
    and all: "list_all2 (\<lambda>kv km. fst kv = fst km \<and> presents D (snd kv) (snd km)) (yaml_entries y) ms"
    by (auto simp: ser_app_config_yaml_def presents_simps)
  have "distinct (map fst ms)" by (simp add: presents_map_keys [OF all] yaml_entries_keys(1))
  then have slots: "map_slots app_config_fields ms = Some (\<lambda>f. case map_of ms f of Some n \<Rightarrow> Present n | None \<Rightarrow> Absent)"
    by (rule map_slots_distinct)
  have field: "\<exists>m. map_of ms f = Some m \<and> presents D v m" if "map_of (yaml_entries y) f = Some v" for f v
    using presents_map_of [OF all, of f] that by simp
  from assms(3) have fits: "cy_user y < 2 ^ 32" "cy_group y < 2 ^ 32" "cy_log_buffer_size y < 2 ^ 64" "policy_fits (cy_restart y)"
      "cgroup_fits (cy_cgroup y)" "distinct (map fst (cy_env y))"
    by (simp_all add: yaml_fits_def)
  have env: "opt D (\<lambda>m. map_option hash_order (de_string_map D m)) (case map_of ms ''env'' of Some n \<Rightarrow> Present n | None \<Rightarrow> Absent)
      = Some (if cy_env y = [] then None else Some (hash_order (cy_env y)))"
    by (rule env_reads_back [OF _ fits(6)]) (use presents_map_of [OF all, of "''env''"] yaml_entries_at(10) [of y] in auto)
  from yaml_entries_at(1-9) [of y, THEN field] obtain m1 m2 m3 m4 m5 m6 m7 m8 m9
    where M: "map_of ms ''name'' = Some m1" "map_of ms ''command'' = Some m2" "map_of ms ''workdir'' = Some m3"
      "map_of ms ''user'' = Some m4" "map_of ms ''group'' = Some m5" "map_of ms ''oneshot'' = Some m6"
      "map_of ms ''autostart'' = Some m7" "map_of ms ''restart'' = Some m8" "map_of ms ''log_buffer_size'' = Some m9"
    and P: "presents D (CStr (cy_name y)) m1" "presents D (CStr (cy_command y)) m2" "presents D (CStr (cy_workdir y)) m3"
      "presents D (ser_nat (cy_user y)) m4" "presents D (ser_nat (cy_group y)) m5" "presents D (CBool (cy_oneshot y)) m6"
      "presents D (CBool (cy_autostart y)) m7" "presents D (ser_restart_policy (cy_restart y)) m8"
      "presents D (ser_nat (cy_log_buffer_size y)) m9"
    by blast
  define cfg where "cfg = \<lparr>cf_name = Some (cy_name y), cf_command = cy_command y, cf_workdir = Some (cy_workdir y),
      cf_user = Some (Id (cy_user y)), cf_group = Some (Id (cy_group y)),
      cf_env = (if cy_env y = [] then None else Some (hash_order (cy_env y))), cf_oneshot = cy_oneshot y,
      cf_autostart = cy_autostart y, cf_restart = cy_restart y, cf_cgroup = cy_cgroup y,
      cf_log_buffer_size = Some (cy_log_buffer_size y)\<rparr>"
  note read = P(1-3) [THEN string_reads_back] user_id_reads_back [OF P(4) fits(1)] user_id_reads_back [OF P(5) fits(2)]
    P(6,7) [THEN bool_reads_back] restart_policy_reads_back [OF P(8) assms(2) fits(4)] uint_option_reads_back [OF P(9) fits(3)]
  have "de_app_config hash_order D n = Some cfg"
    unfolding de_app_config_def ms slots bind.bind_lunit env presents_map_any [OF all] yaml_entries_keys(2)
    by (simp add: M read app_cgroup_config_reads_back [OF fits(5)] cfg_def)
  moreover have "reads_back y cfg" by (simp add: reads_back_def cfg_def assms(4))
  ultimately show thesis by (rule that)
qed

section \<open>Keys that mean nothing\<close>

lemma map_slots_ignores:
  assumes "k \<notin> set names"
  shows "map_slots names (ms1 @ (k, m) # ms2) = None \<longleftrightarrow> map_slots names (ms1 @ ms2) = None"
    and "map_slots names (ms1 @ (k, m) # ms2) = Some g \<Longrightarrow> map_slots names (ms1 @ ms2) = Some g' \<Longrightarrow> f \<in> set names \<Longrightarrow> g f = g' f"
  using assms by (auto simp: map_slots_def map_add_def split: if_splits option.splits)

lemma de_app_cgroup_config_ignores:
  assumes "k \<notin> set cgroup_fields"
  shows "de_app_cgroup_config content_de (CMap (a @ (k, v) # b)) = de_app_cgroup_config content_de (CMap (a @ b))"
proof (cases "map_slots cgroup_fields (a @ b)")
  case None
  with map_slots_ignores(1) [OF assms, of a v b] have "map_slots cgroup_fields (a @ (k, v) # b) = None" by blast
  with None show ?thesis
    by (simp add: de_app_cgroup_config_def struct_slots_def cgroup_fields_def)
next
  case (Some g')
  with map_slots_ignores(1) [OF assms, of a v b] obtain g where g: "map_slots cgroup_fields (a @ (k, v) # b) = Some g" by auto
  note eq = map_slots_ignores(2) [OF assms g Some]
  have "g f = g' f" if "f \<in> set cgroup_fields" for f by (rule eq [OF that])
  then show ?thesis
    using g Some by (simp add: de_app_cgroup_config_def struct_slots_def cgroup_fields_def)
qed

text \<open>
  C37. A misspelt key is not an error: an entry under a key that is neither one of the app's nor one
  of the limits changes nothing, whatever its value and place. An app configured with \<open>gid: 1001\<close>,
  as a sample entry in the \<open>lway.yaml\<close> of the repository has it, runs as the group of the daemon.
\<close>

theorem unknown_keys_ignored:
  assumes "ds_map D n = Some (ms1 @ (k, m) # ms2)" and "ds_map D n' = Some (ms1 @ ms2)"
    and "k \<notin> set app_config_fields" and "k \<notin> set cgroup_fields"
  shows "de_app_config hash_order D n = de_app_config hash_order D n'"
proof (cases "map_slots app_config_fields (ms1 @ ms2)")
  case None
  with map_slots_ignores(1) [OF assms(3), of ms1 m ms2] have "map_slots app_config_fields (ms1 @ (k, m) # ms2) = None" by blast
  with None show ?thesis by (simp add: de_app_config_def assms(1,2))
next
  case (Some g')
  with map_slots_ignores(1) [OF assms(3), of ms1 m ms2] obtain g where g: "map_slots app_config_fields (ms1 @ (k, m) # ms2) = Some g"
    by auto
  have eq: "g f = g' f" if "f \<in> set app_config_fields" for f by (rule map_slots_ignores(2) [OF assms(3) g Some that])
  have cg: "de_app_cgroup_config content_de (CMap (filter (\<lambda>kv. fst kv \<notin> set app_config_fields) (map (\<lambda>(k, m). (k, ds_any D m)) (ms1 @ (k, m) # ms2))))
    = de_app_cgroup_config content_de (CMap (filter (\<lambda>kv. fst kv \<notin> set app_config_fields) (map (\<lambda>(k, m). (k, ds_any D m)) (ms1 @ ms2))))"
    using assms(3) de_app_cgroup_config_ignores [OF assms(4)] by simp
  show ?thesis
    unfolding de_app_config_def assms(1,2) bind.bind_lunit g Some cg
    using eq by (simp add: app_config_fields_def)
qed
lemma unknown_keys_ignored_witness:
  "\<exists>cfg. de_app_config id content_de (CMap [(''command'', CStr ''/usr/bin/id''), (''user'', CInt 1001), (''gid'', CInt 1001)]) = Some cfg
     \<and> cf_user cfg = Some (Id 1001) \<and> cf_group cfg = None"
proof -
  let ?n = "CMap ([(''command'', CStr ''/usr/bin/id''), (''user'', CInt 1001)] @ (''gid'', CInt 1001) # [])"
  let ?n' = "CMap ([(''command'', CStr ''/usr/bin/id''), (''user'', CInt 1001)] @ [])"
  have "de_app_config id content_de ?n = de_app_config id content_de ?n'"
    by (rule unknown_keys_ignored [of _ _ "[(''command'', CStr ''/usr/bin/id''), (''user'', CInt 1001)]" "''gid''" "CInt 1001" "[]"])
      (simp_all add: app_config_fields_def cgroup_fields_def)
  then show ?thesis
    by (simp add: de_app_config_def map_slots_def app_config_fields_def de_user_id_def de_uint_def de_option_def
        de_app_cgroup_config_def struct_slots_def cgroup_fields_def)
qed

end
