(* ===== verification/Protocol_Serde.thy ===== *)
theory Protocol_Serde
  imports Config_Serde
begin

text \<open>
  The messages of the control socket as JSON: the writers and readers derived for the types of
  \<open>src/src/protocol.rs\<close> and \<open>src/src/stats.rs\<close>, and the codec they make over the text of
  \<open>serde_json\<close>. Both message types are internally tagged, so their fields are read from the
  buffered value.
\<close>

section \<open>Requests\<close>

definition ser_request :: "request \<Rightarrow> content" where
  "ser_request q =
     (case q of
        ReqList \<Rightarrow> CMap [(''cmd'', CStr ''list'')]
      | ReqInfo name \<Rightarrow> CMap [(''cmd'', CStr ''info''), (''name'', CStr name)]
      | ReqConfig name \<Rightarrow> CMap [(''cmd'', CStr ''config''), (''name'', CStr name)]
      | ReqStart name \<Rightarrow> CMap [(''cmd'', CStr ''start''), (''name'', CStr name)]
      | ReqStartAll \<Rightarrow> CMap [(''cmd'', CStr ''start_all'')]
      | ReqStop name force \<Rightarrow> CMap [(''cmd'', CStr ''stop''), (''name'', CStr name), (''force'', CBool force)]
      | ReqStopAll force \<Rightarrow> CMap [(''cmd'', CStr ''stop_all''), (''force'', CBool force)])"

definition request_variants :: "string list" where
  "request_variants = [''list'', ''info'', ''config'', ''start'', ''start_all'', ''stop'', ''stop_all'']"

text \<open>The variants with the single field \<open>name\<close>.\<close>

definition de_name :: "content \<Rightarrow> string option" where
  "de_name c = do { g \<leftarrow> struct_slots content_de [''name''] c; req (ds_str content_de) (g ''name'') }"

definition de_request :: "'n deserializer \<Rightarrow> 'n \<Rightarrow> request option" where
  "de_request D n = do {
     (variant, c) \<leftarrow> tagged ''cmd'' request_variants D n;
     if variant = ''list'' then map_option (\<lambda>_. ReqList) (de_unit_variant c)
     else if variant = ''info'' then map_option ReqInfo (de_name c)
     else if variant = ''config'' then map_option ReqConfig (de_name c)
     else if variant = ''start'' then map_option ReqStart (de_name c)
     else if variant = ''start_all'' then map_option (\<lambda>_. ReqStartAll) (de_unit_variant c)
     else if variant = ''stop'' then do {
       g \<leftarrow> struct_slots content_de [''name'', ''force''] c;
       name \<leftarrow> req (ds_str content_de) (g ''name'');
       force \<leftarrow> req (ds_bool content_de) (g ''force'');
       Some (ReqStop name force) }
     else do {
       g \<leftarrow> struct_slots content_de [''force''] c;
       force \<leftarrow> req (ds_bool content_de) (g ''force'');
       Some (ReqStopAll force) } }"

section \<open>The parts of responses\<close>

definition ser_start_failure :: "start_failure \<Rightarrow> content" where
  "ser_start_failure f = CMap [(''name'', CStr (sf_name f)), (''message'', CStr (sf_message f))]"

definition de_start_failure :: "content \<Rightarrow> start_failure option" where
  "de_start_failure c = do {
     g \<leftarrow> struct_slots content_de [''name'', ''message''] c;
     name \<leftarrow> req (ds_str content_de) (g ''name'');
     message \<leftarrow> req (ds_str content_de) (g ''message'');
     Some \<lparr>sf_name = name, sf_message = message\<rparr> }"

definition ser_stop_failure :: "stop_failure \<Rightarrow> content" where
  "ser_stop_failure f = CMap [(''name'', CStr (pf_name f)), (''message'', CStr (pf_message f))]"

definition de_stop_failure :: "content \<Rightarrow> stop_failure option" where
  "de_stop_failure c = do {
     g \<leftarrow> struct_slots content_de [''name'', ''message''] c;
     name \<leftarrow> req (ds_str content_de) (g ''name'');
     message \<leftarrow> req (ds_str content_de) (g ''message'');
     Some \<lparr>pf_name = name, pf_message = message\<rparr> }"

text \<open>Serde's \<open>Duration\<close>: seconds and nanoseconds; other fields and an overflow are errors.\<close>

definition ns_per_s :: nat where
  "ns_per_s = 1000000000"

definition ser_duration :: "duration \<Rightarrow> content" where
  "ser_duration d = CMap [(''secs'', ser_nat (d div ns_per_s)), (''nanos'', ser_nat (d mod ns_per_s))]"

definition de_duration :: "content \<Rightarrow> duration option" where
  "de_duration c =
     (if (case c of CMap kvs \<Rightarrow> list_ex (\<lambda>kv. fst kv \<notin> {''secs'', ''nanos''}) kvs | _ \<Rightarrow> False) then None
      else do {
        g \<leftarrow> struct_slots content_de [''secs'', ''nanos''] c;
        secs \<leftarrow> req (de_uint 64 content_de) (g ''secs'');
        nanos \<leftarrow> req (de_uint 32 content_de) (g ''nanos'');
        if secs + nanos div ns_per_s < 2 ^ 64 then Some (secs * ns_per_s + nanos) else None })"

definition ser_app_info :: "Protocol.app_info \<Rightarrow> content" where
  "ser_app_info i =
     CMap [(''name'', CStr (ai_name i)), (''state'', CStr (ai_state i)), (''pid'', ser_option ser_nat (ai_pid i)),
       (''command'', CStr (ai_command i)), (''cwd'', CStr (ai_cwd i)), (''uid'', ser_nat (ai_uid i)), (''gid'', ser_nat (ai_gid i)),
       (''restart_count'', ser_word (ai_restart_count i)), (''log_bytes'', ser_word (ai_log_bytes i)),
       (''memory_current'', ser_word (ai_memory_current i)), (''io_read_bytes'', ser_word (ai_io_read_bytes i)),
       (''io_write_bytes'', ser_word (ai_io_write_bytes i)), (''oneshot'', CBool (ai_oneshot i)),
       (''cpu_weight'', ser_option ser_nat (ai_cpu_weight i)), (''io_weight'', ser_option ser_nat (ai_io_weight i)),
       (''runtime'', ser_option ser_duration (ai_runtime i))]"

definition de_app_info :: "content \<Rightarrow> Protocol.app_info option" where
  "de_app_info c = do {
     g \<leftarrow> struct_slots content_de [''name'', ''state'', ''pid'', ''command'', ''cwd'', ''uid'', ''gid'', ''restart_count'',
       ''log_bytes'', ''memory_current'', ''io_read_bytes'', ''io_write_bytes'', ''oneshot'', ''cpu_weight'', ''io_weight'', ''runtime''] c;
     name \<leftarrow> req (ds_str content_de) (g ''name'');
     state \<leftarrow> req (ds_str content_de) (g ''state'');
     pid \<leftarrow> opt content_de (de_uint 32 content_de) (g ''pid'');
     command \<leftarrow> req (ds_str content_de) (g ''command'');
     cwd \<leftarrow> req (ds_str content_de) (g ''cwd'');
     uid \<leftarrow> req (de_uint 32 content_de) (g ''uid'');
     gid \<leftarrow> req (de_uint 32 content_de) (g ''gid'');
     restarts \<leftarrow> req (de_word content_de) (g ''restart_count'');
     log \<leftarrow> req (de_word content_de) (g ''log_bytes'');
     memory \<leftarrow> req (de_word content_de) (g ''memory_current'');
     io_read \<leftarrow> req (de_word content_de) (g ''io_read_bytes'');
     io_write \<leftarrow> req (de_word content_de) (g ''io_write_bytes'');
     oneshot \<leftarrow> req (ds_bool content_de) (g ''oneshot'');
     cpu \<leftarrow> opt content_de (de_uint 64 content_de) (g ''cpu_weight'');
     io \<leftarrow> opt content_de (de_uint 16 content_de) (g ''io_weight'');
     run \<leftarrow> opt content_de de_duration (g ''runtime'');
     Some \<lparr>ai_name = name, ai_state = state, ai_pid = pid, ai_command = command, ai_cwd = cwd, ai_uid = uid, ai_gid = gid,
       ai_restart_count = restarts, ai_log_bytes = log, ai_memory_current = memory, ai_io_read_bytes = io_read,
       ai_io_write_bytes = io_write, ai_oneshot = oneshot, ai_cpu_weight = cpu, ai_io_weight = io, ai_runtime = run\<rparr> }"

definition ser_log_buffer_debug_info :: "log_buffer_debug_info \<Rightarrow> content" where
  "ser_log_buffer_debug_info b =
     CMap [(''kind'', CStr (lb_kind b)), (''capacity'', ser_option ser_nat (lb_capacity b)), (''write_pos'', ser_nat (lb_write_pos b)),
       (''start_pos'', ser_nat (lb_start_pos b))]"

definition de_log_buffer_debug_info :: "content \<Rightarrow> log_buffer_debug_info option" where
  "de_log_buffer_debug_info c = do {
     g \<leftarrow> struct_slots content_de [''kind'', ''capacity'', ''write_pos'', ''start_pos''] c;
     kind \<leftarrow> req (ds_str content_de) (g ''kind'');
     capacity \<leftarrow> opt content_de (de_uint 64 content_de) (g ''capacity'');
     write_pos \<leftarrow> req (de_uint 64 content_de) (g ''write_pos'');
     start \<leftarrow> req (de_uint 64 content_de) (g ''start_pos'');
     Some \<lparr>lb_kind = kind, lb_capacity = capacity, lb_write_pos = write_pos, lb_start_pos = start\<rparr> }"

definition ser_app_debug_info :: "Protocol.app_debug_info \<Rightarrow> content" where
  "ser_app_debug_info d =
     CMap [(''cgroup_config'', CMap (ser_app_cgroup_config (ad_cgroup_config d))), (''cgroup_path'', ser_option CStr (ad_cgroup_path d)),
       (''log_buffer'', ser_log_buffer_debug_info (ad_log_buffer d))]"

definition de_app_debug_info :: "content \<Rightarrow> Protocol.app_debug_info option" where
  "de_app_debug_info c = do {
     g \<leftarrow> struct_slots content_de [''cgroup_config'', ''cgroup_path'', ''log_buffer''] c;
     cgroup \<leftarrow> req (de_app_cgroup_config content_de) (g ''cgroup_config'');
     path \<leftarrow> opt content_de (ds_str content_de) (g ''cgroup_path'');
     buffer \<leftarrow> req de_log_buffer_debug_info (g ''log_buffer'');
     Some \<lparr>ad_cgroup_config = cgroup, ad_cgroup_path = path, ad_log_buffer = buffer\<rparr> }"

definition ser_app_stats :: "app_stats \<Rightarrow> content" where
  "ser_app_stats s =
     CMap [(''uptime'', ser_option ser_duration (stats_uptime s)), (''total_uptime'', ser_duration (stats_total_uptime s)),
       (''last_run_duration'', ser_option ser_duration (stats_last_run_duration s)), (''restart_count'', ser_word (stats_restart_count s)),
       (''last_exit_code'', ser_option CInt (stats_last_exit_code s)), (''last_exit_reason'', ser_option CStr (stats_last_exit_reason s)),
       (''cpu_usage_usec'', ser_word (cu_cpu_usage_usec (stats_usage s))), (''memory_current'', ser_word (cu_memory_current (stats_usage s))),
       (''memory_peak'', ser_word (cu_memory_peak (stats_usage s))), (''io_read_bytes'', ser_word (cu_io_read_bytes (stats_usage s))),
       (''io_write_bytes'', ser_word (cu_io_write_bytes (stats_usage s))), (''stdout_bytes'', ser_word (stats_stdout_bytes s)),
       (''stderr_bytes'', ser_word (stats_stderr_bytes s))]"

definition de_app_stats :: "content \<Rightarrow> app_stats option" where
  "de_app_stats c = do {
     g \<leftarrow> struct_slots content_de [''uptime'', ''total_uptime'', ''last_run_duration'', ''restart_count'', ''last_exit_code'',
       ''last_exit_reason'', ''cpu_usage_usec'', ''memory_current'', ''memory_peak'', ''io_read_bytes'', ''io_write_bytes'',
       ''stdout_bytes'', ''stderr_bytes''] c;
     uptime \<leftarrow> opt content_de de_duration (g ''uptime'');
     total \<leftarrow> req de_duration (g ''total_uptime'');
     last_run \<leftarrow> opt content_de de_duration (g ''last_run_duration'');
     restarts \<leftarrow> req (de_word content_de) (g ''restart_count'');
     code \<leftarrow> opt content_de (de_sint 32 content_de) (g ''last_exit_code'');
     reason \<leftarrow> opt content_de (ds_str content_de) (g ''last_exit_reason'');
     cpu \<leftarrow> req (de_word content_de) (g ''cpu_usage_usec'');
     memory \<leftarrow> req (de_word content_de) (g ''memory_current'');
     peak \<leftarrow> req (de_word content_de) (g ''memory_peak'');
     io_read \<leftarrow> req (de_word content_de) (g ''io_read_bytes'');
     io_write \<leftarrow> req (de_word content_de) (g ''io_write_bytes'');
     out \<leftarrow> req (de_word content_de) (g ''stdout_bytes'');
     err \<leftarrow> req (de_word content_de) (g ''stderr_bytes'');
     Some \<lparr>stats_uptime = uptime, stats_total_uptime = total, stats_last_run_duration = last_run, stats_restart_count = restarts,
       stats_last_exit_code = code, stats_last_exit_reason = reason,
       stats_usage = \<lparr>cu_cpu_usage_usec = cpu, cu_memory_current = memory, cu_memory_peak = peak, cu_io_read_bytes = io_read,
         cu_io_write_bytes = io_write\<rparr>,
       stats_stdout_bytes = out, stats_stderr_bytes = err\<rparr> }"

definition ser_app_config_snapshot :: "Protocol.app_config_snapshot \<Rightarrow> content" where
  "ser_app_config_snapshot a =
     CMap [(''name'', CStr (ac_name a)), (''command'', CStr (ac_command a)), (''workdir'', CStr (ac_workdir a)),
       (''uid'', ser_nat (ac_uid a)), (''gid'', ser_nat (ac_gid a)), (''env'', CSeq (map CStr (ac_env a))),
       (''oneshot'', CBool (ac_oneshot a)), (''autostart'', CBool (ac_autostart a)), (''restart'', ser_restart_policy (ac_restart a)),
       (''cgroup'', CMap (ser_app_cgroup_config (ac_cgroup a))), (''log_buffer_size'', ser_nat (ac_log_buffer_size a))]"

definition de_app_config_snapshot :: "content \<Rightarrow> Protocol.app_config_snapshot option" where
  "de_app_config_snapshot c = do {
     g \<leftarrow> struct_slots content_de [''name'', ''command'', ''workdir'', ''uid'', ''gid'', ''env'', ''oneshot'', ''autostart'', ''restart'',
       ''cgroup'', ''log_buffer_size''] c;
     name \<leftarrow> req (ds_str content_de) (g ''name'');
     command \<leftarrow> req (ds_str content_de) (g ''command'');
     workdir \<leftarrow> req (ds_str content_de) (g ''workdir'');
     uid \<leftarrow> req (de_uint 32 content_de) (g ''uid'');
     gid \<leftarrow> req (de_uint 32 content_de) (g ''gid'');
     env \<leftarrow> req (de_seq content_de (ds_str content_de)) (g ''env'');
     oneshot \<leftarrow> req (ds_bool content_de) (g ''oneshot'');
     autostart \<leftarrow> req (ds_bool content_de) (g ''autostart'');
     restart \<leftarrow> req (de_restart_policy content_de) (g ''restart'');
     cgroup \<leftarrow> req (de_app_cgroup_config content_de) (g ''cgroup'');
     size \<leftarrow> req (de_uint 64 content_de) (g ''log_buffer_size'');
     Some \<lparr>ac_name = name, ac_command = command, ac_workdir = workdir, ac_uid = uid, ac_gid = gid, ac_env = env,
       ac_oneshot = oneshot, ac_autostart = autostart, ac_restart = restart, ac_cgroup = cgroup, ac_log_buffer_size = size\<rparr> }"

section \<open>Responses\<close>

definition ser_response :: "response \<Rightarrow> content" where
  "ser_response r =
     (case r of
        RespAppList apps \<Rightarrow> CMap [(''result'', CStr ''app_list''), (''apps'', CSeq (map ser_app_info apps))]
      | RespInfo name info st debug \<Rightarrow>
          CMap [(''result'', CStr ''info''), (''name'', CStr name), (''info'', ser_app_info info), (''stats'', ser_app_stats st),
            (''debug'', ser_app_debug_info debug)]
      | RespConfig name config \<Rightarrow>
          CMap [(''result'', CStr ''config''), (''name'', CStr name), (''config'', ser_app_config_snapshot config)]
      | RespStarted name \<Rightarrow> CMap [(''result'', CStr ''started''), (''name'', CStr name)]
      | RespStartedAll started failed \<Rightarrow>
          CMap [(''result'', CStr ''started_all''), (''started'', CSeq (map CStr started)),
            (''failed'', CSeq (map ser_start_failure failed))]
      | RespStopped name app_was_running \<Rightarrow>
          CMap [(''result'', CStr ''stopped''), (''name'', CStr name), (''app_was_running'', CBool app_was_running)]
      | RespStoppedAll stopped failed \<Rightarrow>
          CMap [(''result'', CStr ''stopped_all''), (''stopped'', CSeq (map CStr stopped)),
            (''failed'', CSeq (map ser_stop_failure failed))]
      | RespAppNotFound name apps \<Rightarrow>
          CMap [(''result'', CStr ''app_not_found''), (''name'', CStr name), (''apps'', CSeq (map CStr apps))]
      | RespError message \<Rightarrow> CMap [(''result'', CStr ''error''), (''message'', CStr message)])"

definition response_variants :: "string list" where
  "response_variants =
     [''app_list'', ''info'', ''config'', ''started'', ''started_all'', ''stopped'', ''stopped_all'', ''app_not_found'', ''error'']"

definition de_response :: "'n deserializer \<Rightarrow> 'n \<Rightarrow> response option" where
  "de_response D n = do {
     (variant, c) \<leftarrow> tagged ''result'' response_variants D n;
     if variant = ''app_list'' then do {
       g \<leftarrow> struct_slots content_de [''apps''] c;
       apps \<leftarrow> req (de_seq content_de de_app_info) (g ''apps'');
       Some (RespAppList apps) }
     else if variant = ''info'' then do {
       g \<leftarrow> struct_slots content_de [''name'', ''info'', ''stats'', ''debug''] c;
       name \<leftarrow> req (ds_str content_de) (g ''name'');
       info \<leftarrow> req de_app_info (g ''info'');
       st \<leftarrow> req de_app_stats (g ''stats'');
       debug \<leftarrow> req de_app_debug_info (g ''debug'');
       Some (RespInfo name info st debug) }
     else if variant = ''config'' then do {
       g \<leftarrow> struct_slots content_de [''name'', ''config''] c;
       name \<leftarrow> req (ds_str content_de) (g ''name'');
       config \<leftarrow> req de_app_config_snapshot (g ''config'');
       Some (RespConfig name config) }
     else if variant = ''started'' then map_option RespStarted (de_name c)
     else if variant = ''started_all'' then do {
       g \<leftarrow> struct_slots content_de [''started'', ''failed''] c;
       started \<leftarrow> req (de_seq content_de (ds_str content_de)) (g ''started'');
       failed \<leftarrow> req (de_seq content_de de_start_failure) (g ''failed'');
       Some (RespStartedAll started failed) }
     else if variant = ''stopped'' then do {
       g \<leftarrow> struct_slots content_de [''name'', ''app_was_running''] c;
       name \<leftarrow> req (ds_str content_de) (g ''name'');
       was_running \<leftarrow> req (ds_bool content_de) (g ''app_was_running'');
       Some (RespStopped name was_running) }
     else if variant = ''stopped_all'' then do {
       g \<leftarrow> struct_slots content_de [''stopped'', ''failed''] c;
       stopped \<leftarrow> req (de_seq content_de (ds_str content_de)) (g ''stopped'');
       failed \<leftarrow> req (de_seq content_de de_stop_failure) (g ''failed'');
       Some (RespStoppedAll stopped failed) }
     else if variant = ''app_not_found'' then do {
       g \<leftarrow> struct_slots content_de [''name'', ''apps''] c;
       name \<leftarrow> req (ds_str content_de) (g ''name'');
       apps \<leftarrow> req (de_seq content_de (ds_str content_de)) (g ''apps'');
       Some (RespAppNotFound name apps) }
     else do {
       g \<leftarrow> struct_slots content_de [''message''] c;
       message \<leftarrow> req (ds_str content_de) (g ''message'');
       Some (RespError message) } }"

section \<open>What is written is read back\<close>

lemma request_reads_back:
  assumes "presents D (ser_request q) n" and "names_ok D"
  shows "de_request D n = Some q"
proof -
  have any: "ds_any D n = ser_request q" by (rule presents_any [OF assms(1)])
  show ?thesis
    using assms(2)
    by (cases q) (simp_all add: de_request_def tagged_def variant_of_def names_ok_def any ser_request_def request_variants_def
        de_unit_variant_def de_name_def struct_slots_map)
qed

text \<open>The values that the types of the source can hold.\<close>

definition duration_fits :: "duration \<Rightarrow> bool" where
  "duration_fits d \<longleftrightarrow> d div ns_per_s < 2 ^ 64"

definition info_fits :: "Protocol.app_info \<Rightarrow> bool" where
  "info_fits i \<longleftrightarrow>
     pred_option (\<lambda>x. x < 2 ^ 32) (ai_pid i) \<and> ai_uid i < 2 ^ 32 \<and> ai_gid i < 2 ^ 32
   \<and> pred_option (\<lambda>x. x < 2 ^ 64) (ai_cpu_weight i) \<and> pred_option (\<lambda>x. x < 2 ^ 16) (ai_io_weight i)
   \<and> pred_option duration_fits (ai_runtime i)"

definition debug_fits :: "Protocol.app_debug_info \<Rightarrow> bool" where
  "debug_fits d \<longleftrightarrow>
     cgroup_fits (ad_cgroup_config d) \<and> pred_option (\<lambda>x. x < 2 ^ 64) (lb_capacity (ad_log_buffer d))
   \<and> lb_write_pos (ad_log_buffer d) < 2 ^ 64 \<and> lb_start_pos (ad_log_buffer d) < 2 ^ 64"

definition stats_fits :: "app_stats \<Rightarrow> bool" where
  "stats_fits s \<longleftrightarrow>
     pred_option duration_fits (stats_uptime s) \<and> duration_fits (stats_total_uptime s)
   \<and> pred_option duration_fits (stats_last_run_duration s)
   \<and> pred_option (\<lambda>i. - (2 ^ 31) \<le> i \<and> i < 2 ^ 31) (stats_last_exit_code s)"

definition snapshot_fits :: "Protocol.app_config_snapshot \<Rightarrow> bool" where
  "snapshot_fits a \<longleftrightarrow>
     ac_uid a < 2 ^ 32 \<and> ac_gid a < 2 ^ 32 \<and> policy_fits (ac_restart a) \<and> cgroup_fits (ac_cgroup a)
   \<and> ac_log_buffer_size a < 2 ^ 64"

definition response_fits :: "response \<Rightarrow> bool" where
  "response_fits r =
     (case r of
        RespAppList apps \<Rightarrow> list_all info_fits apps
      | RespInfo _ info st debug \<Rightarrow> info_fits info \<and> stats_fits st \<and> debug_fits debug
      | RespConfig _ config \<Rightarrow> snapshot_fits config
      | _ \<Rightarrow> True)"

lemma de_option_ser_opt:
  "pred_option P x \<Longrightarrow> (\<And>y. P y \<Longrightarrow> ser y \<noteq> CNull \<and> f (ser y) = Some y) \<Longrightarrow> de_option content_de f (ser_option ser x) = Some x"
  by (rule de_option_ser_option) simp

lemma de_duration_ser: "duration_fits d \<Longrightarrow> ser_duration d \<noteq> CNull \<and> de_duration (ser_duration d) = Some d"
proof -
  assume d: "duration_fits d"
  have "d mod ns_per_s < ns_per_s" by (rule mod_less_divisor) (simp add: ns_per_s_def)
  then have n: "d mod ns_per_s < 2 ^ 32" "d mod ns_per_s div ns_per_s = 0" by (simp_all add: ns_per_s_def)
  from d n show ?thesis
    by (simp add: de_duration_def ser_duration_def struct_slots_map duration_fits_def)
qed

lemma de_option_duration [simp]:
  "pred_option duration_fits x \<Longrightarrow> de_option content_de de_duration (ser_option ser_duration x) = Some x"
  by (erule de_option_ser_opt) (simp add: de_duration_ser)

lemma de_option_uint [simp]:
  "pred_option (\<lambda>k. k < 2 ^ w) x \<Longrightarrow> de_option content_de (de_uint w content_de) (ser_option ser_nat x) = Some x"
  by (erule de_option_ser_opt) simp

lemma de_option_str [simp]: "de_option content_de (ds_str content_de) (ser_option CStr x) = Some x"
  by (rule de_option_ser_option) simp

lemma de_option_i32 [simp]:
  "pred_option (\<lambda>i. - (2 ^ 31) \<le> i \<and> i < 2 ^ 31) x \<Longrightarrow> de_option content_de (de_sint 32 content_de) (ser_option CInt x) = Some x"
  by (erule de_option_ser_opt) simp

lemma app_info_reads_back: "info_fits i \<Longrightarrow> de_app_info (ser_app_info i) = Some i"
  unfolding de_app_info_def ser_app_info_def
  by (subst struct_slots_map, simp, simp) (simp add: info_fits_def)

lemma app_stats_reads_back: "stats_fits s \<Longrightarrow> de_app_stats (ser_app_stats s) = Some s"
  unfolding de_app_stats_def ser_app_stats_def
  by (subst struct_slots_map, simp, simp) (simp add: stats_fits_def de_duration_ser)

lemma app_debug_info_reads_back: "debug_fits d \<Longrightarrow> de_app_debug_info (ser_app_debug_info d) = Some d"
  by (simp add: de_app_debug_info_def ser_app_debug_info_def struct_slots_map debug_fits_def de_log_buffer_debug_info_def
      ser_log_buffer_debug_info_def app_cgroup_config_reads_back)

lemma de_seq_str: "de_seq content_de (ds_str content_de) (CSeq (map CStr xs)) = Some xs"
  by (rule de_seq_ser) simp

lemma app_config_snapshot_reads_back: "snapshot_fits a \<Longrightarrow> de_app_config_snapshot (ser_app_config_snapshot a) = Some a"
  unfolding de_app_config_snapshot_def ser_app_config_snapshot_def
  by (subst struct_slots_map, simp, simp)
    (simp add: snapshot_fits_def de_seq_str app_cgroup_config_reads_back restart_policy_reads_back [OF content_presents content_names_ok])

lemma failures_read_back:
  "de_seq content_de de_start_failure (CSeq (map ser_start_failure fs)) = Some fs"
  "de_seq content_de de_stop_failure (CSeq (map ser_stop_failure gs)) = Some gs"
  by (rule de_seq_ser, simp add: de_start_failure_def ser_start_failure_def de_stop_failure_def ser_stop_failure_def struct_slots_map)+

lemma response_reads_back:
  assumes "presents D (ser_response r) n" and "names_ok D" and "response_fits r"
  shows "de_response D n = Some r"
proof -
  have any: "ds_any D n = ser_response r" by (rule presents_any [OF assms(1)])
  have apps: "de_seq content_de de_app_info (CSeq (map ser_app_info apps)) = Some apps" if "list_all info_fits apps" for apps
    by (rule de_seq_ser) (use that in \<open>auto simp: list_all_iff app_info_reads_back\<close>)
  show ?thesis
    using assms(2,3)
    by (cases r) (simp_all add: de_response_def tagged_def variant_of_def names_ok_def any ser_response_def response_variants_def
        response_fits_def de_name_def struct_slots_map de_seq_str failures_read_back apps app_info_reads_back app_stats_reads_back
        app_debug_info_reads_back app_config_snapshot_reads_back)
qed

section \<open>The JSON text\<close>

text \<open>
  The text layer of \<open>serde_json\<close>: \<open>jt_print\<close> writes a value, \<open>jt_parse\<close> reads a text up to a
  node of \<open>jt_de\<close>; \<open>jt_error\<close> is the message of a text that was refused.
\<close>

record 'n json_text =
  jt_print :: "content \<Rightarrow> string"
  jt_parse :: "string \<Rightarrow> 'n option"
  jt_de :: "'n deserializer"
  jt_error :: "string \<Rightarrow> string"
  jt_io_msg :: "io_error \<Rightarrow> string"

text \<open>A float that is not finite is written as null.\<close>

fun json_of :: "content \<Rightarrow> content" where
  "json_of (CFloat x) = (case x of Fin _ \<Rightarrow> CFloat x | _ \<Rightarrow> CNull)"
| "json_of (CSeq vs) = CSeq (map json_of vs)"
| "json_of (CMap kvs) = CMap (map (\<lambda>kv. (fst kv, json_of (snd kv))) kvs)"
| "json_of v = v"

text \<open>Integers of at most 64 bits and no finite float, which may be read with another last digit.\<close>

fun json_plain :: "content \<Rightarrow> bool" where
  "json_plain (CFloat x) = (case x of Fin _ \<Rightarrow> False | _ \<Rightarrow> True)"
| "json_plain (CInt i) = (- (2 ^ 63) \<le> i \<and> i < 2 ^ 64)"
| "json_plain (CSeq vs) = list_all json_plain vs"
| "json_plain (CMap kvs) = list_all (\<lambda>kv. json_plain (snd kv)) kvs"
| "json_plain _ = True"

text \<open>
  What is documented of the compact formatter and of the parser: one line of UTF-8 without
  blanks around it, and a text that is read as the very value it was written from.
\<close>

definition json_laws :: "'n json_text \<Rightarrow> bool" where
  "json_laws T \<longleftrightarrow>
     names_ok (jt_de T) \<and> (\<forall>v. one_line (jt_print T v))
   \<and> (\<forall>v. json_plain v \<longrightarrow> (\<exists>n. jt_parse T (jt_print T v) = Some n \<and> presents (jt_de T) (json_of v) n))"

definition json_codec :: "'n json_text \<Rightarrow> codec" where
  "json_codec T =
     \<lparr>cd_print_request = (\<lambda>q. Ok (jt_print T (ser_request q))),
      cd_parse_request = from_str (jt_parse T) (de_request (jt_de T)) (jt_error T),
      cd_print_response = (\<lambda>r. Ok (jt_print T (ser_response r))),
      cd_parse_response = from_str (jt_parse T) (de_response (jt_de T)) (jt_error T),
      cd_io_msg = jt_io_msg T\<rparr>"

text \<open>A value that the text keeps as it is.\<close>

definition exact :: "content \<Rightarrow> bool" where
  "exact v \<longleftrightarrow> json_plain v \<and> json_of v = v"

lemma map_eq_self: "map f xs = xs \<longleftrightarrow> (\<forall>x \<in> set xs. f x = x)"
  by (induction xs) auto

lemma exact_simps [simp]:
  "exact CNull" "exact (CBool b)" "exact (CStr s)" "exact (CInt i) \<longleftrightarrow> - (2 ^ 63) \<le> i \<and> i < 2 ^ 64"
  "exact (CSeq vs) \<longleftrightarrow> list_all exact vs" "exact (CMap kvs) \<longleftrightarrow> list_all (\<lambda>kv. exact (snd kv)) kvs"
  by (auto simp: exact_def list_all_iff map_eq_self prod_eq_iff)

lemma exact_ser_nat [simp]: "k < 2 ^ w \<Longrightarrow> w \<le> 64 \<Longrightarrow> exact (ser_nat k)"
proof -
  assume "k < 2 ^ w" and "w \<le> 64"
  then have "k < 2 ^ 64" using power_increasing [of w 64 "2 :: nat"] by linarith
  then show ?thesis by (simp add: ser_nat_def)
qed

lemma exact_ser_word [simp]: "exact (ser_word (x :: u32))" "exact (ser_word (y :: u64))"
  using uint_bounded [of x] uint_bounded [of y]
  by (auto simp: ser_word_def intro: order_trans [of _ "0 :: int"])

lemma exact_ser_option: "pred_option P x \<Longrightarrow> (\<And>y. P y \<Longrightarrow> exact (ser y)) \<Longrightarrow> exact (ser_option ser x)"
  by (cases x) (simp_all add: ser_option_def)

lemma exact_ser_duration [simp]: "duration_fits d \<Longrightarrow> exact (ser_duration d)"
proof -
  assume d: "duration_fits d"
  have "d mod ns_per_s < ns_per_s" by (rule mod_less_divisor) (simp add: ns_per_s_def)
  then have "d mod ns_per_s < 2 ^ 32" by (simp add: ns_per_s_def)
  with d show ?thesis
    using exact_ser_nat [of "d div ns_per_s" 64] exact_ser_nat [of "d mod ns_per_s" 32]
    by (simp add: ser_duration_def duration_fits_def)
qed

lemma exact_ser_options [simp]:
  "pred_option duration_fits a \<Longrightarrow> exact (ser_option ser_duration a)"
  "pred_option (\<lambda>k. k < 2 ^ w) b \<Longrightarrow> w \<le> 64 \<Longrightarrow> exact (ser_option ser_nat b)"
  "exact (ser_option CStr s)"
  "exact (ser_option ser_word (m :: u32 option))"
  "pred_option (\<lambda>i. - (2 ^ 31) \<le> i \<and> i < 2 ^ 31) j \<Longrightarrow> exact (ser_option CInt j)"
  by (erule exact_ser_option, simp | (cases s; cases m; simp add: ser_option_def))+

text \<open>
  The responses that are made of such values: all but the configuration of an app that backs off
  exponentially, whose multiplier is a float.
\<close>

definition no_backoff :: "restart_delay \<Rightarrow> bool" where
  "no_backoff s = (case s of ExponentialBackoff _ _ _ \<Rightarrow> False | _ \<Rightarrow> True)"

definition response_exact :: "response \<Rightarrow> bool" where
  "response_exact r \<longleftrightarrow> response_fits r \<and>
     (case r of RespConfig _ a \<Rightarrow> no_backoff (on_success (ac_restart a)) \<and> no_backoff (on_error (ac_restart a)) | _ \<Rightarrow> True)"

lemma exact_ser_request: "exact (ser_request q)"
  by (cases q) (simp_all add: ser_request_def)

lemma exact_ser_cgroup: "cgroup_fits c \<Longrightarrow> list_all (\<lambda>kv. exact (snd kv)) (ser_app_cgroup_config c)"
  by (cases "cpu_weight c"; cases "io_weight c"; cases "memory_hard_limit c"; cases "memory_soft_limit c"; cases "memory_swap_limit c")
    (simp_all add: ser_app_cgroup_config_def ser_skip_none_def cgroup_fits_def i64_fits_def exact_ser_nat [of _ 64] exact_ser_nat [of _ 16])

lemma exact_ser_restart_policy:
  "policy_fits p \<Longrightarrow> no_backoff (on_success p) \<Longrightarrow> no_backoff (on_error p) \<Longrightarrow> exact (ser_restart_policy p)"
  by (cases "on_success p"; cases "on_error p")
    (simp_all add: ser_restart_policy_def ser_restart_delay_def policy_fits_def delay_fits_def no_backoff_def exact_ser_nat [of _ 64])

lemma exact_ser_app_info: "info_fits i \<Longrightarrow> exact (ser_app_info i)"
  by (simp add: ser_app_info_def info_fits_def exact_ser_nat [of _ 32] exact_ser_options(2) [of 32] exact_ser_options(2) [of 16]
      exact_ser_options(2) [of 64])

lemma exact_ser_app_stats: "stats_fits s \<Longrightarrow> exact (ser_app_stats s)"
  by (simp add: ser_app_stats_def stats_fits_def)

lemma exact_ser_app_debug_info: "debug_fits d \<Longrightarrow> exact (ser_app_debug_info d)"
  by (simp add: ser_app_debug_info_def ser_log_buffer_debug_info_def debug_fits_def exact_ser_cgroup exact_ser_nat [of _ 64]
      exact_ser_options(2) [of 64])

lemma exact_ser_snapshot:
  "snapshot_fits a \<Longrightarrow> no_backoff (on_success (ac_restart a)) \<Longrightarrow> no_backoff (on_error (ac_restart a)) \<Longrightarrow>
     exact (ser_app_config_snapshot a)"
  by (simp add: ser_app_config_snapshot_def snapshot_fits_def exact_ser_cgroup exact_ser_restart_policy exact_ser_nat [of _ 32]
      exact_ser_nat [of _ 64] list.pred_map comp_def list.pred_True)

lemma exact_ser_response: "response_exact r \<Longrightarrow> exact (ser_response r)"
  by (cases r) (auto simp: response_exact_def response_fits_def ser_response_def list_all_iff exact_ser_app_info exact_ser_app_stats
      exact_ser_app_debug_info ser_start_failure_def ser_stop_failure_def exact_ser_snapshot)

lemma json_readsD:
  assumes "json_laws T" and "exact v"
  obtains n where "jt_parse T (jt_print T v) = Some n" and "presents (jt_de T) v n"
  using assms unfolding json_laws_def exact_def by (metis (full_types))

lemma json_request:
  assumes "json_laws T"
  shows "from_str (jt_parse T) (de_request (jt_de T)) (jt_error T) (jt_print T (ser_request q)) = Ok q"
proof -
  from json_readsD [OF assms exact_ser_request] obtain n
    where n: "jt_parse T (jt_print T (ser_request q)) = Some n" and P: "presents (jt_de T) (ser_request q) n" .
  from request_reads_back [OF P] assms have "de_request (jt_de T) n = Some q" by (simp add: json_laws_def)
  with n show ?thesis by (simp add: from_str_def)
qed

lemma json_response:
  assumes "json_laws T" and "response_exact r"
  shows "from_str (jt_parse T) (de_response (jt_de T)) (jt_error T) (jt_print T (ser_response r)) = Ok r"
proof -
  from json_readsD [OF assms(1) exact_ser_response [OF assms(2)]] obtain n
    where n: "jt_parse T (jt_print T (ser_response r)) = Some n" and P: "presents (jt_de T) (ser_response r) n" .
  from response_reads_back [OF P] assms have "de_response (jt_de T) n = Some r"
    by (simp add: json_laws_def response_exact_def)
  with n show ?thesis by (simp add: from_str_def)
qed

lemma json_codec_laws:
  assumes "json_laws T"
  shows "codec_laws (json_codec T)"
proof -
  have line: "one_line (jt_print T v)" for v using assms by (simp add: json_laws_def)
  have "plain_response r \<Longrightarrow> response_exact r" for r
    by (cases r) (simp_all add: plain_response_def response_exact_def response_fits_def)
  with line json_request [OF assms] json_response [OF assms] show ?thesis
    by (auto simp: codec_laws_def json_codec_def from_str_def split: option.split)
qed

lemma exactD: "exact v \<Longrightarrow> json_plain v" "exact v \<Longrightarrow> json_of v = v"
  by (simp_all add: exact_def)

lemma exact_ser_restart_delay: "delay_fits s \<Longrightarrow> no_backoff s \<Longrightarrow> exact (ser_restart_delay s)"
  by (cases s) (simp_all add: ser_restart_delay_def delay_fits_def no_backoff_def exact_ser_nat [of _ 64])

lemma nonfinite_policy:
  assumes "policy_fits p" and "no_backoff (on_success p)" and "on_error p = ExponentialBackoff i m x" and "\<And>q. x \<noteq> Fin q"
  shows "json_plain (ser_restart_policy p)" and "de_restart_policy content_de (json_of (ser_restart_policy p)) = None"
proof -
  from assms(1,3) have f: "delay_fits (on_success p)" "i < 2 ^ 64" "m < 2 ^ 64" "reset_after_ms p < 2 ^ 64"
    by (simp_all add: policy_fits_def delay_fits_def)
  note E = exact_ser_restart_delay [OF f(1) assms(2)] exact_ser_nat [OF f(2)] exact_ser_nat [OF f(3)] exact_ser_nat [OF f(4)]
    exact_ser_options(4) [of "max_restart_attempts p"]
  have nf: "json_of (CFloat x) = CNull" "json_plain (CFloat x)"
    using assms(4) by (simp_all split: f64.split)
  show "json_plain (ser_restart_policy p)"
    using E [THEN exactD(1)] nf(2) by (simp add: ser_restart_policy_def ser_restart_delay_def [of "ExponentialBackoff i m x"] assms(3))
  have "de_restart_delay content_de (json_of (ser_restart_delay (on_error p))) = None"
    using E(2,3) [THEN exactD(2)] nf(1) f(2,3)
    by (simp add: ser_restart_delay_def [of "ExponentialBackoff i m x"] assms(3) de_restart_delay_def tagged_def variant_of_def struct_slots_map
        de_f64_def)
  then show "de_restart_policy content_de (json_of (ser_restart_policy p)) = None"
    by (simp add: ser_restart_policy_def de_restart_policy_def struct_slots_map)
qed

lemma nonfinite_multiplier_refused:
  assumes "json_laws T" and "snapshot_fits a" and "no_backoff (on_success (ac_restart a))"
    and "on_error (ac_restart a) = ExponentialBackoff i m x" and "\<forall>q. x \<noteq> Fin q"
  shows "\<exists>s e. cd_print_response (json_codec T) (RespConfig name a) = Ok s \<and> cd_parse_response (json_codec T) s = Err e"
proof -
  let ?v = "ser_response (RespConfig name a)"
  from assms(2) have fits: "policy_fits (ac_restart a)" "exact (ser_nat (ac_uid a))" "exact (ser_nat (ac_gid a))"
      "exact (ser_nat (ac_log_buffer_size a))" "exact (CMap (ser_app_cgroup_config (ac_cgroup a)))"
    by (simp_all add: snapshot_fits_def exact_ser_cgroup exact_ser_nat [of _ 32] exact_ser_nat [of _ 64])
  note N = nonfinite_policy [OF fits(1) assms(3,4) spec [OF assms(5)]]
  have "json_plain ?v"
    using N(1) fits(2-5) [THEN exactD(1)]
    by (simp add: ser_response_def ser_app_config_snapshot_def list.pred_map comp_def list.pred_True)
  with assms(1) obtain n where n: "jt_parse T (jt_print T ?v) = Some n" and P: "presents (jt_de T) (json_of ?v) n" and "names_ok (jt_de T)"
    unfolding json_laws_def by blast
  have "de_app_config_snapshot (json_of (ser_app_config_snapshot a)) = None"
    unfolding ser_app_config_snapshot_def de_app_config_snapshot_def json_of.simps
    by (subst struct_slots_map, simp, simp) (simp add: N(2))
  with \<open>names_ok (jt_de T)\<close> have "de_response (jt_de T) n = None"
    by (simp add: de_response_def tagged_def variant_of_def names_ok_def presents_any [OF P] ser_response_def response_variants_def
        struct_slots_map)
  with n show ?thesis by (simp add: json_codec_def from_str_def)
qed

end
