(* ===== verification/Json_Text.thy ===== *)
theory Json_Text
  imports Protocol_Serde Codec_Sample
begin

text \<open>
  JSON as text, for concrete runs: a compact printer and a parser of what it prints, with every
  character outside printable ASCII escaped and without fractions. It satisfies the laws asked of
  \<open>serde_json\<close>, which shows that they can hold together.
\<close>

section \<open>Strings\<close>

definition hex_digit :: "nat \<Rightarrow> char" where
  "hex_digit n = char_of (if n < 10 then 48 + n else 87 + n)"

definition hex_value :: "char \<Rightarrow> nat option" where
  "hex_value c =
     (let n = of_char c
      in if 48 \<le> n \<and> n \<le> 57 then Some (n - 48) else if 97 \<le> n \<and> n \<le> 102 then Some (n - 87) else None)"

definition escape :: "char \<Rightarrow> string" where
  "escape c =
     (let n = of_char c
      in if n < 32 \<or> 126 < n \<or> n = 34 \<or> n = 92
         then [CHR 0x5C, CHR ''u'', CHR ''0'', CHR ''0'', hex_digit (n div 16), hex_digit (n mod 16)] else [c])"

definition json_string :: "string \<Rightarrow> string" where
  "json_string s = CHR 0x22 # concat (map escape s) @ [CHR 0x22]"

text \<open>What follows the opening quote, and the rest of the text.\<close>

fun read_string :: "string \<Rightarrow> (string \<times> string) option" where
  "read_string [] = None"
| "read_string (c # r) =
     (if c = CHR 0x22 then Some ([], r)
      else if c = CHR 0x5C then
        (case r of
           u # a # b # h # l # r' \<Rightarrow>
             if [u, a, b] = ''u00'' then do {
               h \<leftarrow> hex_value h;
               l \<leftarrow> hex_value l;
               (s, t) \<leftarrow> read_string r';
               Some (char_of (16 * h + l) # s, t) }
             else None
         | _ \<Rightarrow> None)
      else do { (s, t) \<leftarrow> read_string r; Some (c # s, t) })"

lemma hex_value_digit [simp]: "n < 16 \<Longrightarrow> hex_value (hex_digit n) = Some n"
  by (auto simp: hex_value_def hex_digit_def Let_def)

lemma read_string_escape: "read_string (escape c @ r) = do { (s, t) \<leftarrow> read_string r; Some (c # s, t) }"
proof (cases "(of_char c :: nat) < 32 \<or> 126 < (of_char c :: nat) \<or> (of_char c :: nat) = 34 \<or> (of_char c :: nat) = 92")
  case True
  then show ?thesis by (simp add: escape_def Let_def of_char_div)
next
  case False
  then have "c \<noteq> CHR 0x22" "c \<noteq> CHR 0x5C" by auto
  with False show ?thesis by (simp add: escape_def Let_def)
qed

lemma read_json_string: "read_string (concat (map escape s) @ CHR 0x22 # r) = Some (s, r)"
  by (induction s) (simp_all add: read_string_escape)

section \<open>Values\<close>

fun json_print :: "content \<Rightarrow> string" where
  "json_print CNull = ''null''"
| "json_print (CBool b) = (if b then ''true'' else ''false'')"
| "json_print (CInt i) = show_int i"
| "json_print (CFloat x) = (case x of Fin _ \<Rightarrow> ''0.0'' | _ \<Rightarrow> ''null'')"
| "json_print (CStr s) = json_string s"
| "json_print (CSeq vs) = ''['' @ join '','' (map json_print vs) @ '']''"
| "json_print (CMap kvs) = ''{'' @ join '','' (map (\<lambda>kv. json_string (fst kv) @ '':'' @ json_print (snd kv)) kvs) @ ''}''"

definition num_char :: "char \<Rightarrow> bool" where
  "num_char c \<longleftrightarrow> c = CHR ''-'' \<or> digit_val c \<noteq> None"

definition read_int :: "string \<Rightarrow> (content \<times> string) option" where
  "read_int s =
     (let w = takeWhile num_char s; r = dropWhile num_char s
      in case w of
           [] \<Rightarrow> None
         | c # ds \<Rightarrow>
             if c = CHR ''-'' then map_option (\<lambda>n. (CInt (- int n), r)) (if ds = [] then None else parse_digits 0 ds)
             else map_option (\<lambda>n. (CInt (int n), r)) (parse_digits 0 w))"

definition read_word :: "string \<Rightarrow> content \<Rightarrow> string \<Rightarrow> (content \<times> string) option" where
  "read_word w v s = (if prefix w s then Some (v, drop (length w) s) else None)"

text \<open>\<open>fuel\<close> bounds the depth of the calls; every call but that of an element reads a character.\<close>

fun read_value :: "nat \<Rightarrow> string \<Rightarrow> (content \<times> string) option"
  and read_elements :: "nat \<Rightarrow> string \<Rightarrow> (content list \<times> string) option"
  and read_entries :: "nat \<Rightarrow> string \<Rightarrow> ((string \<times> content) list \<times> string) option" where
  "read_value 0 s = None"
| "read_value (Suc fuel) s =
     (case s of
        [] \<Rightarrow> None
      | c # r \<Rightarrow>
          if c = CHR ''['' then
            (if prefix '']'' r then Some (CSeq [], tl r) else do { (vs, t) \<leftarrow> read_elements fuel r; Some (CSeq vs, t) })
          else if c = CHR ''{'' then
            (if prefix ''}'' r then Some (CMap [], tl r) else do { (kvs, t) \<leftarrow> read_entries fuel r; Some (CMap kvs, t) })
          else if c = CHR 0x22 then do { (x, t) \<leftarrow> read_string r; Some (CStr x, t) }
          else if c = CHR ''n'' then read_word ''null'' CNull s
          else if c = CHR ''t'' then read_word ''true'' (CBool True) s
          else if c = CHR ''f'' then read_word ''false'' (CBool False) s
          else read_int s)"
| "read_elements 0 s = None"
| "read_elements (Suc fuel) s = do {
     (v, t) \<leftarrow> read_value fuel s;
     case t of
       [] \<Rightarrow> None
     | c # r \<Rightarrow>
         if c = CHR '']'' then Some ([v], r)
         else if c = CHR '','' then do { (vs, t) \<leftarrow> read_elements fuel r; Some (v # vs, t) }
         else None }"
| "read_entries 0 s = None"
| "read_entries (Suc fuel) s = (
     case s of
       [] \<Rightarrow> None
     | q # r \<Rightarrow>
         if q \<noteq> CHR 0x22 then None
         else do {
           (k, t) \<leftarrow> read_string r;
           if \<not> prefix '':'' t then None
           else do {
             (v, t) \<leftarrow> read_value fuel (tl t);
             case t of
               [] \<Rightarrow> None
             | c # r \<Rightarrow>
                 if c = CHR ''}'' then Some ([(k, v)], r)
                 else if c = CHR '','' then do { (kvs, t) \<leftarrow> read_entries fuel r; Some ((k, v) # kvs, t) }
                 else None } })"

definition json_parse :: "string \<Rightarrow> content option" where
  "json_parse s = (case read_value (2 * length s + 1) s of Some (v, []) \<Rightarrow> Some v | _ \<Rightarrow> None)"

section \<open>What is printed is parsed back\<close>

abbreviation ends :: "string \<Rightarrow> bool" where
  "ends r \<equiv> (case r of [] \<Rightarrow> True | c # _ \<Rightarrow> \<not> num_char c)"

lemma digit_val_show_nat: "c \<in> set (show_nat n) \<Longrightarrow> digit_val c \<noteq> None \<and> c \<noteq> CHR ''-''"
  using set_show_nat [of c n] by (auto simp: digit_val_def digit_char_def)

lemma num_char_show_int: "\<forall>c \<in> set (show_int i). num_char c"
  using digit_val_show_nat by (auto simp: show_int_def num_char_def)

lemma read_show_int:
  assumes "ends r"
  shows "read_int (show_int i @ r) = Some (CInt i, r)"
proof -
  have split: "takeWhile num_char (show_int i @ r) = show_int i" "dropWhile num_char (show_int i @ r) = r"
    using num_char_show_int assms by (cases r; simp add: takeWhile_append2 dropWhile_append2)+
  show ?thesis
  proof (cases "i < 0")
    case True
    then have "show_int i = CHR ''-'' # show_nat (nat (- i))" by (simp add: show_int_def)
    with True show ?thesis unfolding read_int_def Let_def split by (simp add: parse_digits_show_nat)
  next
    case False
    then have s: "show_int i = show_nat (nat i)" by (simp add: show_int_def)
    obtain c ds where c: "show_nat (nat i) = c # ds" using show_nat_nonempty [of "nat i"] by (cases "show_nat (nat i)") auto
    with digit_val_show_nat [of c "nat i"] have "c \<noteq> CHR ''-''" by simp
    moreover have "parse_digits 0 (c # ds) = Some (nat i)" using parse_digits_show_nat [of "nat i"] c by simp
    ultimately show ?thesis using False unfolding read_int_def Let_def split by (simp add: s c del: parse_digits.simps)
  qed
qed

lemma show_int_first: "\<exists>c r. show_int i = c # r \<and> c \<notin> set ''[]{}ntf'' \<and> c \<noteq> CHR 0x22"
proof (cases "show_int i")
  case Nil
  then show ?thesis by (simp add: show_int_def split: if_splits)
next
  case (Cons c r)
  have "c = CHR ''-'' \<or> c \<in> set (show_nat (nat i))"
    using Cons by (auto simp: show_int_def split: if_splits)
  then have "c \<notin> set ''[]{}ntf'' \<and> c \<noteq> CHR 0x22"
    using digit_val_show_nat [of c "nat i"] by (auto simp: digit_val_def)
  with Cons show ?thesis by blast
qed

lemma json_print_first: "\<exists>c r. json_print v = c # r \<and> c \<noteq> CHR '']'' \<and> c \<noteq> CHR ''}''"
proof (cases v)
  case (CInt i)
  with show_int_first [of i] show ?thesis by auto
next
  case (CFloat x)
  then show ?thesis by (cases x) simp_all
qed (simp_all add: json_string_def)

lemma read_elements_print:
  assumes "\<And>v f r. v \<in> set vs \<Longrightarrow> 2 * length (json_print v) \<le> f \<Longrightarrow> ends r \<Longrightarrow> read_value f (json_print v @ r) = Some (json_of v, r)"
    and "vs \<noteq> []" and "2 * length (join '','' (map json_print vs)) + 1 \<le> fuel"
  shows "read_elements fuel (join '','' (map json_print vs) @ CHR '']'' # r) = Some (map json_of vs, r)"
  using assms
proof (induction vs arbitrary: fuel)
  case (Cons v vs)
  then obtain f where f: "fuel = Suc f" by (cases fuel) auto
  show ?case
  proof (cases "vs = []")
    case True
    with Cons.prems f show ?thesis by (simp add: num_char_def digit_val_def)
  next
    case False
    then have j: "join '','' (map json_print (v # vs)) = json_print v @ '','' @ join '','' (map json_print vs)"
      by (simp add: join_Cons)
    from Cons.prems(3) f j have "2 * length (json_print v) \<le> f" "2 * length (join '','' (map json_print vs)) + 1 \<le> f" by simp_all
    with Cons.IH [of f] Cons.prems(1) False show ?thesis
      unfolding j f by (simp add: num_char_def digit_val_def)
  qed
qed simp

lemma read_entries_print:
  assumes "\<And>kv f r. kv \<in> set kvs \<Longrightarrow> 2 * length (json_print (snd kv)) \<le> f \<Longrightarrow> ends r
      \<Longrightarrow> read_value f (json_print (snd kv) @ r) = Some (json_of (snd kv), r)"
    and "kvs \<noteq> []"
    and "2 * length (join '','' (map (\<lambda>kv. json_string (fst kv) @ '':'' @ json_print (snd kv)) kvs)) + 1 \<le> fuel"
  shows "read_entries fuel (join '','' (map (\<lambda>kv. json_string (fst kv) @ '':'' @ json_print (snd kv)) kvs) @ CHR ''}'' # r)
    = Some (map (\<lambda>kv. (fst kv, json_of (snd kv))) kvs, r)"
  using assms
proof (induction kvs arbitrary: fuel)
  case (Cons kv kvs)
  then obtain f where f: "fuel = Suc f" by (cases fuel) auto
  let ?p = "\<lambda>kv. json_string (fst kv) @ '':'' @ json_print (snd kv)"
  have str: "json_string k @ t = CHR 0x22 # concat (map escape k) @ CHR 0x22 # t" for k t by (simp add: json_string_def)
  show ?case
  proof (cases "kvs = []")
    case True
    with Cons.prems f show ?thesis by (simp add: str read_json_string num_char_def digit_val_def)
  next
    case False
    then have j: "join '','' (map ?p (kv # kvs)) = ?p kv @ '','' @ join '','' (map ?p kvs)"
      by (simp add: join_Cons)
    from Cons.prems(3) f j have "2 * length (json_print (snd kv)) \<le> f" "2 * length (join '','' (map ?p kvs)) + 1 \<le> f" by simp_all
    with Cons.IH [of f] Cons.prems(1) False show ?thesis
      unfolding j f by (simp add: str read_json_string num_char_def digit_val_def)
  qed
qed simp

lemma read_print:
  "json_plain v \<Longrightarrow> 2 * length (json_print v) \<le> fuel \<Longrightarrow> ends r \<Longrightarrow> read_value fuel (json_print v @ r) = Some (json_of v, r)"
proof (induction v arbitrary: fuel r)
  case CNull
  then show ?case by (cases fuel) (simp_all add: read_word_def)
next
  case (CBool b)
  then show ?case by (cases fuel; cases b) (simp_all add: read_word_def)
next
  case (CInt i)
  from show_int_first [of i] obtain c t where c: "show_int i = c # t" and "c \<notin> set ''[]{}ntf''" "c \<noteq> CHR 0x22" by blast
  with CInt read_show_int [OF CInt(3), of i] show ?case by (cases fuel) simp_all
next
  case (CFloat x)
  then show ?case by (cases fuel; cases x) (simp_all add: read_word_def)
next
  case (CStr s)
  then show ?case by (cases fuel) (simp_all add: json_string_def read_json_string)
next
  case (CSeq vs)
  then obtain f where f: "fuel = Suc f" by (cases fuel) auto
  show ?case
  proof (cases "vs = []")
    case False
    then obtain v ws where vs: "vs = v # ws" by (cases vs) auto
    have "\<exists>c t. join '','' (map json_print vs) = c # t \<and> c \<noteq> CHR '']''"
      using json_print_first [of v] by (cases ws) (auto simp: vs)
    then have np: "\<not> prefix '']'' (join '','' (map json_print vs) @ CHR '']'' # r)" by auto
    have "read_elements f (join '','' (map json_print vs) @ CHR '']'' # r) = Some (map json_of vs, r)"
      by (rule read_elements_print [OF _ False]) (use CSeq f in \<open>auto simp: list_all_iff\<close>)
    with np f show ?thesis by simp
  qed (simp add: f)
next
  case (CMap kvs)
  then obtain f where f: "fuel = Suc f" by (cases fuel) auto
  let ?t = "join '','' (map (\<lambda>kv. json_string (fst kv) @ '':'' @ json_print (snd kv)) kvs)"
  show ?case
  proof (cases "kvs = []")
    case False
    then obtain kv ws where kvs: "kvs = kv # ws" by (cases kvs) auto
    have "\<exists>t. ?t = CHR 0x22 # t" by (cases ws) (auto simp: kvs json_string_def)
    then have np: "\<not> prefix ''}'' (?t @ CHR ''}'' # r)" by auto
    have "read_entries f (?t @ CHR ''}'' # r) = Some (map (\<lambda>kv. (fst kv, json_of (snd kv))) kvs, r)"
      by (rule read_entries_print [OF _ False]) (use CMap f in \<open>auto simp: list_all_iff snds.simps\<close>)
    with np f show ?thesis by simp
  qed (simp add: f)
qed

lemma json_parse_print: "json_plain v \<Longrightarrow> json_parse (json_print v) = Some (json_of v)"
  using read_print [of v "2 * length (json_print v) + 1" "[]"] by (simp add: json_parse_def)

section \<open>One line\<close>

definition graphic :: "char \<Rightarrow> bool" where
  "graphic c \<longleftrightarrow> 33 \<le> (of_char c :: nat) \<and> (of_char c :: nat) < 127"

definition printable :: "char \<Rightarrow> bool" where
  "printable c \<longleftrightarrow> 32 \<le> (of_char c :: nat) \<and> (of_char c :: nat) < 127"

lemma graphic_one_line:
  assumes "list_all printable s" and "s \<noteq> []" and "graphic (hd s)" and "graphic (last s)"
  shows "one_line s"
proof -
  have ws: "list_all (\<lambda>w. w \<noteq> [] \<and> \<not> graphic (hd w) \<and> \<not> graphic (last w)) white_space"
    by (simp add: white_space_def graphic_def)
  have strip: "strip_ws l t = t" if "list_all (\<lambda>w. w \<noteq> [] \<and> \<not> graphic (hd w)) l" and "graphic (hd t)" for l t
  proof -
    have "\<not> prefix w t" if w: "w \<in> set l" for w
    proof
      assume "prefix w t"
      then obtain u where "t = w @ u" by (auto simp: prefix_def)
      with \<open>list_all _ l\<close> \<open>graphic (hd t)\<close> w show False by (auto simp: list_all_iff hd_append)
    qed
    then have "find (\<lambda>w. w \<noteq> [] \<and> prefix w t) l = None" by (auto simp: find_None_iff)
    then show ?thesis by (simp add: strip_ws.simps)
  qed
  have "trim s = s"
    using ws assms(2-4) by (simp add: trim_def strip list_all_iff hd_rev)
  moreover have "CHR 0x0A \<notin> set s" using assms(1) by (auto simp: list_all_iff printable_def)
  moreover have "valid_utf8 (as_bytes s)"
  proof (rule valid_utf8_ascii)
    have "byte_of_char c < 0x80" if "printable c" for c
      using that by (simp add: printable_def byte_of_char_def word_less_nat_alt unat_of_nat)
    with assms(1) show "\<forall>b \<in> set (as_bytes s). b < 0x80" by (auto simp: as_bytes_def list_all_iff)
  qed
  ultimately show ?thesis using assms(2) by (simp add: one_line_def)
qed

lemma printable_escape: "list_all printable (escape c)"
proof -
  have "printable (hex_digit n)" if "n < 16" for n using that by (simp add: printable_def hex_digit_def)
  then show ?thesis by (auto simp: escape_def Let_def of_char_div printable_def)
qed

lemma printable_json_string: "list_all printable (json_string s)"
  using printable_escape by (auto simp: json_string_def list_all_iff printable_def)

lemma printable_join: "list_all (list_all printable) xs \<Longrightarrow> list_all printable sep \<Longrightarrow> list_all printable (join sep xs)"
  by (induction sep xs rule: join.induct) simp_all

lemma printable_brackets: "printable CHR ''[''" "printable CHR '']''" "printable CHR ''{''" "printable CHR ''}''" "printable CHR '',''" "printable CHR '':''"
  by (simp_all add: printable_def)

lemma printable_json: "list_all printable (json_print v)"
proof (induction v)
  case (CInt i)
  then show ?case using num_char_show_int [of i] by (auto simp: list_all_iff num_char_def printable_def digit_val_def split: if_splits)
next
  case (CFloat x)
  then show ?case by (cases x) (simp_all add: printable_def)
next
  case (CStr s)
  then show ?case by (simp add: printable_json_string)
next
  case (CSeq vs)
  then have "list_all printable (join '','' (map json_print vs))"
    by (intro printable_join) (simp_all add: list_all_iff [of "list_all printable"] printable_brackets)
  then show ?case by (simp add: printable_brackets)
next
  case (CMap kvs)
  then have "list_all (list_all printable) (map (\<lambda>kv. json_string (fst kv) @ '':'' @ json_print (snd kv)) kvs)"
    by (auto simp: list_all_iff [of "list_all printable"] printable_json_string printable_brackets snds.simps)
  then have "list_all printable (join '','' (map (\<lambda>kv. json_string (fst kv) @ '':'' @ json_print (snd kv)) kvs))"
    by (rule printable_join) (simp add: printable_brackets)
  then show ?case by (simp add: printable_brackets)
qed (simp_all add: printable_def)

lemma json_print_ends: "graphic (hd (json_print v)) \<and> graphic (last (json_print v)) \<and> json_print v \<noteq> []"
proof (cases v)
  case (CInt i)
  have "show_int i \<noteq> []" using show_int_first [of i] by auto
  moreover have "graphic c" if "c \<in> set (show_int i)" for c
    using num_char_show_int [of i] that by (auto simp: num_char_def graphic_def digit_val_def split: if_splits)
  ultimately show ?thesis using CInt by simp
next
  case (CFloat x)
  then show ?thesis by (cases x) (simp_all add: graphic_def)
qed (simp_all add: graphic_def json_string_def)

section \<open>The laws\<close>

text \<open>JSON names a variant by a string only.\<close>

definition json_de :: "content deserializer" where
  "json_de = content_de\<lparr>ds_ident := \<lambda>v. case v of CStr s \<Rightarrow> Some (Inl s) | _ \<Rightarrow> None\<rparr>"

definition sample_json :: "content json_text" where
  "sample_json =
     \<lparr>jt_print = json_print, jt_parse = json_parse, jt_de = json_de, jt_error = (\<lambda>_. ''expected value''),
      jt_io_msg = (\<lambda>_. ''I/O error'')\<rparr>"

lemma json_presents: "presents json_de v v"
proof (induction v)
  case (CSeq vs)
  then have "list_all2 (presents json_de) vs vs" by (simp add: list_all2_same)
  then show ?case by (simp add: presents_simps json_de_def)
next
  case (CMap kvs)
  then have "list_all2 (\<lambda>kv km. fst kv = fst km \<and> presents json_de (snd kv) (snd km)) kvs kvs"
    by (auto simp: list_all2_same snds.simps)
  then show ?case by (simp add: presents_simps json_de_def)
qed (simp_all add: presents_simps json_de_def)

lemma json_names_ok: "names_ok json_de"
  by (simp add: names_ok_def json_de_def)

lemma sample_json_laws: "json_laws sample_json"
  using json_print_ends printable_json
  by (simp add: json_laws_def sample_json_def json_parse_print json_presents graphic_one_line json_names_ok)

end
