(* ===== verification/Cli_Correct.thy ===== *)
theory Cli_Correct
  imports Ipc_Correct Cli Json_Text "HOL-Library.Multiset"
begin

text \<open>
  Correctness of the client: a request reaches the daemon and its answer comes back, the log
  socket is asked for what the user named, durations, the table and the printed configuration say
  what they should.
\<close>

section \<open>Trimming a line\<close>

lemma strip_ws_le: "length (strip_ws ws x) \<le> length x"
proof (induction ws x rule: strip_ws.induct)
  case (1 ws x)
  show ?case
  proof (cases "find (\<lambda>w. w \<noteq> [] \<and> prefix w x) ws")
    case None
    then show ?thesis by (subst strip_ws.simps) simp
  next
    case (Some w)
    from 1 [OF Some] show ?thesis by (subst strip_ws.simps) (simp add: Some)
  qed
qed

lemma strip_ws_fixed: "strip_ws ws x = x \<longleftrightarrow> find (\<lambda>w. w \<noteq> [] \<and> prefix w x) ws = None"
proof (cases "find (\<lambda>w. w \<noteq> [] \<and> prefix w x) ws")
  case None
  then show ?thesis by (subst strip_ws.simps) simp
next
  case (Some w)
  then have "w \<noteq> []" and "prefix w x" by (auto simp: find_Some_iff)
  then have "length (drop (length w) x) < length x" using prefix_length_le [of w x] by (cases w) auto
  with strip_ws_le [of ws "drop (length w) x"] Some show ?thesis
    by (subst strip_ws.simps) (auto dest: arg_cong [where f = length])
qed

lemma trim_fixed: "trim s = s \<longleftrightarrow> strip_ws white_space s = s \<and> strip_ws (map rev white_space) (rev s) = rev s"
proof
  assume t: "trim s = s"
  have "length (trim s) \<le> length (strip_ws white_space s)"
    using strip_ws_le [of "map rev white_space" "rev (strip_ws white_space s)"] by (simp add: trim_def)
  with t strip_ws_le [of white_space s] have len: "length (strip_ws white_space s) = length s" by simp
  have "strip_ws white_space s = s"
  proof (rule ccontr)
    assume "strip_ws white_space s \<noteq> s"
    then obtain w where w: "find (\<lambda>w. w \<noteq> [] \<and> prefix w s) white_space = Some w"
      by (auto simp: strip_ws_fixed)
    then have "w \<noteq> []" and "prefix w s" by (auto simp: find_Some_iff)
    moreover have "strip_ws white_space s = strip_ws white_space (drop (length w) s)"
      using w by (subst strip_ws.simps) simp
    ultimately show False
      using strip_ws_le [of white_space "drop (length w) s"] len prefix_length_le [of w s] by (cases w) auto
  qed
  with t show "strip_ws white_space s = s \<and> strip_ws (map rev white_space) (rev s) = rev s"
    by (simp add: trim_def) (metis rev_rev_ident)
qed (simp add: trim_def)

text \<open>The line break at the end of a message is trimmed away.\<close>

lemma trim_newline:
  assumes "one_line s"
  shows "trim (s @ [CHR 0x0A]) = s"
proof -
  let ?n = "CHR 0x0A"
  have fixed: "strip_ws white_space s = s" "strip_ws (map rev white_space) (rev s) = rev s" and ne: "s \<noteq> []"
    using assms trim_fixed [of s] by (simp_all add: one_line_def)
  have last: "list_all (\<lambda>w. last w = ?n \<longrightarrow> w = [?n]) white_space"
    by code_simp
  have "\<not> prefix w (s @ [?n])" if w: "w \<in> set white_space" "w \<noteq> []" for w
  proof
    assume "prefix w (s @ [?n])"
    then consider "w = s @ [?n]" | "prefix w s" by (auto simp: prefix_snoc)
    then show False
    proof cases
      case 1
      then have "last w = ?n" by simp
      with last [unfolded list_all_iff] w(1) have "w = [?n]" by blast
      with 1 ne show False by simp
    next
      case 2
      with w fixed(1) show False by (auto simp: strip_ws_fixed find_None_iff)
    qed
  qed
  then have front: "strip_ws white_space (s @ [?n]) = s @ [?n]"
    by (auto simp: strip_ws_fixed find_None_iff)
  have "find (\<lambda>w. w \<noteq> [] \<and> prefix w (?n # rev s)) (map rev white_space) = Some [?n]"
    by (simp add: white_space_def)
  then have "strip_ws (map rev white_space) (?n # rev s) = strip_ws (map rev white_space) (rev s)"
    by (subst strip_ws.simps) simp
  with front fixed(2) show ?thesis by (simp add: trim_def)
qed

section \<open>From the client to the daemon and back\<close>

lemma take_line_message:
  assumes "one_line s"
  shows "take_line (as_bytes s @ newline # rest) = Some (as_bytes s @ [newline], rest)"
proof -
  have "newline = byte_of_char (CHR 0x0A)" by (simp add: newline_def byte_of_char_def)
  moreover have "byte_of_char (CHR 0x0A) \<notin> byte_of_char ` set s"
    using assms by (auto simp: one_line_def image_iff dest: arg_cong [where f = char_of_byte])
  ultimately have "newline \<notin> set (as_bytes s)" by (simp add: as_bytes_def)
  then show ?thesis by (simp add: take_line_def takeWhile_append dropWhile_append)
qed

text \<open>Well-formed UTF-8 can be put together.\<close>

lemma byte_at_append: "i < length r \<Longrightarrow> byte_at (r @ ys) i = byte_at r i"
  by (simp add: byte_at_def nth_append)

lemma byte_at_present: "byte_at r i \<noteq> 0 \<Longrightarrow> i < length r"
  by (auto simp: byte_at_def split: if_splits)

lemma is_cont_present: "is_cont (byte_at r i) \<Longrightarrow> i < length r"
  by (rule byte_at_present) (auto simp: is_cont_def)

lemma second_of_3_present: "second_of_3 b (byte_at r i) \<Longrightarrow> i < length r"
  by (rule byte_at_present) (auto simp: second_of_3_def)

lemma second_of_4_present: "second_of_4 b (byte_at r i) \<Longrightarrow> i < length r"
  by (rule byte_at_present) (auto simp: second_of_4_def)

lemma utf8_step_append: "utf8_step b r = (True, n) \<Longrightarrow> utf8_step b (r @ ys) = (True, n) \<and> n - 1 \<le> length r \<and> 0 < n"
  using byte_at_append [of 0 r ys] byte_at_append [of 1 r ys] byte_at_append [of 2 r ys]
    is_cont_present [of r 0] is_cont_present [of r 1] is_cont_present [of r 2]
    second_of_3_present [of b r 0] second_of_4_present [of b r 0]
  by (auto simp: utf8_step_def word_le_nat_alt word_less_nat_alt Suc_le_eq split: if_splits)

lemma valid_utf8_append: "valid_utf8 xs \<Longrightarrow> valid_utf8 ys \<Longrightarrow> valid_utf8 (xs @ ys)"
proof (induction xs rule: valid_utf8.induct)
  case (2 b r)
  obtain ok n where s: "utf8_step b r = (ok, n)" by force
  from "2.prems"(1) s have ok: "ok" and v: "valid_utf8 (drop (n - 1) r)" by (simp_all add: valid_utf8.simps(2))
  from utf8_step_append [of b r n ys] s ok have s': "utf8_step b (r @ ys) = (True, n)" and n: "n - 1 \<le> length r" by simp_all
  from "2.IH" [OF s [symmetric] refl v "2.prems"(2)] n have "valid_utf8 (drop (n - 1) (r @ ys))" by simp
  with s' show ?case by (simp add: valid_utf8.simps(2))
qed simp

lemma message_line:
  assumes "one_line s"
  shows "valid_utf8 (as_bytes s @ [newline])" and "trim (from_utf8_lossy (as_bytes s @ [newline])) = s"
    and "trim (of_bytes (as_bytes s @ [newline])) = s" and "as_bytes (s @ [CHR 0x0A]) = as_bytes s @ [newline]"
    and "complete_lines (as_bytes s @ [newline]) = ([as_bytes s @ [newline]], [])"
proof -
  show eq: "as_bytes (s @ [CHR 0x0A]) = as_bytes s @ [newline]"
    by (simp add: as_bytes_def newline_def byte_of_char_def)
  have "valid_utf8 [newline]" by (rule valid_utf8_ascii) (simp add: newline_def)
  with assms show v: "valid_utf8 (as_bytes s @ [newline])"
    by (simp add: one_line_def valid_utf8_append)
  from from_utf8_lossy_as_bytes [of "s @ [CHR 0x0A]"] v trim_newline [OF assms]
  show "trim (from_utf8_lossy (as_bytes s @ [newline])) = s" unfolding eq by simp
  from trim_newline [OF assms] show "trim (of_bytes (as_bytes s @ [newline])) = s"
    unfolding eq [symmetric] of_bytes_as_bytes .
  show "complete_lines (as_bytes s @ [newline]) = ([as_bytes s @ [newline]], [])"
    using take_line_message [OF assms, of "[]"] by (subst complete_lines_take_line) simp
qed

text \<open>The daemon as the peer of a client: a fresh connection that receives the request.\<close>

definition daemon_dial :: "'s env \<Rightarrow> codec \<Rightarrow> connection \<Rightarrow> app list \<Rightarrow> 's ctx \<Rightarrow> dial" where
  "daemon_dial E J conn apps c =
     \<lparr>di_connect = True, di_write = (\<lambda>_. Ok ()),
      di_reply = (\<lambda>bs. case process_lines E J (conn\<lparr>cn_read_buf := bs\<rparr>) apps c of (_, conn', _, _) \<Rightarrow> (cn_write_buf conn', None))\<rparr>"

lemma daemon_transmits:
  assumes "world E J" and "apps_inv E apps c" and "cn_write_buf conn = []"
    and "dispatch_request E J q apps c = (Ok resp, apps', c')"
    and "net path = daemon_dial E J conn apps c" and "cd_print_request J q = Ok line"
  obtains out where "cd_print_response J resp = Ok out" and "send_request J net path q = map_err IpcJson (cd_parse_response J out)"
    and "\<exists>conn'. process_lines E J (conn\<lparr>cn_read_buf := as_bytes (line @ [CHR 0x0A])\<rparr>) apps c = (Ok (), conn', apps', c')
         \<and> cn_close_after_flush conn'"
proof -
  note w = worldD [OF assms(1)]
  from codec_request [OF w(3), of q] assms(6) have l: "one_line line" and p: "cd_parse_request J line = Ok q"
    by auto
  obtain out where o: "cd_print_response J resp = Ok out" and ol: "one_line out" by (rule codec_response [OF w(3)])
  note L = message_line [OF l] and OL = message_line [OF ol]
  have rq: "requests [as_bytes line @ [newline]] = [line]"
    using L(2) l by (simp add: requests_def one_line_def)
  have "answer_all E J [line] apps c = ([resp], apps', c')"
    using p assms(4) by (simp add: answer_def)
  then have P: "process_lines E J (conn\<lparr>cn_read_buf := as_bytes (line @ [CHR 0x0A])\<rparr>) apps c =
      (Ok (), conn\<lparr>cn_read_buf := [], cn_write_buf := as_bytes out @ [newline], cn_close_after_flush := True\<rparr>, apps', c')"
    using process_lines_steps [OF w(1,2) assms(2) w(3), of "conn\<lparr>cn_read_buf := as_bytes (line @ [CHR 0x0A])\<rparr>" "[resp]" apps' c']
      assms(3) o rq L(5) by (simp add: L(4) response_line_def del: as_bytes_append answer_all.simps)
  then have "di_reply (net path) (as_bytes (line @ [CHR 0x0A])) = (as_bytes out @ [newline], None)"
    by (simp add: assms(5) daemon_dial_def)
  moreover have "read_line (as_bytes out @ [newline], None) = Ok (of_bytes (as_bytes out @ [newline]))"
    using take_line_message [OF ol, of "[]"] OL(1) by (simp add: read_line_def)
  ultimately have "send_request J net path q = map_err IpcJson (cd_parse_response J out)"
    using assms(6) OL(3) ol by (simp add: send_request_def assms(5) daemon_dial_def Let_def one_line_def)
  with P show thesis by (intro that [OF o]) simp_all
qed

lemma daemon_answers:
  assumes "world E J" and "apps_inv E apps c" and "cn_write_buf conn = []"
    and "dispatch_request E J q apps c = (Ok resp, apps', c')" and "plain_response resp"
    and "net path = daemon_dial E J conn apps c" and "cd_print_request J q = Ok line"
  shows "send_request J net path q = Ok resp
    \<and> (\<exists>conn'. process_lines E J (conn\<lparr>cn_read_buf := as_bytes (line @ [CHR 0x0A])\<rparr>) apps c = (Ok (), conn', apps', c')
         \<and> cn_close_after_flush conn')"
proof -
  from daemon_transmits [where net = net and path = path, OF assms(1-4,6,7)] obtain out
    where o: "cd_print_response J resp = Ok out" and S: "send_request J net path q = map_err IpcJson (cd_parse_response J out)"
    and P: "\<exists>conn'. process_lines E J (conn\<lparr>cn_read_buf := as_bytes (line @ [CHR 0x0A])\<rparr>) apps c = (Ok (), conn', apps', c')
         \<and> cn_close_after_flush conn'" .
  from codec_plain [OF worldD(3) [OF assms(1)] assms(5) o] S P show ?thesis by simp
qed




section \<open>Log requests\<close>

lemma log_request_parsed:
  assumes "valid_utf8 (as_bytes (take 255 name))"
  shows "parse_log_request (log_request name follow @ rest) = Some (follow, take 255 name, rest)"
proof -
  let ?n = "min (length name) 255"
  have t: "take ?n (as_bytes name) = as_bytes (take 255 name)"
    by (simp add: as_bytes_def take_map min_def)
  have len: "length (as_bytes (take 255 name)) = ?n" by (simp add: min.commute)
  have u: "unat (word_of_nat ?n :: byte) = ?n"
    by (simp add: unat_of_nat)
  have "log_request name follow @ rest = (if follow then 1 else 0) # word_of_nat ?n # as_bytes (take 255 name) @ rest"
    by (simp add: log_request_def t len Let_def)
  with u len from_utf8_lossy_as_bytes [OF assms] show ?thesis
    by (simp add: parse_log_request_def Let_def)
qed

text \<open>
  C25. What the client asks of the log socket is what the server understands: a request for an app
  whose name has at most 255 bytes is parsed back to the same flag and name, and bytes after it
  stay in the buffer; of a longer name only the first 255 bytes are asked for.
\<close>

theorem log_request_roundtrip:
  assumes "valid_utf8 (as_bytes (take 255 name))"
  shows "parse_log_request (log_request name follow @ rest) = Some (follow, take 255 name, rest)"
  by (rule log_request_parsed [OF assms])

lemma log_request_roundtrip_witness:
  "parse_log_request (log_request ''web'' True @ [1, 2]) = Some (True, ''web'', [1, 2])"
proof -
  have "valid_utf8 (as_bytes (take 255 ''web''))"
    by (rule valid_utf8_ascii) (simp add: as_bytes_def byte_of_char_def)
  from log_request_roundtrip [OF this, of True "[1, 2]"] show ?thesis by simp
qed

section \<open>Durations\<close>

lemma pick_units_two: "pick_units secs us = Some (x, Some y) \<Longrightarrow> fst x \<le> secs \<and> x \<in> set us \<and> y \<in> set us"
  by (induction secs us rule: pick_units.induct) (auto split: if_splits)

lemma pick_units_last: "pick_units secs us = Some (x, None) \<Longrightarrow> x = last us"
  by (induction secs us rule: pick_units.induct) (auto split: if_splits)

lemma pick_units_total: "us \<noteq> [] \<Longrightarrow> pick_units secs us \<noteq> None"
  by (induction secs us rule: pick_units.induct) auto


text \<open>
  A duration is shown to the precision of its second unit: \<open>v u w u'\<close> means at least
  \<open>v * u + w * u'\<close> seconds and less than one \<open>u'\<close> more, and the leading number is 0 only for
  less than a second.
\<close>

theorem duration_compact_precise:
  "\<exists>v u un w u' un'. (u, un) \<in> set DURATION_UNITS \<and> (u', un') \<in> set (DURATION_UNITS)
    \<and> format_duration_compact d = show_nat v @ un @ (if w = 0 then '''' else '' '' @ show_nat w @ un')
    \<and> v * u + w * u' \<le> d div 1000000000 \<and> d div 1000000000 < v * u + (w + 1) * u'
    \<and> (v = 0 \<longleftrightarrow> d < 1000000000)"
proof -
  let ?s = "d div 1000000000"
  have split: "v * u + w * u' \<le> s \<and> s < v * u + (w + 1) * u'"
    if "v = s div u" "w = s mod u div u'" "0 < u'" for s v u w u' :: nat
  proof -
    have "s = v * u + s mod u" by (simp add: that)
    moreover have "w * u' \<le> s mod u" "s mod u < (w + 1) * u'"
      using that(3) by (simp_all add: that(2) dividend_less_div_times)
    ultimately show ?thesis by linarith
  qed
  have pos: "0 < fst x" if "x \<in> set DURATION_UNITS" for x
    using that by (auto simp: DURATION_UNITS_def)
  have zero: "?s = 0 \<longleftrightarrow> d < 1000000000"
    by (simp add: div_eq_0_iff)
  obtain u un n where P: "pick_units ?s DURATION_UNITS = Some ((u, un), n)"
    using pick_units_total [of DURATION_UNITS ?s] by (auto simp: DURATION_UNITS_def)
  show ?thesis
  proof (cases n)
    case None
    with P have "(u, un) = (1, ''s'')" using pick_units_last [of ?s DURATION_UNITS] by (simp add: DURATION_UNITS_def)
    then have "u = 1" "un = ''s''" by simp_all
    with P None have F: "format_duration_compact d = show_nat ?s @ ''s''"
      by (simp add: format_duration_compact_def Let_def)
    have "(1, ''s'') \<in> set DURATION_UNITS" by (simp add: DURATION_UNITS_def)
    with F zero show ?thesis
      by (intro exI [of _ ?s] exI [of _ 1] exI [of _ "''s''"] exI [of _ 0] exI [of _ 1] exI [of _ "''s''"]) simp
  next
    case (Some y)
    obtain u' un' where y: "y = (u', un')" by force
    from pick_units_two [OF P [unfolded Some]] have le: "u \<le> ?s" and m: "(u, un) \<in> set DURATION_UNITS" "(u', un') \<in> set DURATION_UNITS"
      by (simp_all add: y)
    from pos [OF m(1)] pos [OF m(2)] have u: "0 < u" "0 < u'" by simp_all
    have F: "format_duration_compact d = show_nat (?s div u) @ un @
        (if ?s mod u div u' = 0 then '''' else '' '' @ show_nat (?s mod u div u') @ un')"
      using P Some y by (simp add: format_duration_compact_def Let_def)
    have "?s \<noteq> 0" and "?s div u \<noteq> 0" using le u by (simp_all add: div_eq_0_iff)
    with zero have z: "?s div u = 0 \<longleftrightarrow> d < 1000000000" by simp
    show ?thesis
      using split [OF refl refl u(2), of ?s u] m F z
      by (intro exI [of _ "?s div u"] exI [of _ u] exI [of _ un] exI [of _ "?s mod u div u'"] exI [of _ u'] exI [of _ un']) blast
  qed
qed


section \<open>A configuration printed and read again\<close>

definition env_entry :: "string \<times> string \<Rightarrow> string" where
  "env_entry kv = (case kv of (k, v) \<Rightarrow> k @ ''='' @ v)"

definition env_keys_ok :: "(string \<times> string) list \<Rightarrow> bool" where
  "env_keys_ok m \<longleftrightarrow> distinct (map fst m) \<and> (\<forall>k \<in> set (map fst m). CHR ''='' \<notin> set k)"

lemma update_new: "k \<notin> set (map fst al) \<Longrightarrow> AList.update k v al = al @ [(k, v)]"
  by (induction al) auto

lemma env_mapping_entries:
  assumes "env_keys_ok m"
  shows "env_mapping (map env_entry m) = m"
proof -
  let ?f = "\<lambda>entry env. case split_once CHR ''='' entry of Some (key, value) \<Rightarrow> AList.update key value env | None \<Rightarrow> env"
  have "fold ?f (map env_entry m) acc = acc @ m" if "distinct (map fst (acc @ m))" "\<forall>k \<in> set (map fst m). CHR ''='' \<notin> set k" for acc
    using that
  proof (induction m arbitrary: acc)
    case (Cons kv m)
    obtain k v where kv: "kv = (k, v)" by force
    with Cons.prems have "split_once CHR ''='' (env_entry kv) = Some (k, v)" by (simp add: env_entry_def split_once_join)
    moreover have "AList.update k v acc = acc @ [(k, v)]"
      using Cons.prems(1) kv by (intro update_new) auto
    ultimately show ?case using Cons.IH [of "acc @ [(k, v)]"] Cons.prems kv by simp
  qed simp
  from this [of "[]"] assms show ?thesis by (simp add: env_mapping_def env_keys_ok_def)
qed

lemma join_split_command: "str_split CHR '' '' (join '' '' (str_split CHR '' '' command)) = str_split CHR '' '' command"
  by (simp add: join_str_split)

lemma env_mapping_distinct: "distinct (map fst (env_mapping entries))"
proof -
  let ?f = "\<lambda>entry env. case split_once CHR ''='' entry of Some (key, value) \<Rightarrow> AList.update key value env | None \<Rightarrow> env"
  have "distinct (map fst acc) \<Longrightarrow> distinct (map fst (fold ?f entries acc))" for acc
    by (induction entries arbitrary: acc) (auto simp: distinct_update split: option.split)
  from this [of "[]"] show ?thesis by (simp add: env_mapping_def)
qed

text \<open>The parameters of an app from a configuration that reads back what was printed for it.\<close>

lemma reads_back_params:
  assumes "app_params_of H page_size default_size cfg = Ok p" and "a_params a = p" and "a_name a = ap_name p"
    and "case cf_env cfg of None \<Rightarrow> True | Some m \<Rightarrow> env_keys_ok m"
    and "reads_back (yaml_of_config (app_config_snapshot a)) cfg2"
  shows "\<exists>p2. app_params_of H2 page_size default_size2 cfg2 = Ok p2 \<and> p2\<lparr>ap_env := ap_env p\<rparr> = p
    \<and> mset (ap_env p2) = mset (ap_env p)"
proof -
  define m where "m = (case cf_env cfg of Some m \<Rightarrow> m | None \<Rightarrow> [])"
  have "env_keys_ok []" by (simp add: env_keys_ok_def)
  with assms(4) have keys: "env_keys_ok m" by (cases "cf_env cfg") (simp_all add: m_def)
  from assms(1) obtain cwd where V: "validate_log_buffer_size page_size (ap_log_buffer_size p) = Ok ()"
    and p: "p = \<lparr>ap_cwd = cwd, ap_name = unwrap_or (cf_name cfg) (hd (str_split CHR '' '' (cf_command cfg))),
        ap_prog = hd (str_split CHR '' '' (cf_command cfg)), ap_args = str_split CHR '' '' (cf_command cfg),
        ap_uid = unwrap_or (resolved_uid (ho_getpwnam H) cfg) (ho_uid H), ap_gid = unwrap_or (resolved_gid (ho_getgrnam H) cfg) (ho_gid H),
        ap_env = map env_entry m, ap_oneshot = cf_oneshot cfg, ap_cgroup = cf_cgroup cfg, ap_autostart = cf_autostart cfg,
        ap_restart = cf_restart cfg, ap_log_buffer_size = unwrap_or (cf_log_buffer_size cfg) default_size\<rparr>"
    by (auto simp: app_params_of_def Let_def m_def env_entry_def cong: map_cong split: outcome.splits option.splits)
  let ?y = "yaml_of_config (app_config_snapshot a)"
  have env: "cy_env ?y = m"
    using env_mapping_entries [OF keys] assms(2) p by (simp add: yaml_of_config_def app_config_snapshot_def Let_def)
  have cmd: "cf_command cfg2 = cf_command cfg"
    using assms(2,5) p by (simp add: reads_back_def yaml_of_config_def app_config_snapshot_def app_command_def join_str_split Let_def)
  define env2 where "env2 = (case cf_env cfg2 of Some m2 \<Rightarrow> map env_entry m2 | None \<Rightarrow> [])"
  have E: "mset env2 = mset (map env_entry m)"
    using assms(5) env by (auto simp: env2_def reads_back_def mset_map split: option.splits)
  have e2: "(case cf_env cfg2 of Some m2 \<Rightarrow> map (\<lambda>(k, v). k @ ''='' @ v) m2 | None \<Rightarrow> []) = env2"
    by (simp add: env2_def env_entry_def cong: map_cong split: option.split)
  have "app_params_of H2 page_size default_size2 cfg2 = Ok (p\<lparr>ap_env := env2\<rparr>)"
    using assms(2,3,5) V e2 cmd
    by (simp add: app_params_of_def reads_back_def yaml_of_config_def app_config_snapshot_def Let_def p resolved_uid_def
        resolved_gid_def resolve_id_def)
  with E show ?thesis by (intro exI [of _ "p\<lparr>ap_env := env2\<rparr>"]) (simp add: p)
qed

text \<open>
  C26. \<open>lway config\<close> prints what can be pasted: the entry printed for an app, read again as a
  configuration in any format that presents it (by a daemon with any defaults, user, working
  directory and hash order), is accepted and gives the very parameters the app runs with; only the
  order of the environment may change.
\<close>

theorem config_roundtrip:
  assumes "app_params_of H page_size default_size cfg = Ok p" and "a_params a = p" and "a_name a = ap_name p"
    and "case cf_env cfg of None \<Rightarrow> True | Some m \<Rightarrow> env_keys_ok m" and "snapshot_fits (app_config_snapshot a)"
    and "presents D (ser_app_config_yaml (yaml_of_config (app_config_snapshot a))) n" and "names_ok D"
    and "\<And>kvs. mset (hash_order kvs) = mset kvs"
  shows "\<exists>cfg2 p2. de_app_config hash_order D n = Some cfg2 \<and> app_params_of H2 page_size default_size2 cfg2 = Ok p2
    \<and> p2\<lparr>ap_env := ap_env p\<rparr> = p \<and> mset (ap_env p2) = mset (ap_env p)"
proof -
  have "yaml_fits (yaml_of_config (app_config_snapshot a))"
    using assms(5) env_mapping_distinct by (simp add: yaml_fits_def snapshot_fits_def yaml_of_config_def)
  then obtain cfg2 where R: "de_app_config hash_order D n = Some cfg2" "reads_back (yaml_of_config (app_config_snapshot a)) cfg2"
    using app_config_reads_back [OF assms(6,7) _ assms(8)] by metis
  from reads_back_params [OF assms(1-4) R(2), of H2 default_size2] R(1) show ?thesis by blast
qed

definition sample_env_config :: app_config where
  "sample_env_config = (sample_config_of ''web'' True)\<lparr>cf_env := Some [(''A'', ''1=2''), (''B'', '''')], cf_user := None\<rparr>"

lemma config_roundtrip_witness:
  "\<exists>p v cfg2. app_params_of sample_host 4 8 sample_env_config = Ok p \<and> ap_env p = [''A=1=2'', ''B='']
    \<and> de_app_config rev content_de v = Some cfg2
    \<and> (\<exists>p2. app_params_of sample_host 4 4 cfg2 = Ok p2 \<and> p2\<lparr>ap_env := ap_env p\<rparr> = p)"
proof -
  obtain p where P: "app_params_of sample_host 4 8 sample_env_config = Ok p" and e: "ap_env p = [''A=1=2'', ''B='']"
    and n: "ap_name p = ''web''" and r: "ap_uid p < 2 ^ 32" "ap_gid p < 2 ^ 32" "policy_fits (ap_restart p)" "cgroup_fits (ap_cgroup p)"
      "ap_log_buffer_size p < 2 ^ 64"
    by (simp add: app_params_of_def sample_env_config_def sample_config_of_def sample_host_def validate_log_buffer_size_def
        resolved_uid_def resolved_gid_def resolve_id_def Let_def policy_fits_def delay_fits_def restart_policy_default_def
        restart_delay_default_def default_constant_delay_ms_def cgroup_fits_def)
  let ?a = "(daemon_app ''web'' True (Stopped None))\<lparr>a_params := p\<rparr>"
  have env: "case cf_env sample_env_config of None \<Rightarrow> True | Some m \<Rightarrow> env_keys_ok m"
    by (simp add: sample_env_config_def env_keys_ok_def)
  have name: "a_name ?a = ap_name p" by (simp add: n daemon_app_def)
  have fits: "snapshot_fits (app_config_snapshot ?a)"
    using r by (simp add: snapshot_fits_def app_config_snapshot_def Let_def)
  from config_roundtrip [OF P _ name env fits content_presents content_names_ok, of rev sample_host 4] P e show ?thesis
    by auto
qed

section \<open>The table of \<open>lway list\<close>\<close>

lemma char_count_le: "char_count s \<le> length s"
  by (simp add: char_count_def)

lemma char_count_pad: "char_count (pad_right w s) = max w (char_count s)"
proof -
  have "char_count (replicate n CHR '' '') = n" for n by (simp add: char_count_def)
  moreover have "char_count (s @ t) = char_count s + char_count t" for s t by (simp add: char_count_def)
  ultimately show ?thesis by (simp add: pad_right_def)
qed

lemma widen_covers:
  "length row = length ws \<Longrightarrow>
     list_all2 (\<lambda>w c. length c \<le> w) (widen row ws) row \<and> list_all2 (\<le>) ws (widen row ws) \<and> length (widen row ws) = length ws"
  by (auto simp: widen_def list_all2_conv_all_nth)

lemma fold_widen_covers:
  "\<forall>row \<in> set rows. length row = length ws \<Longrightarrow>
     (\<forall>row \<in> set rows. list_all2 (\<lambda>w c. length c \<le> w) (fold widen rows ws) row)
   \<and> list_all2 (\<le>) ws (fold widen rows ws) \<and> length (fold widen rows ws) = length ws"
proof (induction rows arbitrary: ws)
  case Nil
  show ?case by (simp add: list_all2_refl)
next
  case (Cons row rows)
  let ?ws = "widen row ws"
  from Cons.prems widen_covers [of row ws] have W: "list_all2 (\<lambda>w c. length c \<le> w) ?ws row" "list_all2 (\<le>) ws ?ws"
    and len: "length ?ws = length ws" by simp_all
  from Cons.IH [of ?ws] Cons.prems len have I: "\<forall>row \<in> set rows. list_all2 (\<lambda>w c. length c \<le> w) (fold widen rows ?ws) row"
    "list_all2 (\<le>) ?ws (fold widen rows ?ws)" "length (fold widen rows ?ws) = length ws" by simp_all
  have "list_all2 (\<lambda>w c. length c \<le> w) (fold widen rows ?ws) row"
    using W(1) I(2,3) len by (auto simp: list_all2_conv_all_nth) (metis order_trans)
  moreover have "list_all2 (\<le>) ws (fold widen rows ?ws)"
    using W(2) I(2) by (rule list_all2_trans [rotated]) simp
  ultimately show ?case using I by simp
qed

text \<open>
  The table is aligned: in every line of \<open>lway list\<close>, header included and whatever characters
  the names and commands hold, the i-th cell is padded to exactly the width of the i-th column, so
  every column starts at the same character of every line; only blanks at line ends are cut.
\<close>

theorem table_aligned:
  "print_apps_table db apps =
     println (map (\<lambda>row. trim_end (join ''  '' (map2 (\<lambda>cell width. pad_right width cell) row (column_widths (map (app_row db) apps)))))
       (HEADERS # map (app_row db) apps))
   \<and> map (\<lambda>row. map char_count (map2 (\<lambda>cell width. pad_right width cell) row (column_widths (map (app_row db) apps))))
       (HEADERS # map (app_row db) apps)
     = replicate (Suc (length apps)) (column_widths (map (app_row db) apps))"
proof -
  let ?W = "column_widths (map (app_row db) apps)"
  have "\<forall>row \<in> set (map (app_row db) apps). length row = length (map length HEADERS)"
    by (auto simp: app_row_def HEADERS_def)
  from fold_widen_covers [OF this] have rows: "\<forall>row \<in> set (map (app_row db) apps). list_all2 (\<lambda>w c. length c \<le> w) ?W row"
    and hd: "list_all2 (\<le>) (map length HEADERS) ?W"
    by (simp_all add: column_widths_def)
  from hd have "list_all2 (\<lambda>w c. length c \<le> w) ?W HEADERS" by (auto simp: list_all2_conv_all_nth)
  with rows have all: "list_all2 (\<lambda>w c. length c \<le> w) ?W row" if "row \<in> set (HEADERS # map (app_row db) apps)" for row
    using that by auto
  have "map char_count (map2 (\<lambda>cell width. pad_right width cell) row ?W) = ?W" if "row \<in> set (HEADERS # map (app_row db) apps)" for row
    using all [OF that] char_count_le
    by (intro nth_equalityI) (auto simp: list_all2_conv_all_nth char_count_pad intro!: max_absorb1 order_trans [OF char_count_le])
  then have "map (\<lambda>row. map char_count (map2 (\<lambda>cell width. pad_right width cell) row ?W)) (HEADERS # map (app_row db) apps)
      = map (\<lambda>_. ?W) (HEADERS # map (app_row db) apps)"
    by (intro map_cong refl) blast
  also have "\<dots> = replicate (Suc (length apps)) ?W" by (simp add: map_replicate_const)
  finally have widths: "map (\<lambda>row. map char_count (map2 (\<lambda>cell width. pad_right width cell) row ?W)) (HEADERS # map (app_row db) apps)
      = replicate (Suc (length apps)) ?W" .
  have "print_apps_table db apps = println (map (\<lambda>row. trim_end (join ''  '' (map2 (\<lambda>cell width. pad_right width cell) row ?W)))
      (HEADERS # map (app_row db) apps))"
    by (simp add: print_apps_table_def row_line_def [abs_def] Let_def comp_def)
  with widths show ?thesis by blast
qed

end
