(* ===== verification/Entry.thy ===== *)
theory Entry
  imports Supervisor Cli
begin

text \<open>
  The program, \<open>main\<close> of \<open>src/src/main.rs\<close>: a client for one command, or the daemon from the
  configuration over the sockets and the event loop to the clean-up; and \<open>bind\<close> of the two
  servers (\<open>ipc.rs\<close>, \<open>log_ipc.rs\<close>). The arguments come parsed (clap); the calls that only
  \<open>main\<close> makes answer through a record of their own.
\<close>

section \<open>Arguments\<close>

definition DEFAULT_CONFIG_PATH :: string where
  "DEFAULT_CONFIG_PATH = ''lway.yaml''"

definition DEFAULT_SOCKET_PATH :: string where
  "DEFAULT_SOCKET_PATH = ''/run/lway.sock''"

definition DEFAULT_LOG_SOCKET_PATH :: string where
  "DEFAULT_LOG_SOCKET_PATH = ''/run/lway-logs.sock''"

record cli =
  cli_verbose :: nat
  cli_config :: "string option"
  cli_socket :: "string option"
  cli_log_socket :: "string option"
  cli_daemon :: bool
  cli_keep_running :: bool
  cli_echo_logs :: bool
  cli_command :: "command option"

definition config_path :: "cli \<Rightarrow> string" where
  "config_path cli = unwrap_or (cli_config cli) DEFAULT_CONFIG_PATH"

definition socket_path :: "cli \<Rightarrow> string" where
  "socket_path cli = unwrap_or (cli_socket cli) DEFAULT_SOCKET_PATH"

definition log_socket_path :: "cli \<Rightarrow> string" where
  "log_socket_path cli = unwrap_or (cli_log_socket cli) DEFAULT_LOG_SOCKET_PATH"

datatype level_filter = LevelWarn | LevelInfo | LevelDebug | LevelTrace

definition log_level :: "cli \<Rightarrow> level_filter" where
  "log_level cli =
     (if cli_verbose cli = 0 then LevelWarn else if cli_verbose cli = 1 then LevelInfo
      else if cli_verbose cli = 2 then LevelDebug else LevelTrace)"

section \<open>The kernel as start-up and clean-up see it\<close>

text \<open>
  The answers to the calls of \<open>main\<close> and \<open>bind\<close>, \<open>None\<close> or \<open>True\<close> for success. \<open>os_bind\<close> is
  consulted for a path that does not exist; a path that does is in use (98 is \<open>EADDRINUSE\<close>).
\<close>

record os =
  os_logger_init :: "level_filter \<Rightarrow> bool"
  os_signal_mask :: "io_error \<times> int"
  os_signal_fd :: "io_error \<times> int"
  os_build_cgroup :: "cgroup_spec \<Rightarrow> bool"
  os_delete_cgroup :: bool
  os_new_poll :: bool
  os_remove_file :: "string \<Rightarrow> io_error option"
  os_bind :: "string \<Rightarrow> io_error option"
  os_register :: "token \<Rightarrow> io_error option"

text \<open>The files at the paths of interest; \<open>remove_file\<close> and \<open>UnixListener::bind\<close> on them.\<close>

type_synonym files = "string list"

definition remove_file :: "os \<Rightarrow> string \<Rightarrow> files \<Rightarrow> (io_error, unit) outcome \<times> files" where
  "remove_file K path files =
     (if path \<notin> set files then (Err (Errno 2), files)
      else case os_remove_file K path of
        Some e \<Rightarrow> (Err e, files)
      | None \<Rightarrow> (Ok (), removeAll path files))"

definition listen :: "os \<Rightarrow> string \<Rightarrow> files \<Rightarrow> (io_error, unit) outcome \<times> files" where
  "listen K path files =
     (if path \<in> set files then (Err (Errno 98), files)
      else case os_bind K path of
        Some e \<Rightarrow> (Err e, files)
      | None \<Rightarrow> (Ok (), path # files))"

section \<open>Binding the sockets\<close>

definition bind_socket :: "os \<Rightarrow> string \<Rightarrow> token \<Rightarrow> files \<Rightarrow> (io_error, unit) outcome \<times> files" where
  "bind_socket K path tok files =
     (case (if path \<in> set files then remove_file K path files else (Ok (), files)) of
        (Err e, files) \<Rightarrow> (Err e, files)
      | (Panic m, files) \<Rightarrow> (Panic m, files)
      | (Ok _, files) \<Rightarrow>
          (case listen K path files of
             (Err e, files) \<Rightarrow> (Err e, files)
           | (Panic m, files) \<Rightarrow> (Panic m, files)
           | (Ok _, files) \<Rightarrow>
               (case os_register K tok of
                  Some e \<Rightarrow> (Err e, files)
                | None \<Rightarrow> (Ok (), files))))"

text \<open>\<open>Server::bind\<close> and \<open>LogServer::bind\<close>.\<close>

definition server_bind :: "os \<Rightarrow> string \<Rightarrow> nat \<Rightarrow> files \<Rightarrow> (ipc_error, server) outcome \<times> files" where
  "server_bind K path max_connections files =
     (case bind_socket K path UNIX_LISTENER_TOKEN files of
        (Ok _, files) \<Rightarrow> (Ok (server_new max_connections), files)
      | (Err e, files) \<Rightarrow> (Err (IpcIo e), files)
      | (Panic m, files) \<Rightarrow> (Panic m, files))"

definition log_server_bind :: "os \<Rightarrow> string \<Rightarrow> token \<Rightarrow> nat \<Rightarrow> files \<Rightarrow> (ipc_error, log_server) outcome \<times> files" where
  "log_server_bind K path tok max_connections files =
     (case bind_socket K path tok files of
        (Ok _, files) \<Rightarrow> (Ok (log_server_new max_connections), files)
      | (Err e, files) \<Rightarrow> (Err (IpcIo e), files)
      | (Panic m, files) \<Rightarrow> (Panic m, files))"

section \<open>The daemon\<close>

text \<open>How the process ends: with a status, or by a panic (\<open>panic = "abort"\<close>).\<close>

datatype program_end = Exit nat | Abort string

text \<open>
  Start-up from the loaded configuration to the event loop: the apps are created (and started)
  first, then the sockets are bound and the signal descriptor is registered.
\<close>

definition daemon_start :: "os \<Rightarrow> 's env \<Rightarrow> host \<Rightarrow> fs_api \<Rightarrow> global_config \<Rightarrow> cli \<Rightarrow> files \<Rightarrow>
    (program_end, daemon) outcome \<times> 's ctx \<times> files" where
  "daemon_start K E H F cfg cli files =
     (case daemon_init E H F cfg (config_path cli) (cli_echo_logs cli) of
        (Err e, c) \<Rightarrow> (Err (Exit 1), c, files)
      | (Panic m, c) \<Rightarrow> (Err (Abort m), c, files)
      | (Ok d, c) \<Rightarrow>
          (case server_bind K (socket_path cli) (gc_max_control_connections cfg) files of
             (Err e, files) \<Rightarrow> (Err (Exit 1), c, files)
           | (Panic m, files) \<Rightarrow> (Err (Abort m), c, files)
           | (Ok sv, files) \<Rightarrow>
               (case log_server_bind K (log_socket_path cli) LOG_LISTENER_TOKEN (gc_max_log_connections cfg) files of
                  (Err e, files) \<Rightarrow> (Err (Exit 1), c, files)
                | (Panic m, files) \<Rightarrow> (Err (Abort m), c, files)
                | (Ok lsv, files) \<Rightarrow>
                    if os_register K SIGNALFD_TOKEN \<noteq> None then (Err (Abort ''register signal fd''), c, files)
                    else (Ok (d\<lparr>dm_ipc := sv, dm_log := lsv\<rparr>), c, files))))"

text \<open>
  The event loop, over what happens between two calls of \<open>poll\<close> outside the daemon (processes
  write and close their pipes, clients write and read) and the events each \<open>poll\<close> returns (none
  when it fails or is interrupted). \<open>None\<close>: still in the loop.
\<close>

type_synonym turn = "(daemon \<Rightarrow> daemon) \<times> poll_event list"

fun daemon_loop :: "'s env \<Rightarrow> codec \<Rightarrow> bool \<Rightarrow> turn list \<Rightarrow> daemon \<Rightarrow> 's ctx \<Rightarrow>
    (unit, unit) outcome option \<times> daemon \<times> 's ctx" where
  "daemon_loop E J keep_running [] d c = (None, d, c)"
| "daemon_loop E J keep_running ((outside_world, events) # turns) d c =
     (case loop_iteration E J keep_running events (outside_world d) c of
        (Ok leave, d, c) \<Rightarrow> if leave then (Some (Ok ()), d, c) else daemon_loop E J keep_running turns d c
      | (Err e, d, c) \<Rightarrow> (Some (Err e), d, c)
      | (Panic m, d, c) \<Rightarrow> (Some (Panic m), d, c))"

text \<open>After the loop: the socket files go, whatever happens; then the cgroup.\<close>

definition clean_up :: "os \<Rightarrow> cli \<Rightarrow> files \<Rightarrow> program_end \<times> files" where
  "clean_up K cli files =
     (let files = snd (remove_file K (socket_path cli) files);
          files = snd (remove_file K (log_socket_path cli) files)
      in (if os_delete_cgroup K then Exit 0 else Abort ''Failed to delete main cgroup'', files))"

text \<open>The states a run of the daemon is found in.\<close>

datatype 's daemon_run =
    NotStarted program_end
  | StartFailed program_end "'s ctx" files
  | StillRunning daemon "'s ctx" files
  | Ended program_end daemon "'s ctx" files

definition daemon_main :: "os \<Rightarrow> 's env \<Rightarrow> codec \<Rightarrow> host \<Rightarrow> fs_api \<Rightarrow> cli \<Rightarrow> files \<Rightarrow> turn list \<Rightarrow> 's daemon_run" where
  "daemon_main K E J H F cli files turns =
     (if \<not> os_logger_init K (log_level cli) then NotStarted (Abort ''init logger'')
      else case load F (env_page_size E) (config_path cli) of
        Err e \<Rightarrow> NotStarted (Exit 1)
      | Panic m \<Rightarrow> NotStarted (Abort m)
      | Ok cfg \<Rightarrow>
          (case setup_signal_fd (os_signal_mask K) (os_signal_fd K) of
             Err e \<Rightarrow> NotStarted (Exit 1)
           | Panic m \<Rightarrow> NotStarted (Abort m)
           | Ok fd \<Rightarrow>
               if \<not> os_build_cgroup K init_main_cgroup then NotStarted (Abort ''Failed to build cgroup'')
               else if \<not> os_new_poll K then NotStarted (Abort ''create mio poll'')
               else (case daemon_start K E H F cfg cli files of
                       (Err e, c, files) \<Rightarrow> StartFailed e c files
                     | (Panic m, c, files) \<Rightarrow> StartFailed (Abort m) c files
                     | (Ok d, c, files) \<Rightarrow>
                         (case daemon_loop E J (cli_keep_running cli) turns d c of
                            (None, d, c) \<Rightarrow> StillRunning d c files
                          | (Some (Ok _), d, c) \<Rightarrow> (case clean_up K cli files of (e, files) \<Rightarrow> Ended e d c files)
                          | (Some (Err _), d, c) \<Rightarrow> Ended (Abort '''') d c files
                          | (Some (Panic m), d, c) \<Rightarrow> Ended (Abort m) d c files))))"

section \<open>The program\<close>

definition lway_main :: "os \<Rightarrow> 's env \<Rightarrow> codec \<Rightarrow> host \<Rightarrow> fs_api \<Rightarrow> name_db \<Rightarrow> (app_config_yaml \<Rightarrow> (string, string) outcome) \<Rightarrow>
    (string \<Rightarrow> dial) \<Rightarrow> string \<Rightarrow> cli \<Rightarrow> files \<Rightarrow> turn list \<Rightarrow> cli_result + 's daemon_run" where
  "lway_main K E J H F db to_yaml net help cli files turns =
     (if \<not> cli_daemon cli
      then Inl (case cli_command cli of
                  None \<Rightarrow> \<lparr>cr_out = as_bytes (help @ println ['''']), cr_err = '''', cr_status = 1\<rparr>
                | Some command \<Rightarrow> run_client_command J db to_yaml net command (socket_path cli) (log_socket_path cli))
      else Inr (daemon_main K E J H F cli files turns))"

end
