(* ===== verification/Entry_Correct.thy ===== *)
theory Entry_Correct
  imports Cli_Correct Supervisor_Correct Entry
begin

text \<open>
  The properties of a run of the daemon as a whole: how it begins and how it ends.
\<close>

section \<open>Start-up\<close>

lemma daemon_init_servers:
  assumes "daemon_init E H F cfg path echo = (Ok d, c)"
  shows "d\<lparr>dm_ipc := server_new (gc_max_control_connections cfg), dm_log := log_server_new (gc_max_log_connections cfg)\<rparr> = d"
  using assms by (auto simp: daemon_init_def bindM_Ok run_simps)

lemma server_bind_Ok: "server_bind K path n files = (Ok sv, files') \<Longrightarrow> sv = server_new n"
  by (auto simp: server_bind_def split: prod.splits outcome.splits)

lemma log_server_bind_Ok: "log_server_bind K path tok n files = (Ok sv, files') \<Longrightarrow> sv = log_server_new n"
  by (auto simp: log_server_bind_def split: prod.splits outcome.splits)

lemma daemon_start_Ok:
  assumes "daemon_start K E H F cfg cli files = (Ok d, c, files')"
  shows "daemon_init E H F cfg (config_path cli) (cli_echo_logs cli) = (Ok d, c)"
  using assms daemon_init_servers [of E H F cfg "config_path cli" "cli_echo_logs cli"]
  by (auto simp: daemon_start_def split: prod.splits outcome.splits if_splits dest!: server_bind_Ok log_server_bind_Ok)

section \<open>The loop\<close>

definition turn_ok :: "turn \<Rightarrow> bool" where
  "turn_ok t \<longleftrightarrow> (\<forall>d. outside d (fst t d)) \<and> (\<forall>ev \<in> set (snd t). event_sound ev)"

lemma daemon_loop_reach:
  assumes w: "world E J" and slab: "slab_laws (env_slab E)"
    and "\<forall>t \<in> set turns. turn_ok t" and "daemon_reach E J keep (d, c)" and "daemon_loop E J keep turns d c = (r, d', c')"
  shows "daemon_reach E J keep (d', c') \<and> (r = None \<or> r = Some (Ok ()) \<and> should_exit keep d')"
  using assms(3-)
proof (induction turns arbitrary: d c)
  case (Cons t turns)
  obtain out evs where t: "t = (out, evs)" by force
  with Cons.prems(1) have ok: "outside d (out d)" "\<forall>ev \<in> set evs. event_sound ev" by (auto simp: turn_ok_def)
  from reach_outside [OF Cons.prems(2) ok(1)] have reach: "daemon_reach E J keep (out d, c)" .
  obtain r1 d1 c1 where I: "loop_iteration E J keep evs (out d) c = (r1, d1, c1)" by (rule prod_cases3)
  have r1: "r1 = Ok (should_exit keep d1)"
    using loop_iteration_safe [OF w ok(2) daemon_reach_inv [OF w slab reach] I] by simp
  with reach_iteration [OF reach ok(2)] I have "daemon_reach E J keep (d1, c1)" by simp
  with Cons.prems(1,3) Cons.IH [of d1 c1] I r1 show ?case by (auto simp: t split: if_splits)
qed simp

section \<open>The end of a run\<close>

lemma should_exit_down:
  assumes "should_exit keep d"
  shows "\<forall>a \<in> set (dm_apps d). \<not> is_running a \<and> pending_restart_deadline a = None"
    and "owned d = server_keys (dm_ipc d) @ log_keys (dm_log d)" and "keep \<Longrightarrow> 0 < dm_sigint_count d"
proof -
  from assms show down: "\<forall>a \<in> set (dm_apps d). \<not> is_running a \<and> pending_restart_deadline a = None"
    by (simp add: should_exit_def)
  then have "\<forall>a \<in> set (dm_apps d). app_tokens a = []"
    by (auto simp: app_tokens_def is_running_def split: app_state.splits)
  then have "concat (map app_tokens (dm_apps d)) = []" by simp
  then show "owned d = server_keys (dm_ipc d) @ log_keys (dm_log d)"
    by (simp only: owned_def append_Nil)
  show "keep \<Longrightarrow> 0 < dm_sigint_count d" using assms by (simp add: should_exit_def)
qed

lemma remove_file_gone:
  "path \<in> set (snd (remove_file K path files)) \<Longrightarrow> os_remove_file K path \<noteq> None"
  "set (snd (remove_file K path files)) \<subseteq> set files"
  by (auto simp: remove_file_def split: if_splits option.splits)

lemma clean_up_files:
  assumes "clean_up K cli files = (e, files')" and "path = socket_path cli \<or> path = log_socket_path cli" and "path \<in> set files'"
  shows "os_remove_file K path \<noteq> None"
  using assms remove_file_gone(1) remove_file_gone(2) by (fastforce simp: clean_up_def Let_def)

lemma daemon_main_Ended:
  assumes "daemon_main K E J H F cli files turns = Ended e d c files'"
  obtains cfg d0 c0 files0 r where "load F (env_page_size E) (config_path cli) = Ok cfg"
    and "daemon_start K E H F cfg cli files = (Ok d0, c0, files0)"
    and "daemon_loop E J (cli_keep_running cli) turns d0 c0 = (Some r, d, c)"
    and "r = Ok () \<and> clean_up K cli files0 = (e, files') \<or> is_panic r \<or> (\<exists>x. r = Err x)"
  using assms
  by (auto simp: daemon_main_def split: if_splits outcome.splits prod.splits option.splits)


lemma create_apps_autostart:
  "create_apps E H default_size echo cfgs c = (Ok apps, c') \<Longrightarrow> list_all (\<lambda>a. is_running a = ap_autostart (a_params a)) apps"
proof (induction cfgs arbitrary: c apps)
  case (Cons cfg cfgs)
  from Cons.prems obtain params a c1 as where a: "app_create E params echo c = (Ok a, c1)"
    and rest: "create_apps E H default_size echo cfgs c1 = (Ok as, c')" and apps: "apps = a # as"
    by (auto simp: bindM_Ok run_simps expect_run dest: sym)
  have "a_params a = params" using a by (auto simp: app_create_def bindM_Ok)
  moreover have "is_running a = ap_autostart params"
    by (cases rule: app_create_cases [OF a]) (simp_all add: is_running_def)
  ultimately have "is_running a = ap_autostart (a_params a)" by simp
  with Cons.IH [OF rest] show ?case by (simp add: apps)
qed (simp add: run_simps)

text \<open>
  C35. A daemon that cannot bind its control socket leaves the processes it has just started behind:
  the apps are started before the socket is bound, and the exit with status 1 stops none of them.
\<close>

theorem failed_bind_abandons_apps:
  assumes "os_logger_init K (log_level cli)" and "load F (env_page_size E) (config_path cli) = Ok cfg"
    and "setup_signal_fd (os_signal_mask K) (os_signal_fd K) = Ok fd" and "os_build_cgroup K init_main_cgroup" and "os_new_poll K"
    and "daemon_init E H F cfg (config_path cli) (cli_echo_logs cli) = (Ok d, c)"
    and "socket_path cli \<notin> set files" and "os_bind K (socket_path cli) = Some e"
  shows "daemon_main K E J H F cli files turns = StartFailed (Exit 1) c files
    \<and> list_all (\<lambda>a. is_running a = ap_autostart (a_params a)) (dm_apps d)"
proof -
  have "server_bind K (socket_path cli) n files = (Err (IpcIo e), files)" for n
    using assms(7,8) by (simp add: server_bind_def bind_socket_def listen_def)
  then have "daemon_start K E H F cfg cli files = (Err (Exit 1), c, files)"
    by (simp add: daemon_start_def assms(6))
  with assms(1-5) have "daemon_main K E J H F cli files turns = StartFailed (Exit 1) c files"
    by (simp add: daemon_main_def)
  moreover have "list_all (\<lambda>a. is_running a = ap_autostart (a_params a)) (dm_apps d)"
    using assms(6) create_apps_autostart by (auto simp: daemon_init_def bindM_Ok run_simps)
  ultimately show ?thesis by simp
qed

section \<open>A concrete run\<close>

text \<open>A machine on which every call succeeds, and a configuration with one app.\<close>

definition sample_os :: os where
  "sample_os =
     \<lparr>os_logger_init = (\<lambda>_. True), os_signal_mask = (WouldBlock, 0), os_signal_fd = (WouldBlock, 5),
      os_build_cgroup = (\<lambda>_. True), os_delete_cgroup = True, os_new_poll = True, os_remove_file = (\<lambda>_. None),
      os_bind = (\<lambda>_. None), os_register = (\<lambda>_. None)\<rparr>"

definition sample_cli :: cli where
  "sample_cli =
     \<lparr>cli_verbose = 0, cli_config = None, cli_socket = Some ''lway.sock'', cli_log_socket = Some ''logs.sock'', cli_daemon = True,
      cli_keep_running = False, cli_echo_logs = False, cli_command = None\<rparr>"

definition config_fs :: "global_config \<Rightarrow> fs_api" where
  "config_fs cfg = sample_fs\<lparr>fs_read_to_string := \<lambda>_. Ok '''', fs_parse_global := \<lambda>_. Ok cfg\<rparr>"

definition one_app :: "bool \<Rightarrow> global_config" where
  "one_app autostart = sample_global\<lparr>gc_apps := [sample_config_of ''web'' autostart]\<rparr>"

lemma one_app_load: "load (config_fs (one_app b)) 4 path = Ok (one_app b)"
  by (simp add: load_def config_fs_def one_app_def sample_global_def validate_log_buffer_size_def)

lemma one_app_words: "config_words (config_fs (one_app b)) (one_app b) path"
  by (auto simp: config_words_def one_app_def sample_global_def config_fs_def sample_fs_def all_apps_def scan_apps_dir_def
      sample_config_of_def global_config_default_def usize_bound_def key_bound_def)

definition one_app_ctx :: "bool \<Rightarrow> (nat \<times> token option list) ctx" where
  "one_app_ctx autostart = (if autostart then daemon_ctx\<lparr>cx_tick := 2\<rparr>
     else \<lparr>cx_slab = token_slab_new vec_slab 8 3, cx_tick = 1, cx_trace = []\<rparr>)"

lemma one_app_init:
  "daemon_init sound_env sample_host (config_fs (one_app b)) (one_app b) path False =
     (Ok (sample_daemon\<lparr>dm_apps := [daemon_app ''web'' b (if b then Running daemon_rt else Stopped None)]\<rparr>), one_app_ctx b)"
  by (cases b) (simp_all add: daemon_init_def start_evals runtime_init_def token_slab_new_def RESERVED_MIO_TOKENS_def sample_global_def
      global_config_default_def all_apps_def scan_apps_dir_def sample_fs_def sample_config_of_def app_params_of_def
      validate_log_buffer_size_def resolved_uid_def resolved_gid_def resolve_id_def sample_host_def app_create_def
      new_sealed_def new_from_memfd_buffer_def mmap_ring_buffer_def sys_mmap_def replicate_8 sample_daemon_def
      daemon_app_def daemon_rt_def daemon_ctx_def config_fs_def one_app_def one_app_ctx_def)

lemma sample_os_simps [simp]:
  "os_logger_init sample_os l" "os_build_cgroup sample_os g" "os_delete_cgroup sample_os" "os_new_poll sample_os"
  "os_remove_file sample_os path = None" "os_bind sample_os path = None" "os_register sample_os tok = None"
  "setup_signal_fd (os_signal_mask sample_os) (os_signal_fd sample_os) = Ok 5"
  by (simp_all add: sample_os_def setup_signal_fd_def to_ioresult_def)

lemma sample_cli_simps [simp]:
  "socket_path sample_cli = ''lway.sock''" "log_socket_path sample_cli = ''logs.sock''" "\<not> cli_keep_running sample_cli"
  by (simp_all add: sample_cli_def socket_path_def log_socket_path_def)

lemma failed_bind_abandons_apps_witness:
  "daemon_main (sample_os\<lparr>os_bind := \<lambda>_. Some (Errno 13)\<rparr>) sound_env sample_codec sample_host (config_fs (one_app True)) sample_cli [] []
     = StartFailed (Exit 1) (one_app_ctx True) []
   \<and> list_all (\<lambda>a. is_running a = ap_autostart (a_params a)) [daemon_app ''web'' True (Running daemon_rt)]
   \<and> Spawned ''lway/web'' 100 \<in> set (cx_trace (one_app_ctx True))"
proof -
  have I: "daemon_init sound_env sample_host (config_fs (one_app True)) (one_app True) (config_path sample_cli) (cli_echo_logs sample_cli)
      = (Ok (sample_daemon\<lparr>dm_apps := [daemon_app ''web'' True (Running daemon_rt)]\<rparr>), one_app_ctx True)"
    using one_app_init [of True] by (simp add: sample_cli_def)
  have T: "Spawned ''lway/web'' 100 \<in> set (cx_trace (one_app_ctx True))"
    by (simp add: one_app_ctx_def daemon_ctx_def)
  show ?thesis
    using failed_bind_abandons_apps [OF _ _ _ _ _ I, of "sample_os\<lparr>os_bind := \<lambda>_. Some (Errno 13)\<rparr>" 5 "[]" "Errno 13" sample_codec "[]"] T
    by (simp add: one_app_load)
qed

lemma idle_turn: "turn_ok (id, [])"
proof -
  have "conn_outside x x" for x
    unfolding conn_outside_def by (cases x) (auto intro!: exI [of _ "cn_stream (snd x)"])
  moreover have "lconn_outside x x" for x
    unfolding lconn_outside_def by (cases x) (auto intro!: exI [of _ "lconn_stream (snd x)"])
  ultimately show ?thesis by (simp add: turn_ok_def outside_def app_outside_def list_all2_same)
qed

lemma one_app_turn:
  "\<exists>c. loop_iteration sound_env sample_codec False [] (sample_daemon\<lparr>dm_apps := [daemon_app ''web'' False (Stopped None)]\<rparr>)
      (one_app_ctx False) = (Ok True, sample_daemon\<lparr>dm_apps := [daemon_app ''web'' False (Stopped None)]\<rparr>, c)"
  by (simp add: loop_iteration_def push_logs_def push_updates_def fire_restarts_def on_apps_def forward_sigint_def should_exit_def
      sample_daemon_def daemon_app_def maybe_restart_def SIGINT_THRESHOLD_def log_server_new_def is_running_def
      pending_restart_deadline_def)


end
