(* ===== verification/Commands.thy ===== *)
theory Commands
  imports Entry_Correct
begin

text \<open>
  What commands of the client do end to end, through the client, the sockets, the servers and the
  apps.
\<close>

section \<open>Stopping an app by its name\<close>

text \<open>A name stands for the first app that has it.\<close>

lemma with_app_first:
  assumes "i < length apps" and "a_name (apps ! i) = name" and "\<And>j. j < i \<Longrightarrow> a_name (apps ! j) \<noteq> name"
    and "f (apps ! i) c = (r, a', c')"
  shows "with_app name f apps c = (Some r, apps[i := a'], c')"
  using assms
proof (induction apps arbitrary: i)
  case (Cons a apps)
  show ?case
  proof (cases i)
    case 0
    with Cons.prems show ?thesis by simp
  next
    case (Suc k)
    have "a_name a \<noteq> name" using Cons.prems(3) [of 0] Suc by simp
    moreover have "with_app name f apps c = (Some r, apps[k := a'], c')"
    proof (rule Cons.IH)
      show "a_name (apps ! j) \<noteq> name" if "j < k" for j using Cons.prems(3) [of "Suc j"] that Suc by simp
    qed (use Cons.prems Suc in simp_all)
    ultimately show ?thesis by (simp add: Suc)
  qed
qed simp

lemma apps_inv_nth: "apps_inv E apps c \<Longrightarrow> i < length apps \<Longrightarrow> app_inv E (apps ! i) c"
  by (induction apps arbitrary: i) (auto simp: nth_Cons split: nat.splits)




section \<open>A configuration that cannot be shown\<close>

text \<open>
  C36. A configuration that cannot be asked for: when the backoff of an app has a multiplier that is
  not a finite number (YAML's \<open>.inf\<close>, which the daemon accepts), the daemon prints null in its place,
  the client refuses the response, and \<open>lway config\<close> fails for this app with a JSON error.
\<close>

theorem nonfinite_multiplier_hides_config:
  assumes "kernel_sound E" and "fresh_pipes E" and "json_laws T" and "apps_inv E apps c" and "cn_write_buf conn = []"
    and "net sock = daemon_dial E (json_codec T) conn apps c"
    and "i < length apps" and "a_name (apps ! i) = name" and "\<forall>j < i. a_name (apps ! j) \<noteq> name"
    and "snapshot_fits (app_config_snapshot (apps ! i))" and "no_backoff (on_success (ap_restart (a_params (apps ! i))))"
    and "on_error (ap_restart (a_params (apps ! i))) = ExponentialBackoff k m x" and "\<forall>q. x \<noteq> Fin q"
  shows "\<exists>e. run_client_command (json_codec T) db to_yaml net (CmdConfig name) sock log_sock = cli_fail (json_codec T) (IpcJson e)"
proof -
  let ?J = "json_codec T" and ?r = "RespConfig name (app_config_snapshot (apps ! i))"
  have W: "world E ?J" using assms(1,2) json_codec_laws [OF assms(3)] by (simp add: world_def)
  let ?f = "\<lambda>a c. (RespConfig (a_name a) (app_config_snapshot a), a, c)"
  have "with_app name ?f apps c = (Some ?r, apps[i := apps ! i], c)"
    by (rule with_app_first [OF assms(7,8)]) (use assms(8,9) in simp_all)
  then have D: "dispatch_request E ?J (ReqConfig name) apps c = (Ok ?r, apps, c)"
    by (simp add: dispatch_request_def)
  have "cd_print_request ?J (ReqConfig name) = Ok (jt_print T (ser_request (ReqConfig name)))" by (simp add: json_codec_def)
  from daemon_transmits [where net = net and path = sock, OF W assms(4,5) D assms(6) this] obtain out
    where out: "cd_print_response ?J ?r = Ok out" and send: "send_request ?J net sock (ReqConfig name) = map_err IpcJson (cd_parse_response ?J out)" .
  have "no_backoff (on_success (ac_restart (app_config_snapshot (apps ! i))))"
    and "on_error (ac_restart (app_config_snapshot (apps ! i))) = ExponentialBackoff k m x"
    using assms(11,12) by (simp_all add: app_config_snapshot_def Let_def)
  from nonfinite_multiplier_refused [OF assms(3,10) this assms(13), of name] out obtain e where "cd_parse_response ?J out = Err e"
    by auto
  with send show ?thesis by (auto simp: run_client_command_def run_config_client_def get_config_def)
qed

definition hidden_app :: app where
  "hidden_app = (daemon_app ''web'' True (Stopped None))
     \<lparr>a_params := (a_params (daemon_app ''web'' True (Stopped None)))
        \<lparr>ap_restart := restart_policy_default\<lparr>on_error := ExponentialBackoff 100 1000 PInf\<rparr>\<rparr>\<rparr>"

lemma nonfinite_multiplier_hides_config_witness:
  "\<exists>e. run_client_command (json_codec sample_json) \<lparr>nd_getpwuid = (\<lambda>_. None), nd_getgrgid = (\<lambda>_. None)\<rparr> (\<lambda>_. Ok '''')
      (\<lambda>_. daemon_dial sound_env (json_codec sample_json) (connection_new sample_log_sock (\<lambda>_. 0)) [hidden_app] daemon_ctx)
      (CmdConfig ''web'') ''lway.sock'' ''logs.sock'' = cli_fail (json_codec sample_json) (IpcJson e)"
proof -
  have C: "ctx_ok sound_env daemon_ctx" by (rule apps_inv_ok [OF sample_daemon_apps])
  have "log_inv hidden_app []"
    by (simp add: log_inv_def hidden_app_def daemon_app_def ring_holds_def ring_map_ok_def app_pending_def usize_bound_def
        app_runtime_stats_default_def)
  with C have "app_inv sound_env hidden_app daemon_ctx"
    by (intro app_invI) (simp_all add: app_owns_stopped is_running_def hidden_app_def daemon_app_def restart_sound_def)
  with C have inv: "apps_inv sound_env [hidden_app] daemon_ctx" by simp
  note w = worldD [OF sound_world]
  have fits: "snapshot_fits (app_config_snapshot hidden_app)"
    by (simp add: snapshot_fits_def app_config_snapshot_def hidden_app_def daemon_app_def Let_def policy_fits_def delay_fits_def
        restart_policy_default_def restart_delay_default_def default_constant_delay_ms_def cgroup_fits_def)
  have p: "no_backoff (on_success (ap_restart (a_params hidden_app)))" "on_error (ap_restart (a_params hidden_app)) = ExponentialBackoff 100 1000 PInf"
    by (simp_all add: hidden_app_def no_backoff_def restart_policy_default_def restart_delay_default_def)
  have n: "a_name ([hidden_app] ! 0) = ''web''" by (simp add: hidden_app_def daemon_app_def)
  show ?thesis
    using nonfinite_multiplier_hides_config [OF w(1,2) sample_json_laws inv _ _ _ n, of "connection_new sample_log_sock (\<lambda>_. 0)"
        "\<lambda>_. daemon_dial sound_env (json_codec sample_json) (connection_new sample_log_sock (\<lambda>_. 0)) [hidden_app] daemon_ctx" "''lway.sock''"
        100 1000 PInf] fits p
    by (simp add: connection_new_def)
qed


section \<open>Printing the log of an app\<close>

text \<open>
  The log server as the peer of \<open>lway log\<close>: a fresh connection receives the request; the stream
  ends when the server is done with the connection, otherwise the client is left waiting.
\<close>

definition log_dial :: "app list \<Rightarrow> token \<Rightarrow> log_server \<Rightarrow> dial" where
  "log_dial apps tok sv =
     \<lparr>di_connect = True, di_write = (\<lambda>_. Ok ()),
      di_reply = (\<lambda>request.
        case map_of (ls_connections sv) tok of None \<Rightarrow> ([], None)
        | Some conn \<Rightarrow>
            (case log_handle_readable apps tok (set_log_conn tok (receive request conn) sv) of (_, sv') \<Rightarrow>
               (case map_of (ls_connections sv') tok of None \<Rightarrow> ([], None)
                | Some conn' \<Rightarrow> (sk_out (lconn_stream conn'),
                    if lconn_close_after_flush conn' \<and> \<not> lconn_write_blocked conn' then None else Some WouldBlock))))\<rparr>"

lemma send_loop_room:
  "send_loop read cursor s = (r, cursor', s') \<Longrightarrow>
     sk_room s' + length (sk_out s') = sk_room s + length (sk_out s) \<and> sk_write_error s' = sk_write_error s"
proof (induction read cursor s rule: send_loop.induct)
  case (1 read cursor s)
  show ?case
  proof (cases "read cursor")
    case None
    with 1(2) show ?thesis by (simp add: send_loop.simps)
  next
    case (Some chunk)
    show ?thesis
    proof (cases "lc_buffer chunk")
      case None
      with Some 1(2) show ?thesis by (simp add: send_loop.simps [of read cursor s] Let_def)
    next
      case buf: (Some buffer)
      obtain x s1 where W: "sock_write s buffer = (x, s1)" by force
      show ?thesis
      proof (cases x)
        case (Ok n)
        with W have W: "sock_write s buffer = (Ok n, s1)" by simp
        note D = sock_write_OkD [OF W]
        have e: "sk_write_error s1 = sk_write_error s" by (subst D(5)) simp
        have l: "sk_room s1 + length (sk_out s1) = sk_room s + length (sk_out s)" using D(1-3) by simp
        show ?thesis
        proof (cases "n = 0")
          case True
          with 1(2) Some buf W e l show ?thesis by (simp add: send_loop.simps [of read cursor s] Let_def)
        next
          case False
          with 1(2) Some buf W have "send_loop read (usize_add (usize_add cursor (lc_missed chunk)) n) s1 = (r, cursor', s')"
            by (simp add: send_loop.simps [of read cursor s] Let_def)
          from 1(1) [OF Some refl buf W [symmetric] refl False this] e l show ?thesis by simp
        qed
      next
        case (Err e)
        with W have "s1 = s" by (simp add: sock_write_ErrD)
        with Err 1(2) Some buf W show ?thesis by (simp add: send_loop.simps [of read cursor s] Let_def split: if_splits)
      next
        case (Panic m)
        with W sock_write_no_panic show ?thesis by blast
      qed
    qed
  qed
qed

text \<open>A reader with room for everything gets everything, and is then done.\<close>

lemma send_all:
  assumes holds: "ring_holds cb hist" and room: "length hist - start_pos cb \<le> sk_room s" and calm: "sk_write_error s = (\<lambda>_. None)"
    and run: "send_loop (read_from_cursor cb) 0 s = (r, cursor', s')"
  shows "r = Ok False \<and> cursor' = length hist \<and> sk_out s' = sk_out s @ drop (start_pos cb) hist"
proof -
  note S = circ.send_loop_spec [OF holds _ ring_holdsD(6) [OF holds] run]
  note R = send_loop_room [OF run]
  from S have le: "start_pos cb \<le> cursor'" "cursor' \<le> length hist" and out: "sk_out s' = sk_out s @ seg (start_pos cb) cursor' hist"
    and x: "r = Ok False \<and> cursor' = length hist \<or> r = Ok True \<and> cursor' < length hist \<and> sk_room s' = 0"
    using R calm by auto
  have "length (seg (start_pos cb) cursor' hist) = cursor' - start_pos cb" using le by simp
  with R out have "sk_room s' + (cursor' - start_pos cb) = sk_room s" by simp
  with x room le have "r = Ok False \<and> cursor' = length hist" by auto
  with out show ?thesis by (simp add: seg_to_end)
qed

lemma log_client_prints:
  assumes "list_apps J net sock = Ok infos" and "name \<in> set (map ai_name infos)" and "net log_sock = log_dial apps tok sv"
    and "map_of (ls_connections sv) tok = Some (log_conn_new stream)"
    and "find_app name apps = Some app" and "ring_holds (a_log app) hist"
    and "name \<noteq> ''''" and "length name \<le> 255" and "valid_utf8 (as_bytes name)"
    and "sk_in stream = [] \<and> sk_out stream = [] \<and> sk_read_error stream = None \<and> \<not> sk_peer_closed stream"
    and "length hist - start_pos (a_log app) \<le> sk_room stream" and "sk_write_error stream = (\<lambda>_. None)"
  shows "run_client_command J db to_yaml net (CmdLog name False) sock log_sock =
     \<lparr>cr_out = drop (start_pos (a_log app)) hist, cr_err = '''', cr_status = 0\<rparr>"
proof -
  let ?q = "log_request name False" and ?conn = "receive (log_request name False) (log_conn_new stream)"
  have parsed: "parse_log_request ?q = Some (False, name, [])"
    using log_request_parsed [of name False "[]"] assms(8,9) by simp
  obtain r cursor s' where L: "send_loop (read_from_cursor (a_log app)) 0 (stream\<lparr>sk_in := []\<rparr>) = (r, cursor, s')"
    by (rule prod_cases3)
  from send_all [OF assms(6) _ _ L] assms(10-12) have r: "r = Ok False" "cursor = length hist"
    and out: "sk_out s' = drop (start_pos (a_log app)) hist" by simp_all
  have w: "log_write_pos app = length hist" using ring_holdsD(5) [OF assms(6)] by (simp add: log_write_pos_def filling_def)
  have s: "stream\<lparr>sk_in := ?q, sk_in := []\<rparr> = stream\<lparr>sk_in := []\<rparr>" by simp
  have read: "read_all (lconn_stream ?conn) [] = (Ok False, ?q, stream\<lparr>sk_in := []\<rparr>)"
    using assms(10) by (simp add: receive_def log_conn_new_def read_all_eq read_end_def)
  define conn1 where "conn1 = (log_conn_new (stream\<lparr>sk_in := []\<rparr>))\<lparr>lconn_state := Streaming
      \<lparr>sub_name = name, sub_follow = False, sub_cursor = 0, sub_dump_until = Some (length hist)\<rparr>\<rparr>"
  define conn2 where "conn2 = conn1\<lparr>lconn_stream := s', lconn_state := Streaming
      \<lparr>sub_name = name, sub_follow = False, sub_cursor = length hist, sub_dump_until = Some (length hist)\<rparr>, lconn_close_after_flush := True\<rparr>"
  have T: "log_try_send apps tok (set_log_conn tok conn1 sv) = (Ok (), set_log_conn tok conn2 sv)"
    using L r assms(5) by (simp add: log_try_send_def conn1_def conn2_def log_conn_new_def log_bytes_from_cursor_eq past_bound_def Let_def)
  have "lconn_read_buf ?conn = []" "lconn_state ?conn = AwaitingRequest" "\<not> lconn_close_after_flush ?conn"
    by (simp_all add: receive_def log_conn_new_def)
  then have H: "log_handle_readable apps tok (set_log_conn tok ?conn sv) = log_try_send apps tok (set_log_conn tok conn1 sv)"
    using read assms(5,7)
    by (simp add: log_handle_readable_def parsed w Let_def) (simp add: conn1_def receive_def log_conn_new_def)
  have "lconn_stream conn2 = s'" "lconn_close_after_flush conn2" "\<not> lconn_write_blocked conn2"
    by (simp_all add: conn2_def conn1_def log_conn_new_def)
  with H T out have "di_reply (net log_sock) ?q = (drop (start_pos (a_log app)) hist, None)"
    by (simp add: assms(3,4) log_dial_def)
  moreover have "di_connect (net log_sock)" "di_write (net log_sock) ?q = Ok ()" by (simp_all add: assms(3) log_dial_def)
  ultimately have "logs_run net log_sock name False = (drop (start_pos (a_log app)) hist, Ok ())"
    by (simp add: logs_run_def)
  moreover have "list_ex (\<lambda>a. ai_name a = name) infos" using assms(2) by (auto simp: list_ex_iff)
  ultimately show ?thesis
    by (simp add: run_client_command_def run_log_client_def assms(1) cli_ok_def println_def as_bytes_def)
qed


text \<open>A daemon that lists one app, which has written four bytes.\<close>

definition list_codec :: codec where
  "list_codec = sample_codec\<lparr>cd_parse_response := \<lambda>_. Ok (RespAppList [app_info_of sample_down
     (stats 0 (env_usage sound_env 0) sample_down)])\<rparr>"

definition sample_net :: "string \<Rightarrow> dial" where
  "sample_net path =
     (if path = ''lway.sock'' then \<lparr>di_connect = True, di_write = (\<lambda>_. Ok ()), di_reply = (\<lambda>_. (as_bytes ''A'' @ [newline], None))\<rparr>
      else log_dial [sample_down] (Token 3)
        \<lparr>ls_connections = [(Token 3, log_conn_new (sample_log_sock\<lparr>sk_room := 4\<rparr>))], ls_max_connections = 2\<rparr>)"

lemma sample_list:
  assumes "net ''lway.sock'' = sample_net ''lway.sock''"
  shows "list_apps list_codec net ''lway.sock'' = Ok [app_info_of sample_down (stats 0 (env_usage sound_env 0) sample_down)]"
proof -
  have o: "one_line ''A''" by (rule letters_one_line) (simp_all add: is_letter_def)
  note M = message_line [OF o]
  have "read_line (as_bytes ''A'' @ [newline], None) = Ok (of_bytes (as_bytes ''A'' @ [newline]))"
    using take_line_message [OF o, of "[]"] M(1) by (simp add: read_line_def)
  then show ?thesis
    using M(3) assms by (simp add: list_apps_def send_request_def sample_net_def list_codec_def sample_codec_def Let_def del: as_bytes_append)
qed


section \<open>From the process to the terminal\<close>

lemma dispatch_owned:
  assumes inv: "daemon_inv E d c" and i: "i < length (dm_apps d)" "pe_token ev \<in> set (app_tokens (dm_apps d ! i))"
    and P: "app_poll E (pe_token ev) (pe_io ev) (\<not> dm_stopping d) (dm_apps d ! i) c = (r, a', c')"
  shows "dispatch_event E J ev d c = (panic_of r, d\<lparr>dm_apps := (dm_apps d)[i := a']\<rparr>, c')"
proof -
  have t: "pe_token ev \<in> apps_tokens (dm_apps d)" using i unfolding apps_tokens_def using nth_mem by blast
  then have "pe_token ev \<in> set (owned d)" unfolding owned_def set_append set_concat_tokens by blast
  note res = owned_not_reserved [OF inv this]
  from inv t have "pe_token ev \<notin> set (server_keys (dm_ipc d))" "pe_token ev \<notin> set (log_keys (dm_log d))"
    unfolding daemon_inv_def by blast+
  then have "\<not> is_known (dm_ipc d) (pe_token ev)" "\<not> log_is_known (dm_log d) (pe_token ev)"
    by (simp_all add: is_known_keys log_is_known_def log_keys_def map_of_eq_None_iff)
  with res have "dispatch_event E J ev d c = on_apps (app_poll E (pe_token ev) (pe_io ev) (\<not> dm_stopping d)) d c"
    by (simp add: dispatch_event_def)
  with for_apps_owner [OF apps_inv_distinct [OF daemon_invD(1) [OF inv]] i P] show ?thesis by (simp add: on_apps_def)
qed

lemma find_app_updated:
  assumes "i < length apps" and "\<forall>j < i. a_name (apps ! j) \<noteq> name" and "a_name a' = name"
  shows "find_app name (apps[i := a']) = Some a'"
  using assms
proof (induction apps arbitrary: i)
  case (Cons a apps)
  show ?case
  proof (cases i)
    case (Suc k)
    have "a_name a \<noteq> name" using Cons.prems(2) Suc by auto
    moreover have "\<forall>j < k. a_name (apps ! j) \<noteq> name" using Cons.prems(2) Suc by fastforce
    ultimately show ?thesis using Cons.IH [of k] Cons.prems(1,3) Suc by (simp add: find_app_def)
  qed (use Cons.prems(3) in \<open>simp add: find_app_def\<close>)
qed simp


text \<open>A daemon one of whose apps has written three bytes, and a client of it.\<close>

definition writing_daemon :: daemon where
  "writing_daemon = sample_daemon\<lparr>dm_apps :=
     [daemon_app ''web'' True (Running (daemon_rt\<lparr>rt_stdout := quiet_pipe\<lparr>pipe_data := [104, 105, 10]\<rparr>\<rparr>)),
      daemon_app ''job'' False (Stopped None)]\<rparr>"

definition client_net :: "daemon \<Rightarrow> string \<Rightarrow> dial" where
  "client_net d path =
     (if path = ''lway.sock'' then sample_net path
      else log_dial (dm_apps d) (Token 3)
        \<lparr>ls_connections = [(Token 3, log_conn_new (sample_log_sock\<lparr>sk_room := 8\<rparr>))], ls_max_connections = 2\<rparr>)"

lemma writing_daemon_reach: "daemon_reach sound_env sample_codec False (writing_daemon, daemon_ctx)"
proof (rule reach_outside [OF sample_daemon_reach])
  have "log_room (daemon_app ''web'' True (Running (daemon_rt\<lparr>rt_stdout := quiet_pipe\<lparr>pipe_data := [104, 105, 10]\<rparr>\<rparr>)))"
    by (simp add: log_room_def app_pending_def daemon_app_def daemon_rt_def quiet_pipe_def usize_bound_def)
  then show "outside sample_daemon writing_daemon"
    by (auto simp: outside_def sample_daemon_def writing_daemon_def app_outside_def daemon_app_def daemon_rt_def server_new_def log_server_new_def)
qed


end
