(* ===== verification/Configured.thy ===== *)
theory Configured
  imports Entry_Correct
begin

text \<open>
  From the configuration to the programs that run: no operation of the daemon changes the
  parameters of an app, so whatever it has gone through, it is (re)started as it was configured.
\<close>

section \<open>Operations keep the parameters\<close>

locale param_operation =
  fixes f :: "app \<Rightarrow> 's ctx \<Rightarrow> ('e, 'r) outcome \<times> app \<times> 's ctx"
  assumes op_params: "f a c = (r, a', c') \<Longrightarrow> a_params a' = a_params a"
begin

lemma with_app_params: "with_app name f apps c = (r, apps', c') \<Longrightarrow> map a_params apps' = map a_params apps"
  by (induction apps arbitrary: r apps' c') (auto split: if_splits prod.splits dest: op_params)

lemma for_apps_params: "for_apps f apps c = (r, apps', c') \<Longrightarrow> map a_params apps' = map a_params apps"
proof (induction apps arbitrary: c r apps' c')
  case (Cons a apps)
  obtain x a1 c1 where F: "f a c = (x, a1, c1)" by (rule prod_cases3)
  with Cons op_params [OF F] show ?case by (auto split: outcome.splits prod.splits)
qed simp

lemma on_apps_params: "on_apps f d c = (r, d', c') \<Longrightarrow> map a_params (dm_apps d') = map a_params (dm_apps d)"
  by (auto simp: on_apps_def split: prod.splits dest: for_apps_params)

end

lemma poll_stdio_params: "poll_stdio token event rt a c = (r, a', c') \<Longrightarrow> a_params a' = a_params a"
  by (auto simp: poll_stdio_def Let_def split: option.splits if_splits prod.splits stdio.splits)

lemma poll_exit_params: "poll_exit E tr now rs rt a c = (r, a', c') \<Longrightarrow> a_params a' = a_params a"
  by (auto simp: poll_exit_def Let_def schedule_restart_eq split: option.splits if_splits prod.splits outcome.splits)

interpretation start_params: param_operation "app_start E" for E :: "'s env"
  by unfold_locales (auto simp: app_start_def split: app_state.splits prod.splits outcome.splits)

interpretation stop_params: param_operation "app_stop E force" for E :: "'s env" and force
  by unfold_locales (erule app_stop_cases, auto)

interpretation restart_params: param_operation "maybe_restart E now allow" for E :: "'s env" and now allow
  by unfold_locales (auto simp: maybe_restart_def split: app_state.splits option.splits if_splits prod.splits outcome.splits)

interpretation poll_params: param_operation "app_poll E token event tr" for E :: "'s env" and token event tr
  by unfold_locales (auto simp: app_poll_def Let_def split: app_state.splits prod.splits outcome.splits option.splits if_splits
      dest!: poll_stdio_params poll_exit_params)

section \<open>So does the daemon\<close>

lemma start_all_params: "start_all E J apps c = (r, apps', c') \<Longrightarrow> map a_params apps' = map a_params apps"
proof (induction apps arbitrary: c r apps' c')
  case (Cons a apps)
  obtain x a1 c1 where F: "app_start E a c = (x, a1, c1)" by (rule prod_cases3)
  obtain y as c2 where R: "start_all E J apps c1 = (y, as, c2)" by (rule prod_cases3)
  from Cons.IH [OF R] start_params.op_params [OF F] Cons.prems F R show ?case by (auto split: outcome.splits)
qed simp

lemma stop_all_params: "stop_all E J force apps c = (r, apps', c') \<Longrightarrow> map a_params apps' = map a_params apps"
proof (induction apps arbitrary: c r apps' c')
  case (Cons a apps)
  obtain x a1 c1 where F: "app_stop E force a c = (x, a1, c1)" by (rule prod_cases3)
  obtain y as c2 where R: "stop_all E J force apps c1 = (y, as, c2)" by (rule prod_cases3)
  from Cons.IH [OF R] stop_params.op_params [OF F] Cons.prems F R show ?case by (auto split: outcome.splits)
qed simp

lemma with_app_look:
  assumes "with_app name f apps c = (r, apps', c')" and "\<And>a c x a' c'. f a c = (x, a', c') \<Longrightarrow> a' = a"
  shows "apps' = apps"
  using assms by (induction apps arbitrary: r apps' c') (auto split: if_splits prod.splits)

lemma answer_params: "answer E J t apps c = (r, apps', c') \<Longrightarrow> map a_params apps' = map a_params apps"
proof (cases "cd_parse_request J t")
  case (Ok q)
  assume "answer E J t apps c = (r, apps', c')"
  with Ok have "dispatch_request E J q apps c = (r, apps', c')" by (simp add: answer_def)
  then show ?thesis
    by (cases q) (auto simp: dispatch_request_def dest!: start_params.with_app_params stop_params.with_app_params
        start_all_params stop_all_params with_app_look split: prod.splits option.splits outcome.splits
        intro: info_of_reads [THEN conjunct1])
qed (auto simp: answer_def)

lemma process_lines_params:
  "process_lines E J conn apps c = (r, conn', apps', c') \<Longrightarrow> map a_params apps' = map a_params apps"
proof (induction "length (cn_read_buf conn)" arbitrary: conn apps c rule: less_induct)
  case less
  show ?case
  proof (cases "take_line (cn_read_buf conn)")
    case None
    with less.prems show ?thesis by (simp add: process_lines.simps)
  next
    case (Some lr)
    obtain line rest where lr: "lr = (line, rest)" by force
    let ?conn = "conn\<lparr>cn_read_buf := rest\<rparr>" and ?t = "trim (from_utf8_lossy line)"
    from Some lr have short: "length rest < length (cn_read_buf conn)" by (simp add: take_line_shorter)
    obtain x as c1 where A: "answer E J ?t apps c = (x, as, c1)" by (rule prod_cases3)
    note P = less.prems [unfolded process_lines.simps [of E J conn]]
    show ?thesis
    proof (cases "?t = ''''")
      case True
      with P Some lr have "process_lines E J ?conn apps c = (r, conn', apps', c')" by simp
      with less.hyps [of ?conn] short show ?thesis by simp
    next
      case False
      show ?thesis
      proof (cases "\<exists>resp conn1. x = Ok resp \<and> queue_response J resp ?conn = Ok conn1")
        case True
        then obtain resp conn1 where x: "x = Ok resp" "queue_response J resp ?conn = Ok conn1" by blast
        then have "cn_read_buf conn1 = rest" by (auto simp: queue_response_def split: outcome.splits)
        moreover from P Some lr False A x have "process_lines E J (conn1\<lparr>cn_close_after_flush := True\<rparr>) as c1 = (r, conn', apps', c')" by simp
        ultimately show ?thesis using less.hyps [of "conn1\<lparr>cn_close_after_flush := True\<rparr>"] short answer_params [OF A] by simp
      next
        case F: False
        with P Some lr False A have "apps' = as" by (auto simp: Let_def split: outcome.splits)
        with answer_params [OF A] show ?thesis by simp
      qed
    qed
  qed
qed

lemma handle_readable_params: "handle_readable E J tok apps sv c = (r, apps', sv', c') \<Longrightarrow> map a_params apps' = map a_params apps"
  by (auto simp: handle_readable_def split: option.splits prod.splits outcome.splits dest!: process_lines_params)

lemma control_event_params: "control_event E J ev d c = (r, d', c') \<Longrightarrow> map a_params (dm_apps d') = map a_params (dm_apps d)"
  by (auto simp: control_event_def control_read_def control_write_def close_control_def reconcile_control_def
      split: prod.splits outcome.splits if_splits dest!: handle_readable_params)

lemma log_event_apps: "log_event E ev d c = (r, d', c') \<Longrightarrow> dm_apps d' = dm_apps d"
  by (auto simp: log_event_def log_read_def log_write_def close_log_def reconcile_log_def split: prod.splits outcome.splits if_splits)

lemma dispatch_event_params: "dispatch_event E J ev d c = (r, d', c') \<Longrightarrow> map a_params (dm_apps d') = map a_params (dm_apps d)"
  by (auto simp: dispatch_event_def split: if_splits prod.splits
      dest: control_event_params log_event_apps poll_params.on_apps_params)

lemma dispatch_events_params: "dispatch_events E J evs d c = (r, d', c') \<Longrightarrow> map a_params (dm_apps d') = map a_params (dm_apps d)"
proof (induction evs arbitrary: d c)
  case (Cons ev evs)
  obtain x d1 c1 where D: "dispatch_event E J ev d c = (x, d1, c1)" by (rule prod_cases3)
  with Cons dispatch_event_params [OF D] show ?case by (cases x) auto
qed simp

lemma loop_iteration_params:
  assumes run: "loop_iteration E J keep evs d c = (r, d', c')"
  shows "map a_params (dm_apps d') = map a_params (dm_apps d)"
proof -
  obtain x1 d1 c1 where 1: "dispatch_events E J evs d c = (x1, d1, c1)" by (rule prod_cases3)
  obtain x2 d2 c2 where 2: "push_logs E d1 c1 = (x2, d2, c2)" by (rule prod_cases3)
  obtain x3 d3 c3 where 3: "fire_restarts E d2 c2 = (x3, d3, c3)" by (rule prod_cases3)
  obtain x4 d4 c4 where 4: "forward_sigint E d3 c3 = (x4, d4, c4)" by (rule prod_cases3)
  have p: "map a_params (dm_apps d1) = map a_params (dm_apps d)" "dm_apps d2 = dm_apps d1"
    "map a_params (dm_apps d3) = map a_params (dm_apps d2)" "map a_params (dm_apps d4) = map a_params (dm_apps d3)"
    using dispatch_events_params [OF 1] 2 restart_params.on_apps_params [OF 3 [unfolded fire_restarts_def]] 4
    by (auto simp: push_logs_def forward_sigint_def split: prod.splits if_splits dest: stop_params.on_apps_params)
  from run 1 2 3 4 have "d' \<in> {d1, d2, d3, d4}" by (auto simp: loop_iteration_def split: option.splits)
  with p show ?thesis by auto
qed

lemma outside_params: "outside d d' \<Longrightarrow> map a_params (dm_apps d') = map a_params (dm_apps d)"
proof -
  assume "outside d d'"
  then have "list_all2 app_outside (dm_apps d) (dm_apps d')" by (simp add: outside_def)
  then show ?thesis by (induction rule: list_all2_induct) (auto simp: app_outside_def)
qed

lemma daemon_loop_params:
  assumes "\<forall>t \<in> set turns. turn_ok t" and "daemon_loop E J keep turns d c = (r, d', c')"
  shows "map a_params (dm_apps d') = map a_params (dm_apps d)"
  using assms
proof (induction turns arbitrary: d c)
  case (Cons t turns)
  obtain out evs where t: "t = (out, evs)" by force
  with Cons.prems(1) have o: "map a_params (dm_apps (out d)) = map a_params (dm_apps d)"
    by (auto simp: turn_ok_def intro: outside_params)
  obtain x d1 c1 where I: "loop_iteration E J keep evs (out d) c = (x, d1, c1)" by (rule prod_cases3)
  from loop_iteration_params [OF I] o Cons.prems I t Cons.IH [of d1 c1] show ?case
    by (auto split: outcome.splits if_splits)
qed simp

section \<open>What is executed\<close>

lemma create_apps_params:
  assumes "create_apps E H default_size echo cfgs c = (Ok apps, c')"
  shows "list_all2 (\<lambda>cfg a. app_params_of H (env_page_size E) default_size cfg = Ok (a_params a)) cfgs apps"
  using assms
proof (induction cfgs arbitrary: c apps)
  case (Cons cfg cfgs)
  from Cons.prems obtain params a c1 as where p: "app_params_of H (env_page_size E) default_size cfg = Ok params"
    and a: "app_create E params echo c = (Ok a, c1)" and rest: "create_apps E H default_size echo cfgs c1 = (Ok as, c')"
    and apps: "apps = a # as"
    by (auto simp: bindM_Ok run_simps expect_run dest: sym)
  from a have "a_params a = params" by (auto simp: app_create_def bindM_Ok)
  with p Cons.IH [OF rest] show ?case by (simp add: apps)
qed (simp add: run_simps)

lemma daemon_start_params:
  assumes "daemon_start K E H F cfg cli files = (Ok d, c, files')"
  shows "list_all2 (\<lambda>entry a. app_params_of H (env_page_size E) (gc_log_buffer_size cfg) entry = Ok (a_params a))
    (all_apps F cfg (config_path cli)) (dm_apps d)"
  using daemon_start_Ok [OF assms] by (auto simp: daemon_init_def bindM_Ok run_simps dest!: create_apps_params)

lemma app_params_of_Ok:
  assumes "app_params_of H page_size default_size entry = Ok P"
  shows "ap_args P = str_split CHR '' '' (cf_command entry)" and "ap_prog P = hd (ap_args P)"
    and "ap_env P = (case cf_env entry of Some m \<Rightarrow> map (\<lambda>(k, v). k @ ''='' @ v) m | None \<Rightarrow> [])"
    and "ap_uid P = unwrap_or (resolved_uid (ho_getpwnam H) entry) (ho_uid H)"
    and "ap_gid P = unwrap_or (resolved_gid (ho_getgrnam H) entry) (ho_gid H)"
    and "cf_workdir entry = Some (ap_cwd P) \<or> cf_workdir entry = None \<and> get_current_cwd (ho_getcwd H) = Ok (ap_cwd P)"
  using assms by (auto simp: app_params_of_def Let_def split: outcome.splits option.splits)

text \<open>
  C10. Only configured programs run, as the configured user: whatever the daemon has been through
  (requests, exits, restarts, in any order), when the child of an app gets to execute a program,
  that is the first word of the configured command, with the words of the command as arguments and
  the configured environment, in the configured directory (or that of the daemon), and the child
  has by then connected its output, left the session, and taken on first the configured group and
  then the configured user (or those of the daemon).
\<close>

theorem configured_programs:
  assumes "daemon_start K E H F cfg cli files = (Ok d0, c0, files')" and "\<forall>t \<in> set turns. turn_ok t"
    and "daemon_loop E J keep turns d0 c0 = (r, d, c)" and "i < length (dm_apps d)"
    and "entry = all_apps F cfg (config_path cli) ! i"
    and "Execve p args env \<in> set (fst (setup_child fails (a_params (dm_apps d ! i))))"
  shows "args = str_split CHR '' '' (cf_command entry) \<and> p = hd args
    \<and> env = (case cf_env entry of Some m \<Rightarrow> map (\<lambda>(k, v). k @ ''='' @ v) m | None \<Rightarrow> [])
    \<and> (\<exists>cwd. (cf_workdir entry = Some cwd \<or> cf_workdir entry = None \<and> get_current_cwd (ho_getcwd H) = Ok cwd)
        \<and> fst (setup_child fails (a_params (dm_apps d ! i))) =
            [CloseReadEnd False, Dup2 False, CloseReadEnd True, Dup2 True, Setsid,
             Setgid (unwrap_or (resolved_gid (ho_getgrnam H) entry) (ho_gid H)),
             Setuid (unwrap_or (resolved_uid (ho_getpwnam H) entry) (ho_uid H)), Chdir cwd, Execve p args env])"
proof -
  let ?P = "a_params (dm_apps d ! i)"
  from daemon_loop_params [OF assms(2,3)] have m: "map a_params (dm_apps d) = map a_params (dm_apps d0)" .
  then have "length (dm_apps d) = length (dm_apps d0)" by (metis length_map)
  with assms(4) have i: "i < length (dm_apps d0)" by simp
  from m i assms(4) have P: "?P = a_params (dm_apps d0 ! i)" by (metis nth_map)
  note A = list_all2_nthD2 [OF daemon_start_params [OF assms(1)] i]
  from A P assms(5) have "app_params_of H (env_page_size E) (gc_log_buffer_size cfg) entry = Ok ?P" by simp
  note Q = app_params_of_Ok [OF this]
  from setup_child_exec [OF assms(6)] have S: "fst (setup_child fails ?P) = child_plan ?P @ [Execve (ap_prog ?P) (ap_args ?P) (ap_env ?P)]" by blast
  with assms(6) have "p = ap_prog ?P" "args = ap_args ?P" "env = ap_env ?P" by (auto simp: child_plan_def)
  with S Q show ?thesis by (auto simp: child_plan_def)
qed

lemma configured_programs_witness:
  "\<exists>d c. daemon_loop sound_env sample_codec False [(id, [])] (sample_daemon\<lparr>dm_apps := [daemon_app ''web'' False (Stopped None)]\<rparr>)
      (one_app_ctx False) = (Some (Ok ()), d, c)
    \<and> fst (setup_child (\<lambda>_. False) (a_params (dm_apps d ! 0))) =
        [CloseReadEnd False, Dup2 False, CloseReadEnd True, Dup2 True, Setsid, Setgid 0, Setuid 33, Chdir ''/srv'',
         Execve ''/bin/run'' [''/bin/run'', ''-v''] []]"
proof -
  let ?d = "sample_daemon\<lparr>dm_apps := [daemon_app ''web'' False (Stopped None)]\<rparr>"
  obtain c where "loop_iteration sound_env sample_codec False [] ?d (one_app_ctx False) = (Ok True, ?d, c)"
    using one_app_turn by blast
  then have L: "daemon_loop sound_env sample_codec False [(id, [])] ?d (one_app_ctx False) = (Some (Ok ()), ?d, c)" by simp
  have I: "daemon_init sound_env sample_host (config_fs (one_app False)) (one_app False) (config_path sample_cli) (cli_echo_logs sample_cli)
      = (Ok ?d, one_app_ctx False)"
    using one_app_init [of False] by (simp add: sample_cli_def)
  have S: "daemon_start sample_os sound_env sample_host (config_fs (one_app False)) (one_app False) sample_cli []
      = (Ok ?d, one_app_ctx False, [''logs.sock'', ''lway.sock''])"
    using daemon_init_servers [OF I]
    by (simp add: daemon_start_def I server_bind_def log_server_bind_def bind_socket_def remove_file_def listen_def)
  have cfg: "all_apps (config_fs (one_app False)) (one_app False) (config_path sample_cli) ! 0 = sample_config_of ''web'' False"
    by (simp add: all_apps_def scan_apps_dir_def config_fs_def sample_fs_def one_app_def sample_global_def)
  have T: "\<forall>t \<in> set [(id, [])]. turn_ok t" using idle_turn by simp
  have X: "Execve ''/bin/run'' [''/bin/run'', ''-v''] [] \<in> set (fst (setup_child (\<lambda>_. False) (a_params (dm_apps ?d ! 0))))"
    by (simp add: setup_child_def set_current_cwd_def check_cstrings_def daemon_app_def has_nul_def)
  have i: "0 < length (dm_apps ?d)" by simp
  from configured_programs [OF S T L i refl X] cfg L show ?thesis
    by (intro exI [of _ ?d] exI [of _ c]) (auto simp: sample_config_of_def resolved_uid_def resolved_gid_def resolve_id_def sample_host_def)
qed

end
