(* ===== verification/LogBuffer_Correct.thy ===== *)
theory LogBuffer_Correct
  imports LogBuffer
begin

text \<open>
  The circular log buffer as a refinement of the unbounded log: a sequence of splices into a new
  ring, and reads from any cursor.
\<close>

text \<open>Successive splices from any pipes; an error leaves the ring alone and the next one follows.\<close>

fun splice_each :: "circ_buffer \<Rightarrow> (pipe \<times> nat) list \<Rightarrow> bytes \<times> circ_buffer" where
  "splice_each cb [] = ([], cb)"
| "splice_each cb ((p, len) # ps) =
     (case splice_from cb p len of
        (Ok n, p', cb1) \<Rightarrow> (case splice_each cb1 ps of (moved, cb2) \<Rightarrow> (take n (pipe_data p) @ moved, cb2))
      | (_, p', cb1) \<Rightarrow> splice_each cb1 ps)"

text \<open>Two reads in a row, the second at the cursor the first one leaves.\<close>

definition read_on :: "circ_buffer \<Rightarrow> nat \<Rightarrow> (bytes \<times> nat) option" where
  "read_on cb from =
     map_option (\<lambda>c. (case lc_buffer c of None \<Rightarrow> [] | Some bs \<Rightarrow> bs,
                      from + lc_missed c + (case lc_buffer c of None \<Rightarrow> 0 | Some bs \<Rightarrow> length bs)))
       (read_from_cursor cb from)"

definition read_twice :: "circ_buffer \<Rightarrow> nat \<Rightarrow> bytes option" where
  "read_twice cb from =
     (case read_on cb from of None \<Rightarrow> None
      | Some (bs, from') \<Rightarrow> map_option (\<lambda>(bs', _). bs @ bs') (read_on cb from'))"

lemma splice_from_cases:
  assumes "ring_holds cb log" and "length log + length (pipe_data p) < usize_bound"
  shows "(\<exists>e. splice_from cb p len = (Err e, p, cb))
    \<or> (\<exists>n p' cb'. splice_from cb p len = (Ok n, p', cb') \<and> n \<le> length (pipe_data p)
         \<and> ring_holds cb' (log @ take n (pipe_data p)) \<and> cb_capacity cb' = cb_capacity cb)"
proof (cases "splice p (min len (cb_capacity cb - length log mod cb_capacity cb))")
  case (Pair r p')
  show ?thesis
  proof (cases r)
    case (Err e)
    with Pair splice_from_and_view_Err [OF assms(1), of p len e p'] show ?thesis
      by (simp add: splice_from_def)
  next
    case (Panic m)
    with Pair splice_no_panic show ?thesis by blast
  next
    case (Ok bs)
    with Pair have sp: "splice p (min len (cb_capacity cb - length log mod cb_capacity cb)) = (Ok bs, p')" by simp
    from splice_OkD(1) [OF sp] have pd: "pipe_data p = bs @ pipe_data p'" .
    with assms(2) have "length log + length bs < usize_bound" by simp
    from splice_from_and_view_Ok [OF assms(1) sp this] show ?thesis
      by (cases "bs = []") (fastforce simp: splice_from_def pd)+
  qed
qed

lemma splice_each_holds:
  assumes "ring_holds cb log" and "length log + sum_list (map (\<lambda>(p, len). length (pipe_data p)) ps) < usize_bound"
    and "splice_each cb ps = (moved, cb')"
  shows "ring_holds cb' (log @ moved) \<and> cb_capacity cb' = cb_capacity cb"
  using assms
proof (induction ps arbitrary: cb log moved)
  case (Cons pl ps)
  obtain p len where pl: "pl = (p, len)" by force
  with Cons.prems(2) have room: "length log + length (pipe_data p) < usize_bound" by simp
  from splice_from_cases [OF Cons.prems(1) room, of len] show ?case
  proof (elim disjE exE conjE)
    fix e assume "splice_from cb p len = (Err e, p, cb)"
    with Cons.prems Cons.IH [of cb log moved] show ?thesis by (simp add: pl)
  next
    fix n p' cb1 assume S: "splice_from cb p len = (Ok n, p', cb1)" "n \<le> length (pipe_data p)"
      "ring_holds cb1 (log @ take n (pipe_data p))" "cb_capacity cb1 = cb_capacity cb"
    obtain moved1 where "splice_each cb1 ps = (moved1, cb')" "moved = take n (pipe_data p) @ moved1"
      using Cons.prems(3) S(1) by (auto simp: pl split: prod.splits)
    with Cons.IH [OF S(3) _ this(1)] S(2,4) Cons.prems(2) show ?thesis by (simp add: pl)
  qed
qed simp

lemma next_multiple: "0 < c \<Longrightarrow> (f + (c - f mod c)) mod c = (0::nat)"
proof -
  assume c: "0 < c"
  have "f + (c - f mod c) = f div c * c + c"
    using div_mult_mod_eq [of f c] mod_less_divisor [OF c, of f] by linarith
  then show ?thesis by simp
qed

lemma read_on_spec:
  assumes holds: "ring_holds cb log" and le: "from \<le> length log"
    and from': "from' = max from (length log - cb_capacity cb)"
    and stop: "stop = min (length log) (from' + (cb_capacity cb - from' mod cb_capacity cb))"
  shows "read_on cb from = Some (seg from' stop log, stop)"
proof -
  have f: "from \<le> from'" "from' \<le> length log" using le by (simp_all add: from')
  have R: "read_from_cursor cb from = Some \<lparr>lc_buffer = (if from' = length log then None else Some (seg from' stop log)), lc_missed = from' - from\<rparr>"
    using read_from_cursor_spec [OF holds le] by (simp only: from' stop)
  show ?thesis
  proof (cases "from' = length log")
    case True
    with R f stop show ?thesis by (simp add: read_on_def)
  next
    case False
    have "from' \<le> stop" "stop \<le> length log" using f by (simp_all add: stop)
    with False R f show ?thesis by (simp add: read_on_def)
  qed
qed

text \<open>
  C14. The ring is the unbounded log, cut off at the front: whatever is spliced into a new ring,
  from any pipes in any portions (however often it wraps), two reads in a row at any cursor return
  exactly what was ever spliced from that cursor on, less what no longer fits: the bytes retained
  are always the last \<open>cap\<close> ones, in order, and none is missed or repeated.
\<close>

theorem ring_refines_history:
  assumes "0 < cap" and "cap < usize_bound" and "new_sealed rs name cap = Ok memfd"
    and "new_from_memfd_buffer page_size r memfd = Ok cb"
    and "sum_list (map (\<lambda>(p, len). length (pipe_data p)) ps) < usize_bound"
    and "splice_each cb ps = (moved, cb')" and "from \<le> length moved"
  shows "filling cb' = length moved \<and> start_pos cb' = length moved - cap
    \<and> read_twice cb' from = Some (drop (max from (start_pos cb')) moved)"
proof -
  note new = new_buffer_holds [OF assms(1-4)]
  from splice_each_holds [OF new(1) _ assms(6)] assms(5) new(2) have holds: "ring_holds cb' moved" and cap: "cb_capacity cb' = cap"
    by simp_all
  define f where "f = max from (length moved - cap)"
  define s where "s = min (length moved) (f + (cap - f mod cap))"
  have f: "f \<le> s" "length moved - cap \<le> s" "s \<le> length moved"
    using assms(7) by (simp_all add: f_def s_def)
  have one: "read_on cb' from = Some (seg f s moved, s)"
    by (rule read_on_spec [OF holds assms(7)]) (simp_all only: cap f_def s_def)
  have "length moved = min (length moved) (s + (cap - s mod cap))"
  proof (cases "s = length moved")
    case False
    then have "s = f + (cap - f mod cap)" by (simp add: s_def min_def split: if_splits)
    with next_multiple [OF assms(1), of f] have "s mod cap = 0" by simp
    with f(2) show ?thesis by simp
  qed simp
  with f(2) have two: "read_on cb' s = Some (seg s (length moved) moved, length moved)"
    by (intro read_on_spec [OF holds f(3)]) (simp_all only: cap max_absorb1)
  have "seg f s moved @ seg s (length moved) moved = drop f moved"
    using seg_append_seg [OF f(1,3), of moved] by (simp only: seg_to_end order_refl)
  with one two have "read_twice cb' from = Some (drop f moved)" by (simp add: read_twice_def)
  then show ?thesis using circ_start_pos [OF holds] circ.wpos_length [OF holds] by (simp add: cap f_def)
qed

lemma ring_refines_history_witness:
  "\<exists>memfd cb moved cb'. new_sealed (\<lambda>_. Ok 3) ''log'' 4 = Ok memfd \<and> new_from_memfd_buffer 4 (\<lambda>_. Ok 0) memfd = Ok cb
    \<and> splice_each cb [(\<lparr>pipe_data = [1, 2, 3], pipe_writers = True, pipe_resp = \<lambda>_. SpliceMoves 100\<rparr>, 9),
         (\<lparr>pipe_data = [4, 5, 6], pipe_writers = True, pipe_resp = \<lambda>_. SpliceMoves 100\<rparr>, 9),
         (\<lparr>pipe_data = [5, 6], pipe_writers = True, pipe_resp = \<lambda>_. SpliceMoves 100\<rparr>, 9)] = (moved, cb')
    \<and> moved = [1, 2, 3, 4, 5, 6] \<and> read_twice cb' 1 = Some [3, 4, 5, 6]"
proof -
  let ?p = "\<lambda>bs. \<lparr>pipe_data = bs, pipe_writers = True, pipe_resp = \<lambda>_. SpliceMoves 100\<rparr>"
  let ?cb = "\<lparr>cb_map = \<lparr>rm_size = 4, rm_file = [0, 0, 0, 0]\<rparr>, cb_capacity = 4, cb_write_pos = 0\<rparr>"
  let ?ps = "[(?p [1, 2, 3], 9), (?p [4, 5, 6], 9), (?p [5, 6], 9)]"
  let ?cb' = "\<lparr>cb_map = \<lparr>rm_size = 4, rm_file = [5, 6, 3, 4]\<rparr>, cb_capacity = 4, cb_write_pos = 6\<rparr>"
  have four: "replicate 4 (0 :: byte) = [0, 0, 0, 0]" by (simp add: numeral_eq_Suc)
  have N: "new_sealed (\<lambda>_. Ok 3) ''log'' 4 = Ok \<lparr>mf_file = [0, 0, 0, 0], mf_capacity = 4\<rparr>"
    "new_from_memfd_buffer 4 (\<lambda>_. Ok 0) \<lparr>mf_file = [0, 0, 0, 0], mf_capacity = 4\<rparr> = Ok ?cb"
    by (simp_all add: new_sealed_def new_from_memfd_buffer_def mmap_ring_buffer_def sys_mmap_def usize_add_def usize_bound_def four)
  have S: "splice_each ?cb ?ps = ([1, 2, 3, 4, 5, 6], ?cb')"
    by (simp add: splice_from_def splice_from_and_view_def splice_def file_write_def usize_add_def usize_bound_def
        index_range_def get_at_def get_buffer_infos_at_def mapped_byte_def upt_rec transfer_def Let_def usize_sub_def)
  show ?thesis
    using ring_refines_history [OF _ _ N _ S, of 1] N S by (simp add: usize_bound_def)
qed

end
