(* ===== verification/Log_Buffers.thy ===== *)
theory Log_Buffers
  imports LogBuffer
begin

text \<open>
  The other log buffers of \<open>src/src/support/log_buffer.rs\<close>, which no app uses: a plain memfd
  (growing, or sealed at its size), a memory map of one, and \<open>/dev/null\<close>; with the default
  methods of the traits of \<open>src/src/logger.rs\<close>. The locale \<open>log_buffer\<close> is what the traits
  promise their callers of \<open>splice_from\<close>; all of the buffers, the ring included, keep it.
\<close>

section \<open>A file at a position\<close>

text \<open>
  An open file, as splices see it: its bytes, its position, and the size it is sealed at
  (\<open>F_SEAL_GROW\<close>, \<open>F_SEAL_SHRINK\<close>), if it is. Writing at an offset beyond a sealed size is
  refused with \<open>EPERM\<close> (1).
\<close>

record log_file =
  lf_bytes :: bytes
  lf_pos :: nat
  lf_sealed :: "nat option"

definition write_at :: "nat \<Rightarrow> bytes \<Rightarrow> bytes \<Rightarrow> bytes" where
  "write_at off bs f = take off f @ replicate (off - length f) 0 @ bs @ drop (off + length bs) f"

text \<open>\<open>pipe::splice\<close> into a file: at the given offset, or at the position, which moves on.\<close>

definition splice_file :: "pipe \<Rightarrow> log_file \<Rightarrow> nat option \<Rightarrow> nat \<Rightarrow> (io_error, nat) outcome \<times> pipe \<times> log_file" where
  "splice_file p f out_offset len =
     (case splice p len of
        (Err e, p') \<Rightarrow> (Err e, p', f)
      | (Panic m, p') \<Rightarrow> (Panic m, p', f)
      | (Ok bs, p') \<Rightarrow>
          let off = (case out_offset of Some off \<Rightarrow> off | None \<Rightarrow> lf_pos f);
              n = length bs
          in if bs \<noteq> [] \<and> (case lf_sealed f of Some sz \<Rightarrow> sz < off + n | None \<Rightarrow> False) then (Err (Errno 1), p, f)
             else (Ok n, p', f\<lparr>lf_bytes := write_at off bs (lf_bytes f),
                              lf_pos := (if out_offset = None then off + n else lf_pos f)\<rparr>))"

section \<open>MemFdBuffer\<close>

text \<open>\<open>MemFdBuffer\<close>, sealed or not; the position comes from \<open>lseek\<close>, whose failure panics.\<close>

definition memfd_new :: "(nat \<Rightarrow> (io_error, int) outcome) \<Rightarrow> string \<Rightarrow> (io_error, log_file) outcome" where
  "memfd_new r name =
     (if CHR 0x00 \<in> set name then Panic ''NulError''
      else case r 0 of Err e \<Rightarrow> Err e | Panic m \<Rightarrow> Panic m | Ok _ \<Rightarrow> Ok \<lparr>lf_bytes = [], lf_pos = 0, lf_sealed = None\<rparr>)"

definition sealed_file :: "memfd_buffer \<Rightarrow> log_file" where
  "sealed_file m = \<lparr>lf_bytes = mf_file m, lf_pos = 0, lf_sealed = Some (mf_capacity m)\<rparr>"

definition memfd_splice_from :: "log_file \<Rightarrow> pipe \<Rightarrow> nat \<Rightarrow> (io_error, nat) outcome \<times> pipe \<times> log_file" where
  "memfd_splice_from f p len = splice_file p f None len"

definition memfd_filling :: "io_error option \<Rightarrow> log_file \<Rightarrow> (io_error, nat) outcome" where
  "memfd_filling lseek f = (case lseek of Some e \<Rightarrow> Panic ''Failed to get stream position'' | None \<Rightarrow> Ok (lf_pos f))"

definition memfd_capacity :: "log_file \<Rightarrow> nat option" where
  "memfd_capacity f = lf_sealed f"

definition memfd_kind :: "log_file \<Rightarrow> string" where
  "memfd_kind f = (case lf_sealed f of Some _ \<Rightarrow> ''memfd-sealed'' | None \<Rightarrow> ''memfd'')"

section \<open>MemMapBuffer\<close>

text \<open>The map is the file; \<open>map_err\<close> is what \<open>MmapMut::map_mut\<close> fails with, if it does.\<close>

definition memmap_new_from_file :: "io_error option \<Rightarrow> log_file \<Rightarrow> (io_error, log_file) outcome" where
  "memmap_new_from_file map_fails f = (case map_fails of Some e \<Rightarrow> Err e | None \<Rightarrow> Ok f)"

definition memmap_new_from_memfd :: "io_error option \<Rightarrow> memfd_buffer \<Rightarrow> (io_error, log_file) outcome" where
  "memmap_new_from_memfd map_fails m = memmap_new_from_file map_fails (sealed_file m)"

definition memmap_filling :: "log_file \<Rightarrow> nat" where
  "memmap_filling f = length (lf_bytes f)"

definition memmap_capacity :: "log_file \<Rightarrow> nat option" where
  "memmap_capacity f = Some (length (lf_bytes f))"

definition memmap_kind :: string where
  "memmap_kind = ''mmap''"

definition memmap_splice_from_and_view :: "log_file \<Rightarrow> pipe \<Rightarrow> nat \<Rightarrow> (io_error, bytes option) outcome \<times> pipe \<times> log_file" where
  "memmap_splice_from_and_view f p len =
     (let chunk = min len (length (lf_bytes f)) in
      case splice_file p f (Some 0) chunk of
        (Ok n, p', f') \<Rightarrow> (Ok (if n = 0 then None else Some (take n (lf_bytes f'))), p', f')
      | (Err e, p', f') \<Rightarrow> (Err e, p', f')
      | (Panic m, p', f') \<Rightarrow> (Panic m, p', f'))"

definition memmap_read_from_cursor :: "log_file \<Rightarrow> nat \<Rightarrow> log_chunk" where
  "memmap_read_from_cursor f from =
     (let from = min from (length (lf_bytes f)) in \<lparr>lc_buffer = Some (drop from (lf_bytes f)), lc_missed = 0\<rparr>)"

section \<open>DevNullLogBuffer\<close>

definition dev_null_new :: "io_error \<times> int \<Rightarrow> (io_error, int) outcome" where
  "dev_null_new r = to_ioresult (fst r) (snd r)"

definition dev_null_splice_from :: "unit \<Rightarrow> pipe \<Rightarrow> nat \<Rightarrow> (io_error, nat) outcome \<times> pipe \<times> unit" where
  "dev_null_splice_from b p len =
     (case splice p len of
        (Ok bs, p') \<Rightarrow> (Ok (length bs), p', b) | (Err e, p') \<Rightarrow> (Err e, p', b) | (Panic m, p') \<Rightarrow> (Panic m, p', b))"

definition dev_null_filling :: nat where
  "dev_null_filling = 0"

definition dev_null_capacity :: "nat option" where
  "dev_null_capacity = None"

definition dev_null_kind :: string where
  "dev_null_kind = ''dev-null''"

section \<open>Default methods of the traits\<close>

text \<open>\<open>write_pos\<close> is \<open>filling\<close>; \<open>start_pos\<close> follows from it and the capacity.\<close>

definition default_start_pos :: "nat \<Rightarrow> nat option \<Rightarrow> nat" where
  "default_start_pos write_pos capacity = (case capacity of Some cap \<Rightarrow> saturating_sub write_pos cap | None \<Rightarrow> 0)"

section \<open>What a splice promises\<close>

text \<open>
  The contract of \<open>LogBuffer::splice_from\<close>: at most \<open>len\<close> bytes leave the front of the pipe,
  none on an error, and \<open>Ok 0\<close> means that the pipe is empty, so that a caller may loop until
  then. \<open>ok\<close> is the invariant of the buffer, with room for what the pipe holds.
\<close>

locale log_buffer =
  fixes ok :: "'b \<Rightarrow> nat \<Rightarrow> bool"
    and splice_from :: "'b \<Rightarrow> pipe \<Rightarrow> nat \<Rightarrow> (io_error, nat) outcome \<times> pipe \<times> 'b"
  assumes splice_moves: "ok b (length (pipe_data p)) \<Longrightarrow> splice_from b p len = (Ok n, p', b') \<Longrightarrow>
      n \<le> len \<and> n \<le> length (pipe_data p) \<and> p' = p\<lparr>pipe_data := drop n (pipe_data p)\<rparr> \<and> ok b' (length (pipe_data p'))"
    and splice_zero: "ok b (length (pipe_data p)) \<Longrightarrow> 0 < len \<Longrightarrow> splice_from b p len = (Ok 0, p', b') \<Longrightarrow> pipe_data p = []"
    and splice_error: "ok b (length (pipe_data p)) \<Longrightarrow> splice_from b p len = (Err e, p', b') \<Longrightarrow> p' = p \<and> b' = b"
begin

text \<open>So the loop over splices a caller makes (\<open>ns\<close> is what each moved, the last one nothing) leaves an empty pipe.\<close>

inductive drains :: "nat \<Rightarrow> 'b \<Rightarrow> pipe \<Rightarrow> nat list \<Rightarrow> 'b \<Rightarrow> pipe \<Rightarrow> bool" for len where
  drained: "splice_from b p len = (Ok 0, p', b') \<Longrightarrow> drains len b p [] b' p'"
| drain_more: "splice_from b p len = (Ok n, p1, b1) \<Longrightarrow> 0 < n \<Longrightarrow> drains len b1 p1 ns b' p' \<Longrightarrow> drains len b p (n # ns) b' p'"

lemma drains_all:
  assumes "drains len b p ns b' p'" and "0 < len" and "ok b (length (pipe_data p))"
  shows "sum_list ns = length (pipe_data p) \<and> pipe_data p' = []"
  using assms
proof (induction rule: drains.induct)
  case (drained b p p' b')
  from splice_zero [OF drained(3,2,1)] splice_moves [OF drained(3,1)] show ?case by simp
next
  case (drain_more b p n p1 b1 ns b' p')
  from splice_moves [OF drain_more.prems(2) drain_more.hyps(1)] drain_more show ?case by auto
qed

end

section \<open>Every buffer keeps it\<close>

lemma splice_file_cases:
  assumes "splice_file p f out_offset len = (r, p', f')"
  obtains (moved) bs where "r = Ok (length bs)" and "splice p len = (Ok bs, p')"
  | (failed) e where "r = Err e" and "p' = p" and "f' = f"
proof (cases "splice p len")
  case (Pair x q)
  show thesis
  proof (cases x)
    case (Ok bs)
    with assms Pair show thesis by (auto simp: splice_file_def Let_def split: if_splits intro: that)
  next
    case (Err e)
    with Pair splice_ErrD [of p len e q] have "q = p" by simp
    with assms Pair Err show thesis by (auto simp: splice_file_def intro: that(2))
  qed (use Pair splice_no_panic in blast)
qed

lemma splice_front:
  assumes "splice p len = (Ok bs, p')"
  shows "length bs \<le> len \<and> length bs \<le> length (pipe_data p) \<and> p' = p\<lparr>pipe_data := drop (length bs) (pipe_data p)\<rparr>"
proof -
  note S = splice_OkD [OF assms]
  from S(1) have "pipe_data p' = drop (length bs) (pipe_data p)" "length bs \<le> length (pipe_data p)" by simp_all
  with S(2,3) show ?thesis by simp
qed

interpretation memfd_drain: log_buffer "\<lambda>f k. True" memfd_splice_from
proof
  fix f f' :: log_file and p p' :: pipe and len n e
  { assume "memfd_splice_from f p len = (Ok n, p', f')"
    then obtain bs where "n = length bs" "splice p len = (Ok bs, p')"
      unfolding memfd_splice_from_def by (cases rule: splice_file_cases) auto
    with splice_front show "n \<le> len \<and> n \<le> length (pipe_data p) \<and> p' = p\<lparr>pipe_data := drop n (pipe_data p)\<rparr> \<and> True" by simp }
  { assume len: "0 < len" and "memfd_splice_from f p len = (Ok 0, p', f')"
    from this(2) obtain bs where "0 = length bs" "splice p len = (Ok bs, p')"
      unfolding memfd_splice_from_def by (cases rule: splice_file_cases) auto
    with splice_Nil_iff [of p len bs p'] len show "pipe_data p = []" by simp }
  { assume "memfd_splice_from f p len = (Err e, p', f')"
    then show "p' = p \<and> f' = f" unfolding memfd_splice_from_def by (cases rule: splice_file_cases) auto }
qed

interpretation dev_null_drain: log_buffer "\<lambda>f k. True" dev_null_splice_from
  by unfold_locales
    (auto simp: dev_null_splice_from_def splice_Nil_iff split: prod.splits outcome.splits dest: splice_front splice_ErrD)

text \<open>The ring has room while its history and what the pipe holds stay below the range of \<open>usize\<close>.\<close>

interpretation ring_drain: log_buffer "\<lambda>cb k. \<exists>log. ring_holds cb log \<and> length log + k < usize_bound" splice_from
proof
  fix cb cb' :: circ_buffer and p p' :: pipe and len n e
  assume "\<exists>log. ring_holds cb log \<and> length log + length (pipe_data p) < usize_bound"
  then obtain log where h: "ring_holds cb log" and room: "length log + length (pipe_data p) < usize_bound" by blast
  let ?chunk = "min len (cb_capacity cb - length log mod cb_capacity cb)"
  have split: "(\<exists>bs. splice p ?chunk = (Ok bs, p') \<and> r = Ok (length bs) \<and> ring_holds cb' (log @ bs))
      \<or> (\<exists>e. r = Err e \<and> p' = p \<and> cb' = cb)" if run: "splice_from cb p len = (r, p', cb')" for r
  proof (cases "splice p ?chunk")
    case (Pair x q)
    show ?thesis
    proof (cases x)
      case (Ok bs)
      with Pair have S: "splice p ?chunk = (Ok bs, q)" by simp
      with splice_front [OF S] room have "length log + length bs < usize_bound" by simp
      from splice_from_and_view_Ok [OF h S this] run S show ?thesis
        by (cases "bs = []") (auto simp: splice_from_def)
    next
      case (Err e)
      with Pair splice_from_and_view_Err [OF h, of p len e q] run show ?thesis by (auto simp: splice_from_def)
    qed (use Pair splice_no_panic in blast)
  qed
  { assume "splice_from cb p len = (Ok n, p', cb')"
    from split [OF this] obtain bs where S: "splice p ?chunk = (Ok bs, p')" "n = length bs" "ring_holds cb' (log @ bs)" by auto
    with splice_front [OF S(1)] room have "length (log @ bs) + length (pipe_data p') < usize_bound" by simp
    with splice_front [OF S(1)] S(2,3) show "n \<le> len \<and> n \<le> length (pipe_data p) \<and> p' = p\<lparr>pipe_data := drop n (pipe_data p)\<rparr>
        \<and> (\<exists>log. ring_holds cb' log \<and> length log + length (pipe_data p') < usize_bound)" by auto }
  { assume "0 < len" "splice_from cb p len = (Ok 0, p', cb')"
    from split [OF this(2)] obtain bs where "splice p ?chunk = (Ok bs, p')" "bs = []" by auto
    with splice_Nil_iff [OF this(1) chunk_pos [OF h \<open>0 < len\<close>]] show "pipe_data p = []" by simp }
  { assume "splice_from cb p len = (Err e, p', cb')"
    from split [OF this] show "p' = p \<and> cb' = cb" by auto }
qed

text \<open>So a caller that splices until nothing moves has emptied the pipe into the ring.\<close>

lemma ring_drained:
  assumes "ring_drain.drains len cb p ns cb' p'" and "0 < len" and "ring_holds cb log" and "length log + length (pipe_data p) < usize_bound"
  shows "sum_list ns = length (pipe_data p) \<and> pipe_data p' = []"
  using ring_drain.drains_all [OF assms(1,2)] assms(3,4) by blast

section \<open>The memory map is no log\<close>

text \<open>
  \<open>MemMapBuffer\<close> does not keep what the trait documents: \<open>write_pos\<close> is not the number of bytes
  written but the size of the map, and every view overwrites the one before, while a read at a
  cursor reports nothing missed.
\<close>

lemma memmap_view:
  assumes "memmap_splice_from_and_view f p len = (Ok (Some v), p', f')"
  shows "lf_bytes f' = v @ drop (length v) (lf_bytes f)" and "length v \<le> length (lf_bytes f)"
proof -
  from assms obtain n where S: "splice_file p f (Some 0) (min len (length (lf_bytes f))) = (Ok n, p', f')" and v: "v = take n (lf_bytes f')"
    by (auto simp: memmap_splice_from_and_view_def Let_def split: prod.splits outcome.splits if_splits)
  from S obtain bs where B: "splice p (min len (length (lf_bytes f))) = (Ok bs, p')" "n = length bs"
    by (cases rule: splice_file_cases) auto
  with S have f': "lf_bytes f' = bs @ drop (length bs) (lf_bytes f)"
    by (auto simp: splice_file_def Let_def write_at_def split: if_splits)
  with v B(2) have "v = bs" by simp
  with f' splice_front [OF B(1)] show "lf_bytes f' = v @ drop (length v) (lf_bytes f)" "length v \<le> length (lf_bytes f)" by simp_all
qed

theorem memmap_forgets:
  assumes "memmap_splice_from_and_view f p len = (Ok (Some v1), p1, f1)"
    and "memmap_splice_from_and_view f1 q len = (Ok (Some v2), q1, f2)"
  shows "memmap_filling f2 = memmap_filling f
    \<and> default_start_pos (memmap_filling f2) (memmap_capacity f2) = 0
    \<and> lc_missed (memmap_read_from_cursor f2 0) = 0
    \<and> lc_buffer (memmap_read_from_cursor f2 0) = Some (v2 @ drop (length v2) (v1 @ drop (length v1) (lf_bytes f)))"
  using memmap_view [OF assms(1)] memmap_view [OF assms(2)]
  by (simp add: memmap_filling_def memmap_capacity_def default_start_pos_def saturating_sub_def memmap_read_from_cursor_def)

end
