(* ===== verification/Lifecycle.thy ===== *)
theory Lifecycle
  imports App_Correct
begin

text \<open>
  The abstract specification of the supervision of one app, an automaton over its phases, and the
  proof that the operations of the app refine it.
\<close>

section \<open>Simulation\<close>

text \<open>Runs of a system of labelled steps.\<close>

inductive runs :: "('s \<Rightarrow> 'l \<Rightarrow> 's \<Rightarrow> bool) \<Rightarrow> 's \<Rightarrow> 'l list \<Rightarrow> 's \<Rightarrow> bool" for step where
  runs_nil: "runs step s [] s"
| runs_cons: "step s l s' \<Longrightarrow> runs step s' ls s'' \<Longrightarrow> runs step s (l # ls) s''"

inductive_cases runs_ConsE: "runs step s (l # ls) s''"

text \<open>
  A system is simulated by another through an abstraction of its states, from every state that
  satisfies an invariant of its steps; so are its runs.
\<close>

locale simulation =
  fixes step :: "'s \<Rightarrow> 'l \<Rightarrow> 's \<Rightarrow> bool" and inv :: "'s \<Rightarrow> bool"
    and abs :: "'s \<Rightarrow> 'a" and astep :: "'a \<Rightarrow> 'l \<Rightarrow> 'a \<Rightarrow> bool"
  assumes inv_step: "inv s \<Longrightarrow> step s l s' \<Longrightarrow> inv s'"
    and sim_step: "inv s \<Longrightarrow> step s l s' \<Longrightarrow> astep (abs s) l (abs s')"
begin

lemma sim_runs: "runs step s ls s' \<Longrightarrow> inv s \<Longrightarrow> runs astep (abs s) ls (abs s')"
  by (induction rule: runs.induct) (auto intro: runs_nil runs_cons sim_step inv_step)

end

section \<open>The lifecycle of an app\<close>

text \<open>
  What an app is to its operator: up, waiting for a restart, or down; with the flag of an explicit
  stop, the consecutive failures and the automatic restarts so far.
\<close>

datatype phase = Up | Waiting instant | Down

record life =
  lf_phase :: phase
  lf_stop_requested :: bool
  lf_failures :: u32
  lf_restarts :: u32

definition life_of :: "app \<Rightarrow> life" where
  "life_of a =
     \<lparr>lf_phase = (if is_running a then Up else case pending_restart_deadline a of Some d \<Rightarrow> Waiting d | None \<Rightarrow> Down),
      lf_stop_requested = a_stop_requested a, lf_failures = st_consecutive_failures (a_stats a),
      lf_restarts = st_restart_count (a_stats a)\<rparr>"

text \<open>The phase an exit leads to under the policy, and the failures counted then.\<close>

definition after_exit :: "(f64 \<Rightarrow> int \<Rightarrow> f64) \<Rightarrow> restart_policy \<Rightarrow> bool \<Rightarrow> duration \<Rightarrow> instant \<Rightarrow> life \<Rightarrow> life" where
  "after_exit pw policy success uptime now s =
     (let n = failures_after policy success uptime (lf_failures s);
          strategy = (if success then on_success policy else on_error policy)
      in s\<lparr>lf_phase := (if gives_up policy success n then Down else Waiting (now + delay_for pw strategy (max n 1))),
           lf_failures := n\<rparr>)"

text \<open>
  The automaton, for the parameters of an app. A start succeeds, or fails and changes nothing; a
  stop marks a process that is up, and takes back a restart that is pending; the timer starts a
  pending restart that is due, or drops it when restarts are not allowed or the start fails; an
  event may be the exit of the process, which is restarted unless that is not allowed.
\<close>

inductive life_step :: "(f64 \<Rightarrow> int \<Rightarrow> f64) \<Rightarrow> app_params \<Rightarrow> life \<Rightarrow> app_action \<Rightarrow> life \<Rightarrow> bool" for pw P where
  life_start: "lf_phase s \<noteq> Up \<Longrightarrow> life_step pw P s ActStart (s\<lparr>lf_phase := Up, lf_stop_requested := False, lf_failures := 0\<rparr>)"
| life_no_start: "life_step pw P s ActStart s"
| life_stop_up: "lf_phase s = Up \<Longrightarrow> life_step pw P s (ActStop force) (s\<lparr>lf_stop_requested := True\<rparr>)"
| life_stop_waiting: "lf_phase s = Waiting d \<Longrightarrow> life_step pw P s (ActStop force) (s\<lparr>lf_phase := Down, lf_stop_requested := True\<rparr>)"
| life_stop_down: "lf_phase s = Down \<Longrightarrow> life_step pw P s (ActStop force) s"
| life_restart: "lf_phase s = Waiting d \<Longrightarrow> d \<le> now \<Longrightarrow>
    life_step pw P s (ActRestart now True) (s\<lparr>lf_phase := Up, lf_restarts := lf_restarts s + 1\<rparr>)"
| life_restart_fails: "lf_phase s = Waiting d \<Longrightarrow> d \<le> now \<Longrightarrow> life_step pw P s (ActRestart now True) (s\<lparr>lf_phase := Down\<rparr>)"
| life_not_due: "lf_phase s = Waiting d \<Longrightarrow> now < d \<Longrightarrow> life_step pw P s (ActRestart now True) s"
| life_denied: "lf_phase s = Waiting d \<Longrightarrow> life_step pw P s (ActRestart now False) (s\<lparr>lf_phase := Down\<rparr>)"
| life_no_restart: "(\<And>d. lf_phase s \<noteq> Waiting d) \<Longrightarrow> life_step pw P s (ActRestart now allow) s"
| life_exit: "lf_phase s = Up \<Longrightarrow> ap_oneshot P \<or> lf_stop_requested s \<or> \<not> tr \<Longrightarrow>
    life_step pw P s (ActPoll token event tr) (s\<lparr>lf_phase := Down\<rparr>)"
| life_exit_policy: "lf_phase s = Up \<Longrightarrow> \<not> ap_oneshot P \<Longrightarrow> \<not> lf_stop_requested s \<Longrightarrow>
    life_step pw P s (ActPoll token event True) (after_exit pw (ap_restart P) success uptime now s)"
| life_no_exit: "life_step pw P s (ActPoll token event tr) s"
| life_output: "lf_phase s = Up \<Longrightarrow> life_step pw P s ActOutput s"
| life_other: "life_step pw P s ActOther s"

lemma life_of_up: "a_state a = Running rt \<Longrightarrow> lf_phase (life_of a) = Up"
  by (simp add: life_of_def is_running_def)

lemma life_of_simps [simp]:
  "lf_stop_requested (life_of a) = a_stop_requested a" "lf_failures (life_of a) = st_consecutive_failures (a_stats a)"
  "lf_restarts (life_of a) = st_restart_count (a_stats a)"
  "lf_phase (life_of a) = Up \<longleftrightarrow> is_running a" "lf_phase (life_of a) = Waiting d \<longleftrightarrow> pending_restart_deadline a = Some d"
  "lf_phase (life_of a) = Down \<longleftrightarrow> \<not> is_running a \<and> pending_restart_deadline a = None"
  by (auto simp: life_of_def is_running_def pending_restart_deadline_def split: option.splits app_state.splits)

lemma life_eqI: "lf_phase x = lf_phase y \<Longrightarrow> lf_stop_requested x = lf_stop_requested y \<Longrightarrow> lf_failures x = lf_failures y \<Longrightarrow>
    lf_restarts x = lf_restarts y \<Longrightarrow> x = (y :: life)"
  by simp

lemma poll_stdio_life:
  assumes "poll_stdio token event rt a c = (x, a', c')" and "a_state a = Running rt"
  shows "life_of a' = life_of a"
  using assms
  by (auto simp: poll_stdio_def Let_def life_of_def is_running_def split: option.splits prod.splits stdio.splits if_splits)

lemma exit_life:
  assumes s: "s = settle rs u cb n m a"
  shows "life_of s = (life_of a)\<lparr>lf_phase := Down\<rparr>"
    and "life_of (schedule_restart pw now rs u2 s) = after_exit pw (ap_restart (a_params a)) (rs = Completed 0) u2 now (life_of a)"
proof -
  have st: "a_state s = stopped_with_cause rs" by (simp add: s)
  show "life_of s = (life_of a)\<lparr>lf_phase := Down\<rparr>"
    using st by (intro life_eqI) (simp_all add: s is_running_def stopped_with_cause_def settle_def)
  show "life_of (schedule_restart pw now rs u2 s) = after_exit pw (ap_restart (a_params a)) (rs = Completed 0) u2 now (life_of a)"
    by (simp add: s schedule_restart_eq after_exit_def Let_def life_of_def is_running_def stopped_with_cause_def settle_def)
qed

lemma poll_life:
  assumes inv: "app_inv E a c" and run: "app_poll E token event tr a c = (r, a', c')" and "\<not> is_panic r"
  shows "life_step (env_powi E) (a_params a) (life_of a) (ActPoll token event tr) (life_of a') \<and> a_params a' = a_params a"
proof -
  from inv obtain hist where h: "log_inv a hist" and own: "app_owns E a c"
    by (auto simp: app_inv_def)
  have own': "app_owns E a (c\<lparr>cx_tick := Suc (cx_tick c)\<rparr>)"
    using own by (simp add: app_owns_def)
  from h own run show ?thesis
  proof (cases rule: app_poll_cases)
    case (stdio rt rt')
    from poll_stdio_inv [OF h stdio(1,4)] have "a_params a' = a_params a" by auto
    with poll_stdio_life [OF stdio(4,1)] show ?thesis by (simp add: life_no_exit)
  next
    case (exited rt rs)
    from h exited(1) own' exited(6) show ?thesis
    proof (cases rule: poll_exit_cases)
      case stuck
      with assms(3) show ?thesis by simp
    next
      case (exited outs errs cb1 cb2 p1 p2 n)
      define s where "s = settle rs (duration_since (env_now E (cx_tick c)) (rt_started_at rt)) cb2
          (length (concat outs)) (length (concat errs)) a"
      note X = exit_life [OF s_def]
      show ?thesis
      proof (cases "tr \<and> \<not> ap_oneshot (a_params a) \<and> \<not> a_stop_requested a")
        case True
        with exited(6) have a': "a' = schedule_restart (env_powi E) (env_now E n) rs
            (duration_since (env_now E (cx_tick c)) (rt_started_at rt)) s"
          by (simp add: Let_def s_def)
        have up: "lf_phase (life_of a) = Up" using \<open>a_state a = Running rt\<close> by (simp add: is_running_def)
        from True have "tr = True" "\<not> lf_stop_requested (life_of a)" "\<not> ap_oneshot (a_params a)" by simp_all
        with life_exit_policy [OF up this(3,2)] show ?thesis by (simp only: a' X(2)) (simp add: s_def)
      next
        case False
        with exited(6) have a': "a' = s" by (auto simp: Let_def s_def)
        have "ap_oneshot (a_params a) \<or> lf_stop_requested (life_of a) \<or> \<not> tr" using False by auto
        moreover have "is_running a" using \<open>a_state a = Running rt\<close> by (simp add: is_running_def)
        ultimately show ?thesis
          by (simp add: a' X(1) life_exit) (simp add: s_def)
      qed
    qed
  qed (use assms(3) in \<open>simp_all add: life_no_exit\<close>)
qed

lemma app_step_life:
  assumes inv: "app_inv E a c" and step: "app_step E (a, c) act (a', c')"
  shows "life_step (env_powi E) (a_params a) (life_of a) act (life_of a') \<and> a_params a' = a_params a"
  using step
proof (rule app_stepE)
  fix r
  assume act: "act = ActStart" and ok: "\<not> is_panic r" and run: "app_start E a c = (r, a', c')"
  show ?thesis
  proof (cases "a' = a")
    case True
    then show ?thesis by (simp add: act life_no_start)
  next
    case False
    with run ok obtain rt where a': "a' = a\<lparr>a_state := Running rt, a_stats := (a_stats a)\<lparr>st_consecutive_failures := 0\<rparr>,
        a_stop_requested := False\<rparr>" and down: "\<not> is_running a"
      by (auto simp: app_start_def is_running_def split: app_state.splits prod.splits outcome.splits)
    have "life_of a' = (life_of a)\<lparr>lf_phase := Up, lf_stop_requested := False, lf_failures := 0\<rparr>"
      by (simp add: a' life_of_def is_running_def)
    with down show ?thesis by (simp add: act life_start) (simp add: a')
  qed
next
  fix force r
  assume act: "act = ActStop force" and run: "app_stop E force a c = (r, a', c')"
  from run show ?thesis
  proof (cases rule: app_stop_cases)
    case (signalled rt)
    then have "life_of a' = (life_of a)\<lparr>lf_stop_requested := True\<rparr>" by (simp add: life_of_def is_running_def)
    moreover have "is_running a" using signalled(1) by (simp add: is_running_def)
    ultimately show ?thesis by (simp add: act life_stop_up signalled(2))
  next
    case (cancelled le)
    then obtain d where d: "pending_restart_deadline a = Some d" by auto
    have "life_of a' = (life_of a)\<lparr>lf_phase := Down, lf_stop_requested := True\<rparr>"
      by (simp add: cancelled(5) life_of_def is_running_def stopped_with_cause_def pending_restart_deadline_def)
    with d show ?thesis by (auto simp: act cancelled(5) intro!: life_stop_waiting [of _ d])
  next
    case idle
    then show ?thesis by (simp add: act life_stop_down)
  qed
next
  fix now allow r
  assume act: "act = ActRestart now allow" and ok: "\<not> is_panic r" and run: "maybe_restart E now allow a c = (r, a', c')"
  have down: "life_of (a\<lparr>a_state := stopped_with_cause rs\<rparr>) = (life_of a)\<lparr>lf_phase := Down\<rparr>" for rs
    by (simp add: life_of_def is_running_def stopped_with_cause_def pending_restart_deadline_def)
  from run show ?thesis
  proof (cases rule: maybe_restart_cases)
    case untouched
    show ?thesis
    proof (cases "pending_restart_deadline a")
      case None
      then show ?thesis by (simp add: act untouched(2) life_no_restart)
    next
      case (Some d)
      with untouched(4) [OF Some] show ?thesis by (simp add: act untouched(2) life_not_due)
    qed
  next
    case (denied le d)
    then have "lf_phase (life_of a) = Waiting d" by simp
    from life_denied [OF this] denied show ?thesis by (simp add: act down)
  next
    case (failed le d e)
    then have "lf_phase (life_of a) = Waiting d" by simp
    from life_restart_fails [OF this failed(5)] failed show ?thesis by (simp add: act down)
  next
    case (restarted le d rt)
    then have "lf_phase (life_of a) = Waiting d" by simp
    from life_restart [OF this restarted(5)] restarted(4,7) show ?thesis
      by (simp add: act life_of_def is_running_def)
  next
    case (panicked m)
    with ok show ?thesis by simp
  qed
next
  fix token event tr r
  assume "act = ActPoll token event tr" and "\<not> is_panic r" and "app_poll E token event tr a c = (r, a', c')"
  with poll_life [OF inv] show ?thesis by blast
next
  fix rt p q
  assume "act = ActOutput" and "a_state a = Running rt" and a': "a' = a\<lparr>a_state := Running (rt\<lparr>rt_stdout := p, rt_stderr := q\<rparr>)\<rparr>"
  moreover from this have "life_of a' = life_of a" by (simp add: life_of_def is_running_def)
  ultimately show ?thesis by (simp add: life_output is_running_def)
next
  assume "act = ActOther" and "a' = a"
  then show ?thesis by (simp add: life_other)
qed

interpretation app_life: simulation "app_step E" "\<lambda>(a, c). app_inv E a c \<and> a_params a = P" "\<lambda>(a, c). life_of a"
    "life_step (env_powi E) P" for E :: "'s env" and P
proof
  fix s s' :: "app \<times> 's ctx" and act
  assume I: "case s of (a, c) \<Rightarrow> app_inv E a c \<and> a_params a = P" and S: "app_step E s act s'"
  obtain a c a' c' where s: "s = (a, c)" "s' = (a', c')" by (metis prod.collapse)
  with I S app_step_inv [of E a c act a' c'] app_step_life [of E a c act a' c']
  show "case s' of (a, c) \<Rightarrow> app_inv E a c \<and> a_params a = P"
    and "life_step (env_powi E) P (case s of (a, c) \<Rightarrow> life_of a) act (case s' of (a, c) \<Rightarrow> life_of a)"
    by simp_all
qed

lemma app_steps_runs: "app_steps E s acts s' \<Longrightarrow> runs (app_step E) s acts s'"
  by (induction rule: app_steps.induct) (auto intro: runs_nil runs_cons)



end
