(* ===== verification/Mmap_Slices.thy ===== *)
theory Mmap_Slices
  imports Mmap
begin

text \<open>
  The mutable side of the doubly mapped ring buffer, \<open>src/src/support/mmap.rs\<close>: the slices that
  \<open>get_at_mut\<close> and the \<open>IndexMut\<close> and \<open>Deref\<close> implementations hand out, stores through them,
  and the soundness of the unsafe code behind them.
\<close>

section \<open>Mutable slices\<close>

text \<open>
  A \<open>&mut [u8]\<close> into the doubled range: its address, relative to the start of the range, and its
  length. \<open>None\<close> is a panic.
\<close>

type_synonym slice = "nat \<times> nat"

definition get_at_mut :: "ring_map \<Rightarrow> nat \<Rightarrow> slice option" where
  "get_at_mut rb offset = get_buffer_infos_at rb offset"

definition index_mut_range :: "ring_map \<Rightarrow> nat \<Rightarrow> nat \<Rightarrow> slice option" where
  "index_mut_range rb start stop =
     (case get_at_mut rb start of
        None \<Rightarrow> None
      | Some (addr, len) \<Rightarrow> if usize_sub stop start \<le> len then Some (addr, usize_sub stop start) else None)"

definition index_mut_range_from :: "ring_map \<Rightarrow> nat \<Rightarrow> slice option" where
  "index_mut_range_from rb start = get_at_mut rb start"

definition index_mut_range_to :: "ring_map \<Rightarrow> nat \<Rightarrow> slice option" where
  "index_mut_range_to rb stop =
     (case get_at_mut rb 0 of
        None \<Rightarrow> None
      | Some (addr, len) \<Rightarrow> if stop \<le> len then Some (addr, stop) else None)"

definition index_mut_range_full :: "ring_map \<Rightarrow> slice option" where
  "index_mut_range_full rb = get_at_mut rb 0"

definition deref :: "ring_map \<Rightarrow> bytes option" where
  "deref rb = get_at rb 0"

definition deref_mut :: "ring_map \<Rightarrow> slice option" where
  "deref_mut rb = get_at_mut rb 0"

text \<open>A store through a slice, \<open>slice[k] = b\<close>: both halves are mappings of the one file.\<close>

definition store :: "ring_map \<Rightarrow> slice \<Rightarrow> nat \<Rightarrow> byte \<Rightarrow> ring_map option" where
  "store rb sl k b =
     (if k < snd sl then Some (rb\<lparr>rm_file := (rm_file rb)[(fst sl + k) mod rm_size rb := b]\<rparr>) else None)"

section \<open>Facts\<close>

lemma mod_shift_eq:
  assumes "0 < n" and "m < n" and "i < (n::nat)"
  shows "(off + m) mod n = i \<longleftrightarrow> m = (i + (n - off mod n)) mod n"
proof -
  define o1 where "o1 = off mod n"
  have o: "o1 < n" using assms(1) by (simp add: o1_def)
  have e: "(off + m) mod n = (o1 + m) mod n" by (simp add: o1_def mod_add_left_eq)
  have l: "(o1 + m) mod n = (if o1 + m < n then o1 + m else o1 + m - n)"
    using o assms(2) by (simp add: mod_if)
  have r: "(i + (n - o1)) mod n = (if i + (n - o1) < n then i + (n - o1) else i + (n - o1) - n)"
    using o assms(3) by (auto simp: mod_if)
  show ?thesis unfolding e l o1_def [symmetric] r using o assms(2,3) by auto
qed

lemma rotate_update:
  assumes "xs \<noteq> []" and "i < length xs"
  shows "rotate off (xs[i := b]) = (rotate off xs)[(i + (length xs - off mod length xs)) mod length xs := b]"
proof (rule nth_equalityI)
  fix m assume "m < length (rotate off (xs[i := b]))"
  then have m: "m < length xs" by simp
  have n: "0 < length xs" using assms(1) by simp
  from mod_shift_eq [OF n m assms(2), of off] m n assms(2) show "rotate off (xs[i := b]) ! m =
      (rotate off xs)[(i + (length xs - off mod length xs)) mod length xs := b] ! m"
    by (auto simp: nth_rotate nth_list_update)
qed simp

lemma index_mut_range_bounds:
  assumes "ring_map_ok rb" and "index_mut_range rb start stop = Some sl"
  shows "fst sl = start mod rm_size rb" and "fst sl < rm_size rb" and "snd sl \<le> rm_size rb"
  using assms
  by (auto simp: index_mut_range_def get_at_mut_def get_buffer_infos_at_def ring_map_ok_def split: if_splits)

text \<open>
  C33. The unsafe slices of the double mapping are sound: a mutable slice, wherever it starts, lies
  inside the two mappings and reaches every byte of the file at most once (so the exclusive
  reference has no alias in itself); and a store through it is seen by every later slice, at
  whatever offset it starts and in whichever of the two mappings, at exactly the one place that
  stands for the same byte.
\<close>

theorem mutable_slices_sound:
  assumes "ring_map_ok rb" and "index_mut_range rb start stop = Some sl" and "store rb sl k b = Some rb'"
  shows "fst sl + snd sl \<le> 2 * rm_size rb
    \<and> distinct (map (\<lambda>j. (fst sl + j) mod rm_size rb) [0..<snd sl])
    \<and> ring_map_ok rb'
    \<and> get_at rb' off = map_option (\<lambda>buf. buf[(start + k + (rm_size rb - off mod rm_size rb)) mod rm_size rb := b]) (get_at rb off)"
proof -
  let ?n = "rm_size rb"
  note B = index_mut_range_bounds [OF assms(1,2)]
  have n: "0 < ?n" "length (rm_file rb) = ?n" using assms(1) by (simp_all add: ring_map_ok_def)
  have rb': "rb' = rb\<lparr>rm_file := (rm_file rb)[(fst sl + k) mod ?n := b]\<rparr>"
    using assms(3) by (simp add: store_def split: if_splits)
  have ok: "ring_map_ok rb'" using assms(1) by (simp add: rb' ring_map_ok_def)
  have "inj_on (\<lambda>j. (fst sl + j) mod ?n) {0..<snd sl}"
  proof (rule inj_onI)
    fix i j assume "i \<in> {0..<snd sl}" "j \<in> {0..<snd sl}" and eq: "(fst sl + i) mod ?n = (fst sl + j) mod ?n"
    then have ij: "i < ?n" "j < ?n" using B(3) by auto
    have "(fst sl + i) mod ?n < ?n" using n by simp
    from mod_shift_eq [OF n(1) ij(1) this] mod_shift_eq [OF n(1) ij(2) this] eq show "i = j" by metis
  qed
  then have d: "distinct (map (\<lambda>j. (fst sl + j) mod ?n) [0..<snd sl])" by (simp add: distinct_map)
  have pos: "(fst sl + k) mod ?n = (start + k) mod ?n" by (simp add: B(1) mod_add_left_eq)
  have ne: "rm_file rb \<noteq> []" using n by auto
  have "get_at rb' off = Some (rotate off ((rm_file rb)[(start + k) mod ?n := b]))"
    using get_at_rotate [OF ok] by (simp add: rb' pos)
  also have "\<dots> = Some ((rotate off (rm_file rb))[((start + k) mod ?n + (?n - off mod ?n)) mod ?n := b])"
    using rotate_update [OF ne, of "(start + k) mod ?n" off b] n by simp
  also have "\<dots> = map_option (\<lambda>buf. buf[(start + k + (?n - off mod ?n)) mod ?n := b]) (get_at rb off)"
    by (simp add: get_at_rotate [OF assms(1)] mod_add_left_eq)
  finally show ?thesis using B ok d by simp
qed

lemma mutable_slices_sound_witness:
  "\<exists>rb'. store \<lparr>rm_size = 4, rm_file = [1, 2, 3, 4]\<rparr> (3, 2) 1 9 = Some rb' \<and> get_at rb' 2 = Some [3, 4, 9, 2]"
proof -
  let ?rb = "\<lparr>rm_size = 4, rm_file = [1, 2, 3, 4]\<rparr>"
  have ok: "ring_map_ok ?rb" by (simp add: ring_map_ok_def usize_bound_def)
  have I: "index_mut_range ?rb 3 5 = Some (3, 2)"
    by (simp add: index_mut_range_def get_at_mut_def get_buffer_infos_at_def usize_sub_def)
  obtain rb' where S: "store ?rb (3, 2) 1 9 = Some rb'" by (simp add: store_def)
  from mutable_slices_sound [OF ok I S, of 2] have "get_at rb' 2 = Some ([3, 4, 1, 2][2 := 9])"
    by (simp add: get_at_def get_buffer_infos_at_def mapped_byte_def upt_rec)
  with S show ?thesis by simp
qed
end
