(* ===== verification/Descriptors.thy ===== *)
theory Descriptors
  imports Kernel
begin

text \<open>
  The descriptors behind an app: \<open>Pipe\<close> of \<open>src/src/support/pipe.rs\<close>, the memfd of its log
  buffer, and what happens to the descriptor tables of the daemon and of the new process when
  \<open>App::create\<close> (\<open>src/src/runtime.rs\<close>) starts it: who holds which end of which pipe, and
  what the program inherits.
\<close>

section \<open>Descriptor tables\<close>

text \<open>
  What a descriptor refers to; pipes, memfds and the rest are numbered in the order of creation.
  A process is its descriptor table, with the status flags of the open files, the number of files
  created and of calls made so far.
\<close>

datatype open_file = PipeRead nat | PipeWrite nat | MemFile nat | PidFile nat | OtherFile nat

record descriptor =
  fd_file :: open_file
  fd_cloexec :: bool

type_synonym fd_table = "nat \<Rightarrow> descriptor option"

record process =
  ps_table :: fd_table
  ps_flags :: "open_file \<Rightarrow> int"
  ps_created :: nat
  ps_calls :: nat

text \<open>The kernel decides which calls fail, by their number, and how many descriptors there may be.\<close>

record fd_kernel =
  fk_error :: "nat \<Rightarrow> io_error option"
  fk_limit :: nat

section \<open>System calls\<close>

text \<open>
  The calls as C sees them: errno and the return value. A new descriptor is the lowest unused one;
  9 is \<open>EBADF\<close>, 24 \<open>EMFILE\<close>. Linux releases the descriptor even when \<open>close\<close> fails.
\<close>

type_synonym c_result = "io_error \<times> int"

definition lowest_unused :: "nat \<Rightarrow> fd_table \<Rightarrow> nat option" where
  "lowest_unused limit t = find (\<lambda>n. t n = None) [0..<limit]"

definition answer_call :: "fd_kernel \<Rightarrow> process \<Rightarrow> int \<Rightarrow> c_result" where
  "answer_call K p r = (case fk_error K (ps_calls p) of Some e \<Rightarrow> (e, -1) | None \<Rightarrow> (Errno 0, r))"

definition called :: "process \<Rightarrow> process" where
  "called p = p\<lparr>ps_calls := Suc (ps_calls p)\<rparr>"

definition sys_close :: "fd_kernel \<Rightarrow> nat \<Rightarrow> process \<Rightarrow> c_result \<times> process" where
  "sys_close K fd p =
     (if ps_table p fd = None then ((Errno 9, -1), called p)
      else (answer_call K p 0, called (p\<lparr>ps_table := (ps_table p)(fd := None)\<rparr>)))"

definition sys_dup2 :: "fd_kernel \<Rightarrow> nat \<Rightarrow> nat \<Rightarrow> process \<Rightarrow> c_result \<times> process" where
  "sys_dup2 K src dst p =
     (case ps_table p src of
        None \<Rightarrow> ((Errno 9, -1), called p)
      | Some d \<Rightarrow>
          if fk_error K (ps_calls p) \<noteq> None then (answer_call K p (int dst), called p)
          else if src = dst then (answer_call K p (int dst), called p)
          else (answer_call K p (int dst), called (p\<lparr>ps_table := (ps_table p)(dst \<mapsto> d\<lparr>fd_cloexec := False\<rparr>)\<rparr>)))"

definition sys_pipe :: "fd_kernel \<Rightarrow> process \<Rightarrow> c_result \<times> (nat \<times> nat) \<times> process" where
  "sys_pipe K p =
     (let n = ps_created p in
      case lowest_unused (fk_limit K) (ps_table p) of
        None \<Rightarrow> ((Errno 24, -1), (0, 0), called p)
      | Some r \<Rightarrow>
          (let t = (ps_table p)(r \<mapsto> \<lparr>fd_file = PipeRead n, fd_cloexec = False\<rparr>) in
           case lowest_unused (fk_limit K) t of
             None \<Rightarrow> ((Errno 24, -1), (0, 0), called p)
           | Some w \<Rightarrow>
               if fk_error K (ps_calls p) \<noteq> None then (answer_call K p 0, (0, 0), called p)
               else (answer_call K p 0, (r, w),
                     called (p\<lparr>ps_table := t(w \<mapsto> \<lparr>fd_file = PipeWrite n, fd_cloexec = False\<rparr>), ps_created := Suc n\<rparr>))))"

definition sys_getfl :: "fd_kernel \<Rightarrow> nat \<Rightarrow> process \<Rightarrow> c_result \<times> process" where
  "sys_getfl K fd p =
     (case ps_table p fd of
        None \<Rightarrow> ((Errno 9, -1), called p)
      | Some d \<Rightarrow> (answer_call K p (ps_flags p (fd_file d)), called p))"

definition sys_setfl :: "fd_kernel \<Rightarrow> nat \<Rightarrow> int \<Rightarrow> process \<Rightarrow> c_result \<times> process" where
  "sys_setfl K fd flags p =
     (case ps_table p fd of
        None \<Rightarrow> ((Errno 9, -1), called p)
      | Some d \<Rightarrow>
          if fk_error K (ps_calls p) \<noteq> None then (answer_call K p 0, called p)
          else (answer_call K p 0, called (p\<lparr>ps_flags := (ps_flags p)(fd_file d := flags)\<rparr>)))"

text \<open>A call that opens one new descriptor: \<open>memfd_create\<close> and \<open>pidfd_open\<close>.\<close>

definition sys_open_new :: "fd_kernel \<Rightarrow> (nat \<Rightarrow> open_file) \<Rightarrow> bool \<Rightarrow> process \<Rightarrow> c_result \<times> process" where
  "sys_open_new K f cloexec p =
     (case lowest_unused (fk_limit K) (ps_table p) of
        None \<Rightarrow> ((Errno 24, -1), called p)
      | Some fd \<Rightarrow>
          if fk_error K (ps_calls p) \<noteq> None then (answer_call K p 0, called p)
          else (answer_call K p (int fd),
                called (p\<lparr>ps_table := (ps_table p)(fd \<mapsto> \<lparr>fd_file = f (ps_created p), fd_cloexec = cloexec\<rparr>),
                          ps_created := Suc (ps_created p)\<rparr>)))"

text \<open>\<open>execve\<close> keeps what is not marked close-on-exec.\<close>

definition exec_table :: "fd_table \<Rightarrow> fd_table" where
  "exec_table t = (\<lambda>fd. case t fd of Some d \<Rightarrow> if fd_cloexec d then None else Some d | None \<Rightarrow> None)"

definition c_io :: "(process \<Rightarrow> c_result \<times> process) \<Rightarrow> (process, io_error, int) run" where
  "c_io call = (\<lambda>p. case call p of ((errno, r), p') \<Rightarrow> (to_ioresult errno r, p'))"

definition expect_run :: "string \<Rightarrow> ('c, 'e, 'a) run \<Rightarrow> ('c, 'f, 'a) run" where
  "expect_run m x = (\<lambda>c. case x c of (r, c') \<Rightarrow> (expect m r, c'))"

section \<open>Pipes\<close>

text \<open>Dropping an \<open>OwnedFd\<close>: closed, whatever \<open>close\<close> says.\<close>

definition drop_fd :: "fd_kernel \<Rightarrow> nat \<Rightarrow> process \<Rightarrow> process" where
  "drop_fd K fd p = snd (sys_close K fd p)"

text \<open>A pipe is \<open>[read, write]\<close>.\<close>

definition pipe_new :: "fd_kernel \<Rightarrow> (process, io_error, nat \<times> nat) run" where
  "pipe_new K = (\<lambda>p.
     case sys_pipe K p of
       ((errno, r), fds, p') \<Rightarrow>
         (case to_ioresult errno r of Ok _ \<Rightarrow> (Ok fds, p') | Err e \<Rightarrow> (Err e, p') | Panic m \<Rightarrow> (Panic m, p')))"

definition pipe_into_read_fd :: "fd_kernel \<Rightarrow> nat \<times> nat \<Rightarrow> (process, io_error, nat) run" where
  "pipe_into_read_fd K pp = bindM (c_io (sys_close K (snd pp))) (\<lambda>_. ret (fst pp))"

definition O_NONBLOCK :: int where
  "O_NONBLOCK = 2048"

definition set_nonblock :: "int \<Rightarrow> int" where
  "set_nonblock flags = or flags O_NONBLOCK"

definition pipe_into_nonblocking_read_fd :: "fd_kernel \<Rightarrow> nat \<times> nat \<Rightarrow> (process, io_error, nat) run" where
  "pipe_into_nonblocking_read_fd K pp =
     bindM (pipe_into_read_fd K pp) (\<lambda>reader p.
       case bindM (c_io (sys_getfl K reader)) (\<lambda>flags. c_io (sys_setfl K reader (set_nonblock flags))) p of
         (Ok _, p') \<Rightarrow> (Ok reader, p')
       | (Err e, p') \<Rightarrow> (Err e, drop_fd K reader p')
       | (Panic m, p') \<Rightarrow> (Panic m, p'))"

definition pipe_into_write_fd :: "fd_kernel \<Rightarrow> nat \<times> nat \<Rightarrow> (process, io_error, nat) run" where
  "pipe_into_write_fd K pp = bindM (c_io (sys_close K (fst pp))) (\<lambda>_. ret (snd pp))"

text \<open>\<open>fd_dup\<close> of \<open>runtime.rs\<close> takes the writer by value: it is closed at the end, also on failure.\<close>

definition fd_dup :: "fd_kernel \<Rightarrow> nat \<Rightarrow> nat \<Rightarrow> (process, io_error, unit) run" where
  "fd_dup K src dst = (\<lambda>p.
     case c_io (sys_dup2 K src dst) p of
       (Ok _, p') \<Rightarrow> (Ok (), drop_fd K src p')
     | (Err e, p') \<Rightarrow> (Err e, drop_fd K src p')
     | (Panic m, p') \<Rightarrow> (Panic m, p'))"

section \<open>Starting an app\<close>

text \<open>\<open>setup_child\<close>, the descriptors: before the program is executed.\<close>

definition child_descriptors :: "fd_kernel \<Rightarrow> nat \<times> nat \<Rightarrow> nat \<times> nat \<Rightarrow> (process, io_error, unit) run" where
  "child_descriptors K pipe_stdout pipe_stderr =
     bindM (pipe_into_write_fd K pipe_stdout) (\<lambda>stdout.
     bindM (fd_dup K stdout 1) (\<lambda>_.
     bindM (pipe_into_write_fd K pipe_stderr) (\<lambda>stderr.
       fd_dup K stderr 2)))"

record app_fds =
  af_program :: "fd_table option" \<comment> \<open>of the program, when the child got as far as \<open>execve\<close>\<close>
  af_pidfd :: nat
  af_stdout :: nat
  af_stderr :: nat

text \<open>The parent's half of \<open>AppRuntime::start\<close>; \<open>pidfd_open\<close> sets close-on-exec itself.\<close>

definition parent_descriptors :: "fd_kernel \<Rightarrow> nat \<times> nat \<Rightarrow> nat \<times> nat \<Rightarrow> (process, io_error, nat \<times> nat \<times> nat) run" where
  "parent_descriptors K pipe_stdout pipe_stderr =
     bindM (c_io (sys_open_new K PidFile True)) (\<lambda>pidfd.
     bindM (expect_run ''nonblocking stdout'' (pipe_into_nonblocking_read_fd K pipe_stdout)) (\<lambda>stdout.
     bindM (expect_run ''nonblocking stderr'' (pipe_into_nonblocking_read_fd K pipe_stderr)) (\<lambda>stderr.
       ret (nat pidfd, stdout, stderr))))"

text \<open>
  The descriptors of \<open>AppRuntime::start\<close>: \<open>clone3\<close> without \<open>CLONE_FILES\<close> gives the child a
  copy of the table, on which it goes on by itself. How the spawn ends: with an error, or with a
  child that the kernel answers by itself.
\<close>

datatype spawn_end = SpawnFailed io_error | SpawnedAs fd_kernel

definition start_descriptors :: "fd_kernel \<Rightarrow> spawn_end \<Rightarrow> (process, io_error, app_fds) run" where
  "start_descriptors K spawn =
     bindM (expect_run ''pipe stdout'' (pipe_new K)) (\<lambda>pipe_stdout.
     bindM (expect_run ''pipe stderr'' (pipe_new K)) (\<lambda>pipe_stderr p.
       case spawn of
         SpawnFailed e \<Rightarrow> (Err e, p)
       | SpawnedAs Kc \<Rightarrow>
           let program = (case child_descriptors Kc pipe_stdout pipe_stderr p of
                            (Ok _, child) \<Rightarrow> Some (exec_table (ps_table child)) | _ \<Rightarrow> None)
           in bindM (parent_descriptors K pipe_stdout pipe_stderr) (\<lambda>(pidfd, stdout, stderr).
                ret \<lparr>af_program = program, af_pidfd = pidfd, af_stdout = stdout, af_stderr = stderr\<rparr>) p))"

text \<open>\<open>MemFdBuffer::memfd_create\<close>: without \<open>MFD_CLOEXEC\<close>.\<close>

definition memfd_create :: "fd_kernel \<Rightarrow> (process, io_error, nat) run" where
  "memfd_create K = bindM (c_io (sys_open_new K MemFile False)) (\<lambda>fd. ret (nat fd))"

text \<open>The descriptors of \<open>App::create\<close> for an app that starts at once, and of one after the other.\<close>

definition create_descriptors :: "fd_kernel \<Rightarrow> spawn_end \<Rightarrow> (process, io_error, app_fds \<times> nat) run" where
  "create_descriptors K spawn =
     bindM (start_descriptors K spawn) (\<lambda>f.
     bindM (expect_run ''Failed to create memfd buffer'' (memfd_create K)) (\<lambda>memfd. ret (f, memfd)))"

fun create_all :: "fd_kernel \<Rightarrow> spawn_end list \<Rightarrow> (process, io_error, (app_fds \<times> nat) list) run" where
  "create_all K [] = ret []"
| "create_all K (spawn # spawns) =
     bindM (create_descriptors K spawn) (\<lambda>f. bindM (create_all K spawns) (\<lambda>fs. ret (f # fs)))"

section \<open>What the calls do when they succeed\<close>

lemma lowest_unused_free: "lowest_unused limit t = Some n \<Longrightarrow> t n = None"
  by (auto simp: lowest_unused_def find_Some_iff)

lemma called_simps [simp]:
  "ps_table (called p) = ps_table p" "ps_flags (called p) = ps_flags p" "ps_created (called p) = ps_created p"
  by (simp_all add: called_def)

lemma answer_call_nonneg: "to_ioresult (fst (answer_call K p r)) (snd (answer_call K p r)) = Ok x \<Longrightarrow> fk_error K (ps_calls p) = None \<and> x = r \<and> 0 \<le> r"
  by (auto simp: answer_call_def to_ioresult_def split: option.splits if_splits)

lemma expect_run_Ok [simp]: "expect_run m x c = (Ok y, c') \<longleftrightarrow> x c = (Ok y, c')"
  by (auto simp: expect_run_def split: prod.splits)

lemma close_Ok:
  assumes "c_io (sys_close K fd) p = (Ok x, p')"
  shows "p' = called (p\<lparr>ps_table := (ps_table p)(fd := None)\<rparr>)"
  using assms by (auto simp: c_io_def sys_close_def to_ioresult_def split: prod.splits if_splits)

lemma dup2_Ok:
  assumes "c_io (sys_dup2 K src dst) p = (Ok x, p')" and "src \<noteq> dst"
  obtains d where "ps_table p src = Some d" and "p' = called (p\<lparr>ps_table := (ps_table p)(dst \<mapsto> d\<lparr>fd_cloexec := False\<rparr>)\<rparr>)"
  using assms by (auto simp: c_io_def sys_dup2_def to_ioresult_def answer_call_def split: prod.splits option.splits if_splits)

lemma open_new_Ok:
  assumes "c_io (sys_open_new K f ce) p = (Ok x, p')"
  shows "ps_table p (nat x) = None" and "p' = called (p\<lparr>ps_table := (ps_table p)(nat x \<mapsto> \<lparr>fd_file = f (ps_created p), fd_cloexec = ce\<rparr>), ps_created := Suc (ps_created p)\<rparr>)"
  using assms by (auto simp: c_io_def sys_open_new_def to_ioresult_def answer_call_def dest: lowest_unused_free split: prod.splits option.splits if_splits)

lemma pipe_new_Ok:
  assumes "pipe_new K p = (Ok (r, w), p')"
  shows "ps_table p r = None" and "ps_table p w = None" and "r \<noteq> w"
    and "p' = called (p\<lparr>ps_table := (ps_table p)(r \<mapsto> \<lparr>fd_file = PipeRead (ps_created p), fd_cloexec = False\<rparr>,
           w \<mapsto> \<lparr>fd_file = PipeWrite (ps_created p), fd_cloexec = False\<rparr>), ps_created := Suc (ps_created p)\<rparr>)"
  using assms
  by (auto simp: pipe_new_def sys_pipe_def Let_def to_ioresult_def answer_call_def dest!: lowest_unused_free split: prod.splits option.splits if_splits)

lemma nonblocking_Ok:
  assumes "pipe_into_nonblocking_read_fd K (r, w) p = (Ok x, p')" and "ps_table p r = Some d" and "r \<noteq> w"
  shows "x = r" and "ps_table p' = (ps_table p)(w := None)" and "ps_created p' = ps_created p"
    and "ps_flags p' = (ps_flags p)(fd_file d := set_nonblock (ps_flags p (fd_file d)))"
  using assms
  by (auto simp: pipe_into_nonblocking_read_fd_def pipe_into_read_fd_def bindM_Ok sys_getfl_def sys_setfl_def c_io_def
      to_ioresult_def answer_call_def called_def sys_close_def bindM_def split: prod.splits option.splits if_splits outcome.splits)

lemma fd_dup_Ok:
  assumes "fd_dup K src dst p = (Ok x, p')" and "src \<noteq> dst"
  obtains d where "ps_table p src = Some d" and "ps_table p' = (ps_table p)(dst \<mapsto> d\<lparr>fd_cloexec := False\<rparr>, src := None)"
proof -
  obtain r p1 where D: "c_io (sys_dup2 K src dst) p = (r, p1)" by force
  with assms(1) obtain y where "r = Ok y" and p': "p' = drop_fd K src p1" by (auto simp: fd_dup_def split: outcome.splits)
  with D have "c_io (sys_dup2 K src dst) p = (Ok y, p1)" by simp
  from dup2_Ok [OF this assms(2)] obtain d where d: "ps_table p src = Some d"
    "p1 = called (p\<lparr>ps_table := (ps_table p)(dst \<mapsto> d\<lparr>fd_cloexec := False\<rparr>)\<rparr>)" by blast
  with assms(2) have "ps_table p1 src \<noteq> None" by simp
  with d p' show thesis by (intro that [of d]) (simp_all add: drop_fd_def sys_close_def)
qed

lemma exec_table_upd: "\<not> fd_cloexec d \<Longrightarrow> exec_table (t(n \<mapsto> d)) = (exec_table t)(n \<mapsto> d)"
  by (auto simp: exec_table_def)

section \<open>Start\<close>

lemma child_wiring:
  assumes "child_descriptors K (r1, w1) (r2, w2) p = (Ok x, p')"
    and "distinct [r1, w1, r2, w2, 1, 2]" and "ps_table p w1 = Some d1" and "ps_table p w2 = Some d2"
  shows "ps_table p' = (ps_table p)(r1 := None, w1 := None, r2 := None, w2 := None,
      1 \<mapsto> d1\<lparr>fd_cloexec := False\<rparr>, 2 \<mapsto> d2\<lparr>fd_cloexec := False\<rparr>)"
proof -
  from assms(1) obtain y1 y2 p1 p2 p3 where C: "c_io (sys_close K r1) p = (Ok y1, p1)" "fd_dup K w1 1 p1 = (Ok (), p2)"
    "c_io (sys_close K r2) p2 = (Ok y2, p3)" "fd_dup K w2 2 p3 = (Ok x, p')"
    by (auto simp: child_descriptors_def pipe_into_write_fd_def bindM_Ok)
  have ne: "w1 \<noteq> 1" "w2 \<noteq> 2" using assms(2) by auto
  note p1 = close_Ok [OF C(1)] and p3 = close_Ok [OF C(3)]
  from fd_dup_Ok [OF C(2) ne(1)] obtain e1 where e1: "ps_table p1 w1 = Some e1"
    "ps_table p2 = (ps_table p1)(1 \<mapsto> e1\<lparr>fd_cloexec := False\<rparr>, w1 := None)" .
  from fd_dup_Ok [OF C(4) ne(2)] obtain e2 where e2: "ps_table p3 w2 = Some e2"
    "ps_table p' = (ps_table p3)(2 \<mapsto> e2\<lparr>fd_cloexec := False\<rparr>, w2 := None)" .
  have "e1 = d1" "e2 = d2" using e1 e2(1) assms(2-4) by (auto simp: p1 p3)
  with e1(2) e2(2) assms(2) show ?thesis by (auto simp: p1 p3 fun_eq_iff)
qed

lemma parent_wiring:
  assumes "parent_descriptors K (r1, w1) (r2, w2) p = (Ok (pidfd, so, se), p')"
    and "distinct [r1, w1, r2, w2]" and "ps_table p r1 = Some d1" and "ps_table p r2 = Some d2"
    and "ps_table p w1 \<noteq> None" and "ps_table p w2 \<noteq> None" and "fd_file d1 \<noteq> fd_file d2"
  shows "so = r1" and "se = r2" and "ps_table p pidfd = None" and "ps_created p' = Suc (ps_created p)"
    and "ps_table p' = (ps_table p)(w1 := None, w2 := None, pidfd \<mapsto> \<lparr>fd_file = PidFile (ps_created p), fd_cloexec = True\<rparr>)"
    and "ps_flags p' = (ps_flags p)(fd_file d1 := set_nonblock (ps_flags p (fd_file d1)), fd_file d2 := set_nonblock (ps_flags p (fd_file d2)))"
proof -
  from assms(1) obtain i p1 p2 where C: "c_io (sys_open_new K PidFile True) p = (Ok i, p1)" "pidfd = nat i"
    "pipe_into_nonblocking_read_fd K (r1, w1) p1 = (Ok so, p2)" "pipe_into_nonblocking_read_fd K (r2, w2) p2 = (Ok se, p')"
    by (auto simp: parent_descriptors_def bindM_Ok)
  note O = open_new_Ok [OF C(1)]
  from O(1) C(2) show free: "ps_table p pidfd = None" by simp
  with assms(3-6) have ne: "pidfd \<noteq> r1" "pidfd \<noteq> r2" "pidfd \<noteq> w1" "pidfd \<noteq> w2" by auto
  have d1: "ps_table p1 r1 = Some d1" using O(2) C(2) assms(3) ne by simp
  note N1 = nonblocking_Ok [OF C(3) d1]
  have r1: "r1 \<noteq> w1" "r2 \<noteq> w2" using assms(2) by auto
  have d2: "ps_table p2 r2 = Some d2" using N1(2) r1 O(2) C(2) assms(2,4) ne by auto
  note N1 = N1 [OF r1(1)] and N2 = nonblocking_Ok [OF C(4) d2 r1(2)]
  from N1 N2 show "so = r1" "se = r2" by simp_all
  from N1(3) N2(3) O(2) show "ps_created p' = Suc (ps_created p)" by simp
  from N1(2) N2(2) O(2) C(2) ne show "ps_table p' = (ps_table p)(w1 := None, w2 := None, pidfd \<mapsto> \<lparr>fd_file = PidFile (ps_created p), fd_cloexec = True\<rparr>)"
    by (auto simp: fun_eq_iff)
  from N1(4) N2(4) O(2) assms(7) show "ps_flags p' = (ps_flags p)(fd_file d1 := set_nonblock (ps_flags p (fd_file d1)), fd_file d2 := set_nonblock (ps_flags p (fd_file d2)))"
    by (auto simp: fun_eq_iff)
qed

lemma exec_of_closed:
  assumes "t r1 = None" "t w1 = None" "t r2 = None" "t w2 = None" and "distinct [r1, w1, r2, w2, a, b]"
    and "\<not> fd_cloexec d1" and "\<not> fd_cloexec d2"
  shows "exec_table ((t(r1 \<mapsto> e1, w1 \<mapsto> e2, r2 \<mapsto> e3, w2 \<mapsto> e4))(r1 := None, w1 := None, r2 := None, w2 := None, a \<mapsto> d1, b \<mapsto> d2))
    = (exec_table t)(a \<mapsto> d1, b \<mapsto> d2)"
  using assms by (auto simp: exec_table_def fun_eq_iff)

text \<open>
  A start wires the standard streams: the program runs with exactly the descriptors of the
  daemon that are not close-on-exec, with the write end of the one new pipe as its stdout and of
  the other as its stderr and no other end of them; the daemon is left with exactly three new
  descriptors, the pidfd and the two read ends, both non-blocking.
\<close>

lemma start_wires_streams:
  assumes "start_descriptors K (SpawnedAs Kc) p = (Ok f, p')" and "ps_table p 1 \<noteq> None" and "ps_table p 2 \<noteq> None"
    and "n = ps_created p"
  shows "(af_program f = None \<or> af_program f = Some ((exec_table (ps_table p))
            (1 \<mapsto> \<lparr>fd_file = PipeWrite n, fd_cloexec = False\<rparr>, 2 \<mapsto> \<lparr>fd_file = PipeWrite (n + 1), fd_cloexec = False\<rparr>)))
    \<and> ps_table p' = (ps_table p)(af_stdout f \<mapsto> \<lparr>fd_file = PipeRead n, fd_cloexec = False\<rparr>,
         af_stderr f \<mapsto> \<lparr>fd_file = PipeRead (n + 1), fd_cloexec = False\<rparr>, af_pidfd f \<mapsto> \<lparr>fd_file = PidFile (n + 2), fd_cloexec = True\<rparr>)
    \<and> distinct [af_stdout f, af_stderr f, af_pidfd f] \<and> list_all (\<lambda>fd. ps_table p fd = None) [af_stdout f, af_stderr f, af_pidfd f]
    \<and> ps_flags p' = (ps_flags p)(PipeRead n := set_nonblock (ps_flags p (PipeRead n)), PipeRead (n + 1) := set_nonblock (ps_flags p (PipeRead (n + 1))))
    \<and> ps_created p' = n + 3"
proof -
  from assms(1) obtain r1 w1 r2 w2 p1 p2 pidfd so se where P: "pipe_new K p = (Ok (r1, w1), p1)" "pipe_new K p1 = (Ok (r2, w2), p2)"
    and par: "parent_descriptors K (r1, w1) (r2, w2) p2 = (Ok (pidfd, so, se), p')"
    and f: "f = \<lparr>af_program = (case child_descriptors Kc (r1, w1) (r2, w2) p2 of
        (Ok _, child) \<Rightarrow> Some (exec_table (ps_table child)) | _ \<Rightarrow> None), af_pidfd = pidfd, af_stdout = so, af_stderr = se\<rparr>"
    by (auto simp: start_descriptors_def bindM_Ok Let_def)
  note P1 = pipe_new_Ok [OF P(1)] and P2 = pipe_new_Ok [OF P(2)]
  let ?t = "ps_table p"
  from P1(4) have t1: "ps_table p1 = ?t(r1 \<mapsto> \<lparr>fd_file = PipeRead n, fd_cloexec = False\<rparr>, w1 \<mapsto> \<lparr>fd_file = PipeWrite n, fd_cloexec = False\<rparr>)"
    "ps_created p1 = n + 1" by (simp_all add: assms(4))
  have fresh: "?t r2 = None" "?t w2 = None" "r2 \<noteq> r1" "r2 \<noteq> w1" "w2 \<noteq> r1" "w2 \<noteq> w1"
    using P2(1,2) t1(1) by (auto split: if_splits)
  with P1(1,2,3) P2(3) assms(2,3) have d: "distinct [r1, w1, r2, w2, 1, 2]" by auto
  from P2(4) t1 have t2: "ps_table p2 = ?t(r1 \<mapsto> \<lparr>fd_file = PipeRead n, fd_cloexec = False\<rparr>, w1 \<mapsto> \<lparr>fd_file = PipeWrite n, fd_cloexec = False\<rparr>,
      r2 \<mapsto> \<lparr>fd_file = PipeRead (n + 1), fd_cloexec = False\<rparr>, w2 \<mapsto> \<lparr>fd_file = PipeWrite (n + 1), fd_cloexec = False\<rparr>)"
    "ps_created p2 = n + 2" "ps_flags p2 = ps_flags p" using P1(4) by simp_all
  from d have d4: "distinct [r1, w1, r2, w2]" by simp
  have look: "ps_table p2 r1 = Some \<lparr>fd_file = PipeRead n, fd_cloexec = False\<rparr>" "ps_table p2 r2 = Some \<lparr>fd_file = PipeRead (n + 1), fd_cloexec = False\<rparr>"
    "ps_table p2 w1 = Some \<lparr>fd_file = PipeWrite n, fd_cloexec = False\<rparr>" "ps_table p2 w2 = Some \<lparr>fd_file = PipeWrite (n + 1), fd_cloexec = False\<rparr>"
    using d4 by (auto simp: t2(1))
  from look have W: "ps_table p2 w1 \<noteq> None" "ps_table p2 w2 \<noteq> None" by simp_all
  note Q = parent_wiring [OF par d4 look(1,2) W]
  have child: "af_program f = None \<or> af_program f = Some ((exec_table ?t)
      (1 \<mapsto> \<lparr>fd_file = PipeWrite n, fd_cloexec = False\<rparr>, 2 \<mapsto> \<lparr>fd_file = PipeWrite (n + 1), fd_cloexec = False\<rparr>))"
  proof (cases "child_descriptors Kc (r1, w1) (r2, w2) p2")
    case (Pair rc pc)
    show ?thesis
    proof (cases rc)
      case (Ok u)
      with Pair have "child_descriptors Kc (r1, w1) (r2, w2) p2 = (Ok u, pc)" by simp
      from child_wiring [OF this d look(3,4)] have "exec_table (ps_table pc) = (exec_table ?t)
          (1 \<mapsto> \<lparr>fd_file = PipeWrite n, fd_cloexec = False\<rparr>, 2 \<mapsto> \<lparr>fd_file = PipeWrite (n + 1), fd_cloexec = False\<rparr>)"
        using exec_of_closed [OF P1(1,2) fresh(1,2) d] by (simp add: t2(1))
      with Pair Ok show ?thesis by (simp add: f)
    qed (simp_all add: f Pair)
  qed
  have fs: "af_stdout f = r1" "af_stderr f = r2" "af_pidfd f = pidfd" using Q(1,2) by (simp_all add: f)
  have pid: "ps_table p2 pidfd = None" using Q(3) by simp
  then have pne: "pidfd \<noteq> r1" "pidfd \<noteq> r2" "pidfd \<noteq> w1" "pidfd \<noteq> w2" using look by auto
  with pid have pfree: "?t pidfd = None" by (simp add: t2(1))
  have tab: "ps_table p' = ?t(r1 \<mapsto> \<lparr>fd_file = PipeRead n, fd_cloexec = False\<rparr>,
         r2 \<mapsto> \<lparr>fd_file = PipeRead (n + 1), fd_cloexec = False\<rparr>, pidfd \<mapsto> \<lparr>fd_file = PidFile (n + 2), fd_cloexec = True\<rparr>)"
    using Q(5) pne d4 P1(2) fresh(2) by (auto simp: t2 fun_eq_iff)
  show ?thesis
    unfolding fs using child tab Q(4,6) pne pfree P1(1) fresh(1,3) by (auto simp: t2)
qed

text \<open>
  A pipe that is not yet converted is a pair of numbers that nothing closes: a start whose spawn
  fails leaves all four descriptors open.
\<close>

lemma failed_spawn_leaks_pipes:
  assumes "start_descriptors K (SpawnFailed e) p = (Err e', p')" and "finite (dom (ps_table p))"
    and "pipe_new K p = (Ok pp1, p1)" and "pipe_new K p1 = (Ok pp2, p2)"
  shows "e' = e \<and> card (dom (ps_table p')) = card (dom (ps_table p)) + 4"
proof -
  obtain r1 w1 r2 w2 where pp: "pp1 = (r1, w1)" "pp2 = (r2, w2)" by force
  note P = pipe_new_Ok [OF assms(3) [unfolded pp]] and Q = pipe_new_Ok [OF assms(4) [unfolded pp]]
  from assms(1,3,4) have e: "e' = e" "p' = p2" by (auto simp: start_descriptors_def bindM_def expect_run_def)
  have c1: "finite (dom (ps_table p1))" "card (dom (ps_table p1)) = card (dom (ps_table p)) + 2"
    using assms(2) P(1,2,3) by (simp_all add: P(4) card_insert_if domIff)
  have "card (dom (ps_table p2)) = card (dom (ps_table p1)) + 2"
    using c1(1) Q(1,2,3) by (simp add: Q(4) card_insert_if domIff)
  with c1 e show ?thesis by simp
qed

section \<open>All apps\<close>

text \<open>The descriptors of a table that write to pipe \<open>k\<close>.\<close>

definition writers :: "fd_table \<Rightarrow> nat \<Rightarrow> nat set" where
  "writers t k = {fd. \<exists>d. t fd = Some d \<and> fd_file d = PipeWrite k}"

text \<open>The daemon before and after it has started an app: stdout and stderr are open, it writes to no pipe.\<close>

definition fds_ok :: "process \<Rightarrow> bool" where
  "fds_ok p \<longleftrightarrow> ps_table p 1 \<noteq> None \<and> ps_table p 2 \<noteq> None \<and> (\<forall>k. writers (ps_table p) k = {})"

lemma writers_upd: "writers (t(fd \<mapsto> d)) k = (if fd_file d = PipeWrite k then insert fd (writers t k) else writers t k - {fd})"
  by (auto simp: writers_def)

lemma writers_exec: "writers t k = {} \<Longrightarrow> writers (exec_table t) k = {}"
  by (auto simp: writers_def exec_table_def split: option.splits if_splits)

lemma writers_program:
  assumes "\<forall>k. writers t k = {}"
  shows "writers ((exec_table t)(1 \<mapsto> \<lparr>fd_file = PipeWrite n, fd_cloexec = False\<rparr>, 2 \<mapsto> \<lparr>fd_file = PipeWrite (n + 1), fd_cloexec = False\<rparr>)) k
    = (if k = n then {1} else if k = n + 1 then {2} else {})"
  using assms by (simp add: writers_upd writers_exec)

text \<open>One app: four new descriptors, four new files.\<close>

lemma create_step:
  assumes "create_descriptors K spawn p = (Ok (f, m), p')" and "fds_ok p" and "n = ps_created p"
  shows "(af_program f = None \<or> af_program f = Some ((exec_table (ps_table p))
            (1 \<mapsto> \<lparr>fd_file = PipeWrite n, fd_cloexec = False\<rparr>, 2 \<mapsto> \<lparr>fd_file = PipeWrite (n + 1), fd_cloexec = False\<rparr>)))"
    and "ps_table p' = (ps_table p)(af_stdout f \<mapsto> \<lparr>fd_file = PipeRead n, fd_cloexec = False\<rparr>,
         af_stderr f \<mapsto> \<lparr>fd_file = PipeRead (n + 1), fd_cloexec = False\<rparr>, af_pidfd f \<mapsto> \<lparr>fd_file = PidFile (n + 2), fd_cloexec = True\<rparr>,
         m \<mapsto> \<lparr>fd_file = MemFile (n + 3), fd_cloexec = False\<rparr>)"
    and "distinct [af_stdout f, af_stderr f, af_pidfd f, m]"
    and "\<forall>fd \<in> {af_stdout f, af_stderr f, af_pidfd f, m}. ps_table p fd = None"
    and "ps_created p' = n + 4" and "fds_ok p'"
proof -
  from assms(1) obtain p1 i where S: "start_descriptors K spawn p = (Ok f, p1)" and M: "c_io (sys_open_new K MemFile False) p1 = (Ok i, p')" "m = nat i"
    by (auto simp: create_descriptors_def memfd_create_def bindM_Ok)
  from S obtain Kc where "spawn = SpawnedAs Kc"
    by (cases spawn) (auto simp: start_descriptors_def bindM_Ok)
  with S have S: "start_descriptors K (SpawnedAs Kc) p = (Ok f, p1)" by simp
  from assms(2) have std: "ps_table p 1 \<noteq> None" "ps_table p 2 \<noteq> None" by (simp_all add: fds_ok_def)
  note W = start_wires_streams [OF S std assms(3)] and O = open_new_Ok [OF M(1)]
  from W show "(af_program f = None \<or> af_program f = Some ((exec_table (ps_table p))
            (1 \<mapsto> \<lparr>fd_file = PipeWrite n, fd_cloexec = False\<rparr>, 2 \<mapsto> \<lparr>fd_file = PipeWrite (n + 1), fd_cloexec = False\<rparr>)))" by blast
  from W O(2) M(2) show tab: "ps_table p' = (ps_table p)(af_stdout f \<mapsto> \<lparr>fd_file = PipeRead n, fd_cloexec = False\<rparr>,
         af_stderr f \<mapsto> \<lparr>fd_file = PipeRead (n + 1), fd_cloexec = False\<rparr>, af_pidfd f \<mapsto> \<lparr>fd_file = PidFile (n + 2), fd_cloexec = True\<rparr>,
         m \<mapsto> \<lparr>fd_file = MemFile (n + 3), fd_cloexec = False\<rparr>)" by simp
  have "ps_table p1 m = None" using O(1) M(2) by simp
  with W show d: "distinct [af_stdout f, af_stderr f, af_pidfd f, m]" "\<forall>fd \<in> {af_stdout f, af_stderr f, af_pidfd f, m}. ps_table p fd = None"
    by (auto split: if_splits)
  from W O(2) show "ps_created p' = n + 4" by simp
  from assms(2) show "fds_ok p'" by (auto simp: fds_ok_def tab writers_upd)
qed

text \<open>What the daemon holds when it starts some apps, it still holds afterwards, and so do they.\<close>

lemma create_all_keeps:
  assumes "create_all K spawns p = (Ok fs, p')" and "fds_ok p" and "ps_table p fd = Some d"
  shows "ps_table p' fd = Some d"
    and "(f, m) \<in> set fs \<Longrightarrow> af_program f = Some t \<Longrightarrow> fd \<noteq> 1 \<Longrightarrow> fd \<noteq> 2 \<Longrightarrow> \<not> fd_cloexec d \<Longrightarrow> t fd = Some d"
    and "fds_ok p'"
  using assms
proof (induction spawns arbitrary: p fs)
  case (Cons spawn spawns)
  {
    case 1
    from this(1) obtain f1 m1 p1 fs1 where C: "create_descriptors K spawn p = (Ok (f1, m1), p1)" "create_all K spawns p1 = (Ok fs1, p')"
      by (auto simp: bindM_Ok)
    note S = create_step [OF C(1) 1(2) refl]
    from S(2,4) 1(3) have "ps_table p1 fd = Some d" by auto
    from Cons.IH(1) [OF C(2) S(6) this] show ?case .
  next
    case 2
    from this(6) obtain f1 m1 p1 fs1 where C: "create_descriptors K spawn p = (Ok (f1, m1), p1)" "create_all K spawns p1 = (Ok fs1, p')"
      and fs: "fs = (f1, m1) # fs1" by (auto simp: bindM_Ok)
    note S = create_step [OF C(1) 2(7) refl]
    from S(2,4) 2(8) have k: "ps_table p1 fd = Some d" by auto
    show ?case
    proof (cases "(f, m) = (f1, m1)")
      case True
      with S(1) 2(2-5,8) show ?thesis by (auto simp: exec_table_def)
    next
      case False
      with fs 2(1) have "(f, m) \<in> set fs1" by auto
      from Cons.IH(2) [OF this 2(2-5) C(2) S(6) k] show ?thesis .
    qed
  next
    case 3
    from this(1) obtain f1 m1 p1 fs1 where C: "create_descriptors K spawn p = (Ok (f1, m1), p1)" "create_all K spawns p1 = (Ok fs1, p')"
      by (auto simp: bindM_Ok)
    note S = create_step [OF C(1) 3(2) refl]
    from S(2,4) 3(3) have "ps_table p1 fd = Some d" by auto
    from Cons.IH(3) [OF C(2) S(6) this] show ?case .
  }
qed simp_all

lemma create_all_no_old_writers:
  assumes "create_all K spawns p = (Ok fs, p')" and "fds_ok p" and "(f, m) \<in> set fs" and "af_program f = Some t" and "k < ps_created p"
  shows "writers t k = {}"
  using assms
proof (induction spawns arbitrary: p fs)
  case (Cons spawn spawns)
  from Cons.prems(1) obtain f1 m1 p1 fs1 where C: "create_descriptors K spawn p = (Ok (f1, m1), p1)" "create_all K spawns p1 = (Ok fs1, p')"
    and fs: "fs = (f1, m1) # fs1" by (auto simp: bindM_Ok)
  note S = create_step [OF C(1) Cons.prems(2) refl]
  show ?case
  proof (cases "(f, m) = (f1, m1)")
    case True
    with S(1) Cons.prems(4) have t: "t = (exec_table (ps_table p))(1 \<mapsto> \<lparr>fd_file = PipeWrite (ps_created p), fd_cloexec = False\<rparr>,
        2 \<mapsto> \<lparr>fd_file = PipeWrite (ps_created p + 1), fd_cloexec = False\<rparr>)" by simp
    from Cons.prems(2) have "\<forall>k. writers (ps_table p) k = {}" by (simp add: fds_ok_def)
    from writers_program [OF this] Cons.prems(5) show ?thesis by (simp only: t split: if_split) simp
  next
    case False
    with fs Cons.prems(3) have "(f, m) \<in> set fs1" by auto
    from Cons.IH [OF C(2) S(6) this Cons.prems(4)] Cons.prems(5) S(5) show ?thesis by simp
  qed
qed simp

text \<open>The i-th app is created between those before it and those after it.\<close>

lemma create_all_split:
  assumes "create_all K spawns p = (Ok fs, p')" and "fds_ok p" and "i < length fs" and "fs ! i = (f, m)"
  obtains spawn rest pi pi' where "create_descriptors K spawn pi = (Ok (f, m), pi')" and "fds_ok pi"
    and "ps_created pi = ps_created p + 4 * i" and "create_all K rest pi' = (Ok (drop (Suc i) fs), p')"
  using assms
proof (induction spawns arbitrary: p fs i thesis)
  case (Cons spawn spawns)
  from Cons.prems(2) obtain f1 m1 p1 fs1 where C: "create_descriptors K spawn p = (Ok (f1, m1), p1)" "create_all K spawns p1 = (Ok fs1, p')"
    and fs: "fs = (f1, m1) # fs1" by (auto simp: bindM_Ok)
  note S = create_step [OF C(1) Cons.prems(3) refl]
  show ?case
  proof (cases i)
    case 0
    with Cons.prems(5) fs C show ?thesis by (intro Cons.prems(1) [of spawn p p1 spawns] Cons.prems(3)) simp_all
  next
    case (Suc i')
    with Cons.prems(4,5) fs have "i' < length fs1" "fs1 ! i' = (f, m)" by simp_all
    from Cons.IH [OF _ C(2) S(6) this] obtain spawn' rest pi pi' where "create_descriptors K spawn' pi = (Ok (f, m), pi')" "fds_ok pi"
      "ps_created pi = ps_created p1 + 4 * i'" "create_all K rest pi' = (Ok (drop (Suc i') fs1), p')" .
    with S(5) show ?thesis by (intro Cons.prems(1) [of spawn' pi pi' rest]) (simp_all add: fs Suc)
  qed
qed simp

lemma in_set_after: "j < length xs \<Longrightarrow> i < j \<Longrightarrow> xs ! j \<in> set (drop (Suc i) xs)"
  using nth_mem [of "j - Suc i" "drop (Suc i) xs"] by simp

text \<open>A daemon with its standard streams open and a kernel that refuses nothing, for the witnesses.\<close>

definition sample_kernel :: fd_kernel where
  "sample_kernel = \<lparr>fk_error = \<lambda>_. None, fk_limit = 16\<rparr>"

definition sample_process :: process where
  "sample_process = \<lparr>ps_table = (\<lambda>fd. if fd < 3 then Some \<lparr>fd_file = OtherFile fd, fd_cloexec = False\<rparr> else None),
     ps_flags = (\<lambda>_. 0), ps_created = 0, ps_calls = 0\<rparr>"

lemma lowest_unused_exists: "finite (dom t) \<Longrightarrow> card (dom t) < limit \<Longrightarrow> \<exists>n. lowest_unused limit t = Some n"
proof (rule ccontr)
  assume fin: "finite (dom t)" and card: "card (dom t) < limit" and no: "\<not> (\<exists>n. lowest_unused limit t = Some n)"
  from no have "{0..<limit} \<subseteq> dom t" by (auto simp: lowest_unused_def find_None_iff)
  from card_mono [OF fin this] card show False by simp
qed

text \<open>Without errors and with descriptors to spare, an app is created and its program executed.\<close>

definition no_error :: "fd_kernel \<Rightarrow> bool" where
  "no_error K \<longleftrightarrow> (\<forall>n. fk_error K n = None)"

lemma no_error_answer [simp]: "no_error K \<Longrightarrow> fk_error K n = None" "no_error K \<Longrightarrow> answer_call K p r = (Errno 0, r)"
  by (simp_all add: no_error_def answer_call_def)

lemma bindM_step: "m c = (Ok a, c') \<Longrightarrow> f a c' = r \<Longrightarrow> bindM m f c = r"
  by (simp add: bindM_def)

lemma expect_run_step: "x c = (Ok a, c') \<Longrightarrow> expect_run m x c = (Ok a, c')"
  by simp

lemma close_succeeds: "no_error K \<Longrightarrow> ps_table p fd \<noteq> None \<Longrightarrow>
    c_io (sys_close K fd) p = (Ok 0, called (p\<lparr>ps_table := (ps_table p)(fd := None)\<rparr>))"
  by (simp add: c_io_def sys_close_def to_ioresult_def)

lemma open_new_succeeds:
  assumes "no_error K" and "finite (dom (ps_table p))" and "card (dom (ps_table p)) < fk_limit K"
  shows "\<exists>x p'. c_io (sys_open_new K f ce) p = (Ok x, p')"
  using assms lowest_unused_exists [OF assms(2,3)] by (auto simp: c_io_def sys_open_new_def to_ioresult_def)

lemma pipe_new_succeeds:
  assumes "no_error K" and "finite (dom (ps_table p))" and "card (dom (ps_table p)) + 1 < fk_limit K"
  shows "\<exists>x p'. pipe_new K p = (Ok x, p')"
proof -
  from assms(2,3) lowest_unused_exists obtain r where r: "lowest_unused (fk_limit K) (ps_table p) = Some r"
    by (metis add_lessD1)
  let ?t = "(ps_table p)(r \<mapsto> \<lparr>fd_file = PipeRead (ps_created p), fd_cloexec = False\<rparr>)"
  have "card (dom ?t) \<le> card (dom (ps_table p)) + 1" using assms(2) by (simp add: card_insert_if)
  with assms(2,3) lowest_unused_exists [of ?t "fk_limit K"] obtain w where "lowest_unused (fk_limit K) ?t = Some w" by auto
  with r assms(1) show ?thesis by (simp add: pipe_new_def sys_pipe_def Let_def to_ioresult_def)
qed

lemma getfl_succeeds: "no_error K \<Longrightarrow> ps_table p fd = Some d \<Longrightarrow> 0 \<le> ps_flags p (fd_file d) \<Longrightarrow>
    c_io (sys_getfl K fd) p = (Ok (ps_flags p (fd_file d)), called p)"
  by (simp add: c_io_def sys_getfl_def to_ioresult_def)

lemma setfl_succeeds: "no_error K \<Longrightarrow> ps_table p fd = Some d \<Longrightarrow>
    c_io (sys_setfl K fd flags) p = (Ok 0, called (p\<lparr>ps_flags := (ps_flags p)(fd_file d := flags)\<rparr>))"
  by (simp add: c_io_def sys_setfl_def to_ioresult_def)

lemma nonblocking_succeeds:
  assumes "no_error K" and "ps_table p r = Some d" and "ps_table p w \<noteq> None" and "r \<noteq> w" and "0 \<le> ps_flags p (fd_file d)"
  shows "\<exists>p'. pipe_into_nonblocking_read_fd K (r, w) p = (Ok r, p')"
proof -
  define p1 where "p1 = called (p\<lparr>ps_table := (ps_table p)(w := None)\<rparr>)"
  have r: "ps_table p1 r = Some d" "0 \<le> ps_flags p1 (fd_file d)" using assms(2,4,5) by (simp_all add: p1_def)
  then have "ps_table (called p1) r = Some d" by simp
  with assms(1,3) r show ?thesis
    by (simp add: pipe_into_nonblocking_read_fd_def pipe_into_read_fd_def bindM_def close_succeeds p1_def [symmetric] ret_def
        getfl_succeeds setfl_succeeds)
qed

lemma fd_dup_succeeds:
  assumes "no_error K" and "ps_table p src \<noteq> None"
  shows "\<exists>p'. fd_dup K src dst p = (Ok (), p')"
  using assms by (auto simp: fd_dup_def c_io_def sys_dup2_def to_ioresult_def)

lemma child_succeeds:
  assumes "no_error K" and "distinct [r1, w1, r2, w2, 1, 2]" and "\<forall>fd \<in> {r1, w1, r2, w2}. ps_table p fd \<noteq> None"
  shows "\<exists>p'. child_descriptors K (r1, w1) (r2, w2) p = (Ok (), p')"
proof -
  define p1 where "p1 = called (p\<lparr>ps_table := (ps_table p)(r1 := None)\<rparr>)"
  have w1: "ps_table p1 w1 \<noteq> None" using assms(2,3) by (auto simp: p1_def)
  from fd_dup_succeeds [OF assms(1) w1] obtain p2 where p2: "fd_dup K w1 1 p1 = (Ok (), p2)" by blast
  have "w1 \<noteq> 1" using assms(2) by auto
  from fd_dup_Ok [OF p2 this] obtain d where t2: "ps_table p2 = (ps_table p1)(1 \<mapsto> d\<lparr>fd_cloexec := False\<rparr>, w1 := None)" .
  have r2: "ps_table p2 r2 \<noteq> None" "ps_table p2 w2 \<noteq> None" using assms(2,3) by (auto simp: t2 p1_def)
  define p3 where "p3 = called (p2\<lparr>ps_table := (ps_table p2)(r2 := None)\<rparr>)"
  have "ps_table p3 w2 \<noteq> None" using r2 assms(2) by (auto simp: p3_def)
  from fd_dup_succeeds [OF assms(1) this] obtain p4 where "fd_dup K w2 2 p3 = (Ok (), p4)" by blast
  moreover have "c_io (sys_close K r1) p = (Ok 0, p1)" unfolding p1_def using assms(1,3) by (intro close_succeeds) auto
  moreover have "c_io (sys_close K r2) p2 = (Ok 0, p3)" unfolding p3_def using assms(1) r2(1) by (rule close_succeeds)
  ultimately show ?thesis using p2 by (simp add: child_descriptors_def pipe_into_write_fd_def bindM_def ret_def)
qed

lemma parent_succeeds:
  assumes "no_error K" and "distinct [r1, w1, r2, w2]" and "ps_table p r1 = Some d1" and "ps_table p r2 = Some d2"
    and "ps_table p w1 \<noteq> None" and "ps_table p w2 \<noteq> None" and "fd_file d1 \<noteq> fd_file d2"
    and "\<forall>f. 0 \<le> ps_flags p f" and "finite (dom (ps_table p))" and "card (dom (ps_table p)) < fk_limit K"
  shows "\<exists>x p'. parent_descriptors K (r1, w1) (r2, w2) p = (Ok x, p')"
proof -
  from open_new_succeeds [OF assms(1,9,10)] obtain i p1 where C: "c_io (sys_open_new K PidFile True) p = (Ok i, p1)" by blast
  note O = open_new_Ok [OF C]
  from O(1) assms(3-6) have ne: "nat i \<noteq> r1" "nat i \<noteq> r2" "nat i \<noteq> w1" "nat i \<noteq> w2" by auto
  have t1: "ps_table p1 r1 = Some d1" "ps_table p1 r2 = Some d2" "ps_table p1 w1 \<noteq> None" "ps_table p1 w2 \<noteq> None"
    "\<forall>f. 0 \<le> ps_flags p1 f" using assms(3-6,8) ne by (simp_all add: O(2))
  have rw: "r1 \<noteq> w1" "r2 \<noteq> w2" using assms(2) by auto
  from nonblocking_succeeds [OF assms(1) t1(1,3) rw(1)] t1(5) obtain p2 where N: "pipe_into_nonblocking_read_fd K (r1, w1) p1 = (Ok r1, p2)" by blast
  note N1 = nonblocking_Ok [OF N t1(1) rw(1)]
  have w1: "r2 \<noteq> w1" "w2 \<noteq> w1" using assms(2) by auto
  have t2: "ps_table p2 r2 = Some d2" "ps_table p2 w2 \<noteq> None" "0 \<le> ps_flags p2 (fd_file d2)"
    unfolding N1(2,4) using t1(2,4,5) w1 assms(7) by simp_all
  from nonblocking_succeeds [OF assms(1) t2(1,2) rw(2) t2(3)] obtain p3 where N3: "pipe_into_nonblocking_read_fd K (r2, w2) p2 = (Ok r2, p3)" by blast
  have "parent_descriptors K (r1, w1) (r2, w2) p = (Ok (nat i, r1, r2), p3)"
    unfolding parent_descriptors_def
    by (rule bindM_step, rule C, rule bindM_step, rule expect_run_step, rule N, rule bindM_step, rule expect_run_step, rule N3) (simp add: ret_def)
  then show ?thesis by blast
qed

definition roomy :: "fd_kernel \<Rightarrow> process \<Rightarrow> nat \<Rightarrow> bool" where
  "roomy K p n \<longleftrightarrow> finite (dom (ps_table p)) \<and> card (dom (ps_table p)) + n < fk_limit K \<and> (\<forall>f. 0 \<le> ps_flags p f)"

lemma create_succeeds:
  assumes "no_error K" and "no_error Kc" and "fds_ok p" and "roomy K p 5"
  shows "\<exists>f m p'. create_descriptors K (SpawnedAs Kc) p = (Ok (f, m), p') \<and> af_program f \<noteq> None"
proof -
  let ?t = "ps_table p" and ?n = "ps_created p"
  have fin: "finite (dom ?t)" "card (dom ?t) + 5 < fk_limit K" "\<forall>f. 0 \<le> ps_flags p f" using assms(4) by (simp_all add: roomy_def)
  from fin(2) have "card (dom ?t) + 1 < fk_limit K" by simp
  from pipe_new_succeeds [OF assms(1) fin(1) this] obtain r1 w1 p1 where P: "pipe_new K p = (Ok (r1, w1), p1)" by auto
  note P1 = pipe_new_Ok [OF P]
  have c1: "finite (dom (ps_table p1))" "card (dom (ps_table p1)) = card (dom ?t) + 2"
    using fin(1) P1(1,2,3) by (simp_all add: P1(4) card_insert_if domIff)
  with fin(2) have "card (dom (ps_table p1)) + 1 < fk_limit K" by simp
  from pipe_new_succeeds [OF assms(1) c1(1) this] obtain r2 w2 p2 where Q: "pipe_new K p1 = (Ok (r2, w2), p2)" by auto
  note P2 = pipe_new_Ok [OF Q]
  have c2: "finite (dom (ps_table p2))" "card (dom (ps_table p2)) = card (dom ?t) + 4"
    using c1 P2(1,2,3) by (simp_all add: P2(4) card_insert_if domIff)
  have d: "distinct [r1, w1, r2, w2, 1, 2]" using P1 P2(1,2,3) assms(3) by (auto simp: fds_ok_def split: if_splits)
  have look: "ps_table p2 r1 = Some \<lparr>fd_file = PipeRead ?n, fd_cloexec = False\<rparr>" "ps_table p2 r2 = Some \<lparr>fd_file = PipeRead (?n + 1), fd_cloexec = False\<rparr>"
    "ps_table p2 w1 \<noteq> None" "ps_table p2 w2 \<noteq> None" "\<forall>f. 0 \<le> ps_flags p2 f"
    using d fin(3) by (auto simp: P2(4) P1(4))
  from look have "\<forall>fd \<in> {r1, w1, r2, w2}. ps_table p2 fd \<noteq> None" by simp
  from child_succeeds [OF assms(2) d this] obtain pc where child: "child_descriptors Kc (r1, w1) (r2, w2) p2 = (Ok (), pc)" by blast
  have d4: "distinct [r1, w1, r2, w2]" using d by simp
  have "card (dom (ps_table p2)) < fk_limit K" using c2(2) fin(2) by simp
  from parent_succeeds [OF assms(1) d4 look(1-4) _ look(5) c2(1) this] obtain x p3 where par: "parent_descriptors K (r1, w1) (r2, w2) p2 = (Ok x, p3)" by auto
  obtain pidfd so se where x: "x = (pidfd, so, se)" by (cases x)
  let ?f = "\<lparr>af_program = Some (exec_table (ps_table pc)), af_pidfd = pidfd, af_stdout = so, af_stderr = se\<rparr>"
  have start: "start_descriptors K (SpawnedAs Kc) p = (Ok ?f, p3)"
    unfolding start_descriptors_def
    by (rule bindM_step, rule expect_run_step, rule P, rule bindM_step, rule expect_run_step, rule Q)
      (simp add: child, rule bindM_step, rule par, simp add: x ret_def)
  have "ps_table p 1 \<noteq> None" "ps_table p 2 \<noteq> None" using assms(3) by (simp_all add: fds_ok_def)
  note W = start_wires_streams [OF start this refl]
  then have t3: "ps_table p3 = ?t(so \<mapsto> \<lparr>fd_file = PipeRead ?n, fd_cloexec = False\<rparr>, se \<mapsto> \<lparr>fd_file = PipeRead (?n + 1), fd_cloexec = False\<rparr>,
      pidfd \<mapsto> \<lparr>fd_file = PidFile (?n + 2), fd_cloexec = True\<rparr>)" by simp
  then have c3: "finite (dom (ps_table p3))" "card (dom (ps_table p3)) \<le> card (dom ?t) + 3"
    using fin(1) by (auto simp: card_insert_if)
  with fin(2) have "card (dom (ps_table p3)) < fk_limit K" by simp
  from open_new_succeeds [OF assms(1) c3(1) this, of MemFile False] obtain i p4 where M: "c_io (sys_open_new K MemFile False) p3 = (Ok i, p4)" by blast
  have "create_descriptors K (SpawnedAs Kc) p = (Ok (?f, nat i), p4)"
    unfolding create_descriptors_def by (rule bindM_step, rule start) (simp add: memfd_create_def bindM_def expect_run_def M ret_def)
  then show ?thesis by (intro exI) (rule conjI, assumption, simp)
qed

lemma create_roomy:
  assumes "create_descriptors K spawn p = (Ok (f, m), p')" and "fds_ok p" and "roomy K p (n + 4)"
  shows "roomy K p' n"
proof -
  note S = create_step [OF assms(1,2) refl]
  from S(3,4) have "card (dom (ps_table p')) \<le> card (dom (ps_table p)) + 4" and fin: "finite (dom (ps_table p'))"
    using assms(3) by (auto simp: S(2) roomy_def card_insert_if)
  moreover from assms(1) obtain p1 i where C: "start_descriptors K spawn p = (Ok f, p1)" "c_io (sys_open_new K MemFile False) p1 = (Ok i, p')"
    by (auto simp: create_descriptors_def memfd_create_def bindM_Ok)
  then obtain Kc where "start_descriptors K (SpawnedAs Kc) p = (Ok f, p1)"
    by (cases spawn) (auto simp: start_descriptors_def bindM_Ok)
  from start_wires_streams [OF this _ _ refl] assms(2) open_new_Ok(2) [OF C(2)]
  have "ps_flags p' = (ps_flags p)(PipeRead (ps_created p) := set_nonblock (ps_flags p (PipeRead (ps_created p))),
      PipeRead (ps_created p + 1) := set_nonblock (ps_flags p (PipeRead (ps_created p + 1))))"
    by (simp add: fds_ok_def)
  then have "\<forall>x. 0 \<le> ps_flags p' x" using assms(3) by (simp add: roomy_def set_nonblock_def O_NONBLOCK_def)
  ultimately show ?thesis using assms(3) by (simp add: roomy_def)
qed

text \<open>So a daemon with descriptors to spare creates all its apps.\<close>

lemma create_all_succeeds:
  assumes "no_error K" and "\<forall>Kc \<in> set Kcs. no_error Kc" and "fds_ok p" and "roomy K p (4 * length Kcs + 1)"
  shows "\<exists>fs p'. create_all K (map SpawnedAs Kcs) p = (Ok fs, p') \<and> length fs = length Kcs \<and> (\<forall>(f, m) \<in> set fs. af_program f \<noteq> None)"
  using assms(2-)
proof (induction Kcs arbitrary: p)
  case (Cons Kc Kcs)
  have "roomy K p 5" using Cons.prems(3) by (auto simp: roomy_def)
  with Cons.prems create_succeeds [OF assms(1), of Kc p] obtain f m p1 where
    C: "create_descriptors K (SpawnedAs Kc) p = (Ok (f, m), p1)" "af_program f \<noteq> None" by auto
  have "roomy K p1 (4 * length Kcs + 1)" using Cons.prems(3) by (intro create_roomy [OF C(1) Cons.prems(2)]) (simp add: add.commute)
  with Cons.IH [OF _ create_step(6) [OF C(1) Cons.prems(2) refl]] Cons.prems(1) obtain fs p' where
    A: "create_all K (map SpawnedAs Kcs) p1 = (Ok fs, p')" "length fs = length Kcs" "\<forall>(f, m) \<in> set fs. af_program f \<noteq> None" by auto
  have "create_all K (map SpawnedAs (Kc # Kcs)) p = (Ok ((f, m) # fs), p')"
    unfolding list.map create_all.simps by (rule bindM_step, rule C(1), rule bindM_step, rule A(1)) (simp add: ret_def)
  with A(2,3) C(2) show ?case by (intro exI [of _ "(f, m) # fs"] exI [of _ p']) simp
qed (simp add: ret_def)

lemma sample_two:
  obtains f m g mg p' t where "create_all sample_kernel (map SpawnedAs [sample_kernel, sample_kernel]) sample_process = (Ok [(f, m), (g, mg)], p')"
    and "af_program g = Some t" and "fds_ok sample_process" and "ps_created sample_process = 0"
proof -
  have ok: "no_error sample_kernel" by (simp add: no_error_def sample_kernel_def)
  have fds: "fds_ok sample_process" by (auto simp: fds_ok_def sample_process_def writers_def)
  have "dom (ps_table sample_process) = {0..<3}" by (auto simp: sample_process_def split: if_splits)
  then have "roomy sample_kernel sample_process 9" by (simp add: roomy_def sample_kernel_def) (simp add: sample_process_def)
  with create_all_succeeds [OF ok _ fds, of "[sample_kernel, sample_kernel]"] ok obtain fs p' where
    A: "create_all sample_kernel (map SpawnedAs [sample_kernel, sample_kernel]) sample_process = (Ok fs, p')"
    "length fs = 2" "\<forall>(f, m) \<in> set fs. af_program f \<noteq> None" by auto
  from A(2) obtain a b where "fs = [a, b]" by (auto simp: length_Suc_conv numeral_2_eq_2)
  moreover obtain f m g mg where "a = (f, m)" "b = (g, mg)" by force
  ultimately have fs: "fs = [(f, m), (g, mg)]" by simp
  with A(3) obtain t where "af_program g = Some t" by auto
  with A(1) fs fds show thesis by (intro that [of f m g mg p' t]) (simp_all add: sample_process_def)
qed

text \<open>
  C11. The output of an app is its own: however many apps the daemon has started, the write end of
  the pipe behind the stdout of the i-th is held by the program of that app alone, as its
  descriptor 1 (and for stderr, as its descriptor 2), neither by the program of any other app nor
  by the daemon, which holds the read end. So the end of an app is seen as the end of its output.
\<close>

theorem output_pipes_exclusive:
  assumes "create_all K spawns p = (Ok fs, p')" and "fds_ok p" and "n = ps_created p"
    and "i < length fs" and "fs ! i = (f, m)" and "j < length fs" and "fs ! j = (g, mg)" and "af_program g = Some t"
  shows "writers t (n + 4 * i) = (if i = j then {1} else {}) \<and> writers t (n + 4 * i + 1) = (if i = j then {2} else {})
    \<and> (\<forall>k. writers (ps_table p') k = {})
    \<and> ps_table p' (af_stdout f) = Some \<lparr>fd_file = PipeRead (n + 4 * i), fd_cloexec = False\<rparr>
    \<and> ps_table p' (af_stderr f) = Some \<lparr>fd_file = PipeRead (n + 4 * i + 1), fd_cloexec = False\<rparr>"
proof -
  obtain spawn rest pi pi' where I: "create_descriptors K spawn pi = (Ok (f, m), pi')" "fds_ok pi"
    "ps_created pi = n + 4 * i" "create_all K rest pi' = (Ok (drop (Suc i) fs), p')"
    by (rule create_all_split [OF assms(1,2,4,5)]) (simp only: assms(3))
  note S = create_step [OF I(1,2) I(3) [symmetric]]
  obtain spawnj restj pj pj' where J: "create_descriptors K spawnj pj = (Ok (g, mg), pj')" "fds_ok pj"
    "ps_created pj = n + 4 * j"
    by (rule create_all_split [OF assms(1,2,6,7)]) (simp only: assms(3))
  from J(2) have "\<forall>k. writers (ps_table pj) k = {}" by (simp add: fds_ok_def)
  note T = writers_program [OF this, of "n + 4 * j"]
  from create_step(1) [OF J(1,2) J(3) [symmetric]] assms(8) have t: "t = (exec_table (ps_table pj))
      (1 \<mapsto> \<lparr>fd_file = PipeWrite (n + 4 * j), fd_cloexec = False\<rparr>, 2 \<mapsto> \<lparr>fd_file = PipeWrite (n + 4 * j + 1), fd_cloexec = False\<rparr>)" by simp
  have "n + 4 * i \<noteq> n + 4 * j + 1" "n + 4 * i + 1 \<noteq> n + 4 * j" by presburger+
  then have W: "writers t (n + 4 * i) = (if i = j then {1} else {}) \<and> writers t (n + 4 * i + 1) = (if i = j then {2} else {})"
    unfolding t T by auto
  have out: "ps_table pi' (af_stdout f) = Some \<lparr>fd_file = PipeRead (n + 4 * i), fd_cloexec = False\<rparr>"
    "ps_table pi' (af_stderr f) = Some \<lparr>fd_file = PipeRead (n + 4 * i + 1), fd_cloexec = False\<rparr>" using S(2,3) by auto
  from create_all_keeps(1,3) [OF I(4) S(6)] out show ?thesis using W by (auto simp: fds_ok_def)
qed

lemma output_pipes_exclusive_witness:
  "\<exists>fs p' g t. create_all sample_kernel (map SpawnedAs [sample_kernel, sample_kernel]) sample_process = (Ok fs, p')
    \<and> fst (fs ! 1) = g \<and> af_program g = Some t \<and> writers t 0 = {} \<and> writers t 4 = {1} \<and> writers t 5 = {2}"
proof -
  obtain f m g mg p' t where A: "create_all sample_kernel (map SpawnedAs [sample_kernel, sample_kernel]) sample_process = (Ok [(f, m), (g, mg)], p')"
    "af_program g = Some t" "fds_ok sample_process" "ps_created sample_process = 0" by (rule sample_two)
  from output_pipes_exclusive [OF A(1,3) A(4) [symmetric], of 0 f m 1 g mg t] output_pipes_exclusive [OF A(1,3) A(4) [symmetric], of 1 g mg 1 g mg t] A(1,2)
  show ?thesis by (intro exI [of _ "[(f, m), (g, mg)]"] exI [of _ p'] exI [of _ g] exI [of _ t]) simp
qed

text \<open>
  C34. Nothing the daemon holds for an app is kept from the apps it starts later: their programs
  run with the read ends of its two pipes and with the memfd of its log buffer open, so that they
  can take its output away and overwrite its log.
\<close>

theorem later_apps_inherit_logs:
  assumes "create_all K spawns p = (Ok fs, p')" and "fds_ok p" and "n = ps_created p"
    and "i < j" and "j < length fs" and "fs ! i = (f, m)" and "fs ! j = (g, mg)" and "af_program g = Some t"
  shows "t (af_stdout f) = Some \<lparr>fd_file = PipeRead (n + 4 * i), fd_cloexec = False\<rparr>
    \<and> t (af_stderr f) = Some \<lparr>fd_file = PipeRead (n + 4 * i + 1), fd_cloexec = False\<rparr>
    \<and> t m = Some \<lparr>fd_file = MemFile (n + 4 * i + 3), fd_cloexec = False\<rparr>"
proof -
  have i: "i < length fs" using assms(4,5) by simp
  obtain spawn rest pi pi' where I: "create_descriptors K spawn pi = (Ok (f, m), pi')" "fds_ok pi"
    "ps_created pi = n + 4 * i" "create_all K rest pi' = (Ok (drop (Suc i) fs), p')"
    by (rule create_all_split [OF assms(1,2) i assms(6)]) (simp only: assms(3))
  note S = create_step [OF I(1,2) I(3) [symmetric]]
  have later: "(g, mg) \<in> set (drop (Suc i) fs)" using in_set_after [OF assms(5,4)] assms(7) by simp
  have ne: "fd \<noteq> 1 \<and> fd \<noteq> 2" if "fd \<in> {af_stdout f, af_stderr f, m}" for fd
    using that S(4) I(2) by (auto simp: fds_ok_def)
  have at: "ps_table pi' (af_stdout f) = Some \<lparr>fd_file = PipeRead (n + 4 * i), fd_cloexec = False\<rparr>"
    "ps_table pi' (af_stderr f) = Some \<lparr>fd_file = PipeRead (n + 4 * i + 1), fd_cloexec = False\<rparr>"
    "ps_table pi' m = Some \<lparr>fd_file = MemFile (n + 4 * i + 3), fd_cloexec = False\<rparr>" using S(2,3) by auto
  have keep: "t fd = Some d" if "ps_table pi' fd = Some d" and "fd \<in> {af_stdout f, af_stderr f, m}" and "\<not> fd_cloexec d" for fd d
    using create_all_keeps(2) [OF I(4) S(6) that(1) later assms(8)] ne [OF that(2)] that(3) by blast
  from keep [OF at(1)] keep [OF at(2)] keep [OF at(3)] show ?thesis by simp
qed

lemma later_apps_inherit_logs_witness:
  "\<exists>fs p' t. create_all sample_kernel (map SpawnedAs [sample_kernel, sample_kernel]) sample_process = (Ok fs, p')
    \<and> af_program (fst (fs ! 1)) = Some t \<and> t (snd (fs ! 0)) = Some \<lparr>fd_file = MemFile 3, fd_cloexec = False\<rparr>"
proof -
  obtain f m g mg p' t where A: "create_all sample_kernel (map SpawnedAs [sample_kernel, sample_kernel]) sample_process = (Ok [(f, m), (g, mg)], p')"
    "af_program g = Some t" "fds_ok sample_process" "ps_created sample_process = 0" by (rule sample_two)
  from later_apps_inherit_logs [OF A(1,3) A(4) [symmetric], of 0 1 f m g mg t] A(1,2)
  show ?thesis by (intro exI [of _ "[(f, m), (g, mg)]"] exI [of _ p'] exI [of _ t]) simp
qed

end
