(* ===== verification/Address_Space.thy ===== *)
theory Address_Space
  imports LogBuffer Mmap_Slices
begin

text \<open>
  The life of the double mapping of \<open>src/src/support/mmap.rs\<close> in the address space of the daemon:
  \<open>MmapRingBufferInner\<close> and \<open>MmapRingBuffer\<close> from \<open>new\<close> to \<open>drop\<close>, and the unit tests of the
  module. A dropped buffer gives everything back; a mapping that fails half way does not.
\<close>

section \<open>Address spaces\<close>

text \<open>What is mapped at an address: nothing accessible, or a byte of a file.\<close>

datatype mapping = NoAccess | FileByte nat nat

record address_space =
  pr_vm :: "nat \<Rightarrow> mapping option"
  pr_files :: "nat set" \<comment> \<open>the open descriptors\<close>

text \<open>\<open>mmap\<close> at an address replaces what is there; a call that fails changes nothing. \<open>munmap\<close>.\<close>

definition map_at :: "nat \<Rightarrow> nat \<Rightarrow> (nat \<Rightarrow> mapping) \<Rightarrow> address_space \<Rightarrow> address_space" where
  "map_at addr len f p = p\<lparr>pr_vm := \<lambda>a. if addr \<le> a \<and> a < addr + len then Some (f (a - addr)) else pr_vm p a\<rparr>"

definition munmap :: "nat \<Rightarrow> nat \<Rightarrow> address_space \<Rightarrow> address_space" where
  "munmap addr len p = p\<lparr>pr_vm := \<lambda>a. if addr \<le> a \<and> a < addr + len then None else pr_vm p a\<rparr>"

definition close_fd :: "nat \<Rightarrow> address_space \<Rightarrow> address_space" where
  "close_fd fd p = p\<lparr>pr_files := pr_files p - {fd}\<rparr>"

section \<open>The double mapping\<close>

text \<open>
  \<open>mmap_ring_buffer\<close> with its effects. The first call leaves the address to the kernel, the others
  fix it (\<open>MAP_FIXED\<close>).
\<close>

definition mmap_ring_buffer_in ::
    "nat \<Rightarrow> (nat \<Rightarrow> (io_error, nat) outcome) \<Rightarrow> nat \<Rightarrow> nat \<Rightarrow> address_space \<Rightarrow> (io_error, nat) outcome \<times> address_space" where
  "mmap_ring_buffer_in page_size r fd sz p =
     (if \<not> page_size dvd sz then (Err einval, p)
      else case sys_mmap (r 0) (usize_add sz sz) of
        Err e \<Rightarrow> (Err e, p) | Panic m \<Rightarrow> (Panic m, p)
      | Ok addr \<Rightarrow>
          let p = map_at addr (usize_add sz sz) (\<lambda>_. NoAccess) p
          in case sys_mmap (r 1) sz of
               Err e \<Rightarrow> (Err e, p) | Panic m \<Rightarrow> (Panic m, p)
             | Ok addr1 \<Rightarrow>
                 let p = map_at addr sz (FileByte fd) p
                 in if addr \<noteq> addr1 then (Panic ''assertion failed: addr == addr1'', p)
                    else (case sys_mmap (r 2) sz of
                            Err e \<Rightarrow> (Err e, p) | Panic m \<Rightarrow> (Panic m, p)
                          | Ok _ \<Rightarrow> (Ok addr, map_at (usize_add addr sz) sz (FileByte fd) p)))"

definition unmap_ring_buffer :: "nat \<Rightarrow> nat \<Rightarrow> address_space \<Rightarrow> address_space" where
  "unmap_ring_buffer addr sz p = munmap addr (usize_add sz sz) p"

record mmap_inner =
  in_addr :: nat
  in_size :: nat

definition mmap_inner_new ::
    "nat \<Rightarrow> (nat \<Rightarrow> (io_error, nat) outcome) \<Rightarrow> nat \<Rightarrow> nat \<Rightarrow> address_space \<Rightarrow> (io_error, mmap_inner) outcome \<times> address_space" where
  "mmap_inner_new page_size r fd sz p =
     (case mmap_ring_buffer_in page_size r fd sz p of
        (Err e, p) \<Rightarrow> (Err e, p)
      | (Panic m, p) \<Rightarrow> (Panic m, p)
      | (Ok addr, p) \<Rightarrow> (Ok \<lparr>in_addr = addr, in_size = sz\<rparr>, p))"

definition mmap_inner_drop :: "mmap_inner \<Rightarrow> address_space \<Rightarrow> address_space" where
  "mmap_inner_drop i p = unmap_ring_buffer (in_addr i) (in_size i) p"

record mmap_buffer =
  mb_inner :: mmap_inner
  mb_file :: nat

text \<open>\<open>mmap_file\<close> owns the file: an error drops, that is, closes it.\<close>

definition mmap_file ::
    "nat \<Rightarrow> (nat \<Rightarrow> (io_error, nat) outcome) \<Rightarrow> nat \<Rightarrow> nat \<Rightarrow> address_space \<Rightarrow> (io_error, mmap_buffer) outcome \<times> address_space" where
  "mmap_file page_size r file sz p =
     (case mmap_inner_new page_size r file sz p of
        (Err e, p) \<Rightarrow> (Err e, close_fd file p)
      | (Panic m, p) \<Rightarrow> (Panic m, close_fd file p)
      | (Ok inner, p) \<Rightarrow> (Ok \<lparr>mb_inner = inner, mb_file = file\<rparr>, p))"

text \<open>\<open>mmap_memfd\<close> of a sealed memfd and its descriptor.\<close>

definition mmap_memfd ::
    "nat \<Rightarrow> (nat \<Rightarrow> (io_error, nat) outcome) \<Rightarrow> nat \<Rightarrow> memfd_buffer \<Rightarrow> address_space \<Rightarrow> (io_error, mmap_buffer) outcome \<times> address_space" where
  "mmap_memfd page_size r fd memfd p = (let capacity = mf_capacity memfd in mmap_file page_size r fd capacity p)"

definition mmap_size :: "mmap_buffer \<Rightarrow> nat" where
  "mmap_size b = in_size (mb_inner b)"

text \<open>The end of a buffer: its fields are dropped in order; \<open>into_file\<close> keeps the file.\<close>

definition mmap_buffer_drop :: "mmap_buffer \<Rightarrow> address_space \<Rightarrow> address_space" where
  "mmap_buffer_drop b p = close_fd (mb_file b) (mmap_inner_drop (mb_inner b) p)"

definition mmap_into_file :: "mmap_buffer \<Rightarrow> address_space \<Rightarrow> nat \<times> address_space" where
  "mmap_into_file b p = (mb_file b, mmap_inner_drop (mb_inner b) p)"

section \<open>What is mapped and given back\<close>

text \<open>The result is that of the calls alone (\<open>mmap_ring_buffer\<close>, which the log buffers use).\<close>

lemma mmap_ring_buffer_in_result: "fst (mmap_ring_buffer_in page_size r fd sz p) = mmap_ring_buffer page_size r sz"
  by (simp add: mmap_ring_buffer_in_def mmap_ring_buffer_def Let_def split: outcome.split)

lemma mmap_ring_buffer_in_OkD:
  assumes "mmap_ring_buffer_in page_size r fd sz p = (Ok addr, p')"
  shows "0 < sz \<and> page_size dvd sz
    \<and> p' = map_at (usize_add addr sz) sz (FileByte fd) (map_at addr sz (FileByte fd) (map_at addr (usize_add sz sz) (\<lambda>_. NoAccess) p))"
  using assms by (auto simp: mmap_ring_buffer_in_def sys_mmap_def Let_def split: if_splits outcome.splits)

lemma mmap_file_OkD:
  assumes "mmap_file page_size r file sz p = (Ok b, p')"
  shows "mmap_ring_buffer_in page_size r file sz p = (Ok (in_addr (mb_inner b)), p')" and "in_size (mb_inner b) = sz" and "mb_file b = file"
  using assms by (auto simp: mmap_file_def mmap_inner_new_def split: prod.splits outcome.splits)

text \<open>
  C29. A mapped ring shows its file twice in a row, touches nothing else, and gives everything back:
  after \<open>mmap_file\<close> the addresses \<open>addr + k\<close> and \<open>addr + size + k\<close> are the same byte of the file, and
  dropping the buffer restores the address space and closes the file, \<open>into_file\<close> restores it and
  keeps the file open. The kernel gave addresses that were free, below the end of the address space.
\<close>

theorem mapping_given_back:
  assumes "mmap_file page_size r file sz p = (Ok b, p')" and "in_addr (mb_inner b) + 2 * sz < usize_bound"
    and "\<And>a. in_addr (mb_inner b) \<le> a \<Longrightarrow> a < in_addr (mb_inner b) + 2 * sz \<Longrightarrow> pr_vm p a = None"
  shows "(\<forall>k < sz. pr_vm p' (in_addr (mb_inner b) + k) = Some (FileByte file k)
        \<and> pr_vm p' (in_addr (mb_inner b) + sz + k) = Some (FileByte file k))
    \<and> mmap_buffer_drop b p' = close_fd file p
    \<and> mmap_into_file b p' = (file, p)"
proof -
  let ?addr = "in_addr (mb_inner b)"
  from assms(2) have wrap: "usize_add sz sz = 2 * sz" "usize_add ?addr sz = ?addr + sz"
    by (simp_all add: usize_add_def)
  have p': "p' = map_at (?addr + sz) sz (FileByte file) (map_at ?addr sz (FileByte file) (map_at ?addr (2 * sz) (\<lambda>_. NoAccess) p))"
    using mmap_ring_buffer_in_OkD [OF mmap_file_OkD(1) [OF assms(1)]] by (simp add: wrap)
  have unmapped: "mmap_inner_drop (mb_inner b) p' = p"
    using assms(3) mmap_file_OkD(2) [OF assms(1)]
    by (auto simp: mmap_inner_drop_def unmap_ring_buffer_def munmap_def p' map_at_def wrap intro!: address_space.equality ext)
  show ?thesis
    using unmapped mmap_file_OkD(3) [OF assms(1)]
    by (auto simp: mmap_buffer_drop_def mmap_into_file_def p' map_at_def)
qed

lemma mapping_given_back_witness:
  "\<exists>b p'. mmap_file 4096 (\<lambda>_. Ok 65536) 7 8192 \<lparr>pr_vm = \<lambda>a. if a < 4096 then Some NoAccess else None, pr_files = {0, 7}\<rparr> = (Ok b, p')
     \<and> pr_vm p' 65541 = pr_vm p' 73733
     \<and> mmap_buffer_drop b p' = \<lparr>pr_vm = \<lambda>a. if a < 4096 then Some NoAccess else None, pr_files = {0}\<rparr>"
proof -
  let ?p = "\<lparr>pr_vm = \<lambda>a. if a < 4096 then Some NoAccess else None, pr_files = {0, 7}\<rparr>"
  obtain p' where run: "mmap_file 4096 (\<lambda>_. Ok 65536) 7 8192 ?p = (Ok \<lparr>mb_inner = \<lparr>in_addr = 65536, in_size = 8192\<rparr>, mb_file = 7\<rparr>, p')"
    by (simp add: mmap_file_def mmap_inner_new_def mmap_ring_buffer_in_def sys_mmap_def usize_add_def usize_bound_def Let_def)
  have given: "\<forall>k < 8192. pr_vm p' (65536 + k) = Some (FileByte 7 k) \<and> pr_vm p' (65536 + 8192 + k) = Some (FileByte 7 k)"
    "mmap_buffer_drop \<lparr>mb_inner = \<lparr>in_addr = 65536, in_size = 8192\<rparr>, mb_file = 7\<rparr> p' = close_fd 7 ?p"
    using mapping_given_back [OF run] by (simp_all add: usize_bound_def)
  from given(1) [rule_format, of 5] have "pr_vm p' 65541 = pr_vm p' 73733" by simp
  then show ?thesis
    by (intro exI conjI) (use run given(2) in \<open>simp_all add: close_fd_def insert_Diff_if\<close>)
qed

text \<open>
  C38. A mapping that fails half way is not given back: when the kernel reserves the range and then
  refuses to map the file into it, the error is returned and the file closed, but all of the
  reserved addresses stay mapped, and no value of the program names them any more.
\<close>

theorem failed_mapping_leaks:
  assumes "page_size dvd sz" and "0 < sz" and "2 * sz < usize_bound" and "r 0 = Ok addr"
    and "r 1 = Err e \<or> r 1 = Ok addr \<and> r 2 = Err e"
  shows "\<exists>p'. mmap_file page_size r file sz p = (Err e, p') \<and> pr_files p' = pr_files p - {file}
    \<and> (\<forall>a. addr \<le> a \<and> a < addr + 2 * sz \<longrightarrow> pr_vm p' a \<noteq> None)"
proof -
  from assms(3) have "usize_add sz sz = 2 * sz" by (simp add: usize_add_def)
  with assms show ?thesis
    by (auto simp: mmap_file_def mmap_inner_new_def mmap_ring_buffer_in_def sys_mmap_def Let_def map_at_def close_fd_def)
qed

lemma failed_mapping_leaks_witness:
  "\<exists>p'. mmap_file 4096 (\<lambda>i. if i = 0 then Ok 65536 else Err (Errno 12)) 7 8192 \<lparr>pr_vm = \<lambda>_. None, pr_files = {0, 7}\<rparr>
      = (Err (Errno 12), p') \<and> pr_files p' = {0} \<and> pr_vm p' 65536 \<noteq> None"
proof -
  have "4096 dvd (8192 :: nat)" by simp
  from failed_mapping_leaks [OF this, of "\<lambda>i. if i = 0 then Ok 65536 else Err (Errno 12)" 65536 "Errno 12" 7
      "\<lparr>pr_vm = \<lambda>_. None, pr_files = {0, 7}\<rparr>"]
  show ?thesis by (auto simp: usize_bound_def)
qed

section \<open>The unit tests\<close>

text \<open>
  The tests take the page size, the answers of the kernel to \<open>memfd_create\<close> and \<open>mmap\<close>, the new
  descriptor and the process they run in. A panic (of \<open>unwrap\<close>, of an index) makes them false.
\<close>

definition fill_pattern :: "ring_map \<Rightarrow> ring_map option" where
  "fill_pattern rb =
     (case index_mut_range_full rb of
        None \<Rightarrow> None
      | Some buf \<Rightarrow> fold (\<lambda>i r. case r of None \<Rightarrow> None | Some rb \<Rightarrow> store rb buf i (of_nat (i mod 256))) [0..<snd buf] (Some rb))"

definition test_mmap_ring_buffer ::
    "(nat \<Rightarrow> (io_error, int) outcome) \<Rightarrow> nat \<Rightarrow> (nat \<Rightarrow> (io_error, nat) outcome) \<Rightarrow> nat \<Rightarrow> address_space \<Rightarrow> bool" where
  "test_mmap_ring_buffer mr page_size r fd p \<longleftrightarrow>
     (let capacity = 3 * 4096 in
      case new_sealed mr ''unamedf'' capacity of
        Ok memfd \<Rightarrow> (case fst (mmap_memfd page_size r fd memfd p) of Ok b \<Rightarrow> mmap_size b = capacity | _ \<Rightarrow> False)
      | _ \<Rightarrow> False)"

definition test_mmap_ring_buffer_invalid_capacity ::
    "(nat \<Rightarrow> (io_error, int) outcome) \<Rightarrow> nat \<Rightarrow> (nat \<Rightarrow> (io_error, nat) outcome) \<Rightarrow> nat \<Rightarrow> address_space \<Rightarrow> bool" where
  "test_mmap_ring_buffer_invalid_capacity mr page_size r fd p \<longleftrightarrow>
     (let capacity = 1000 in
      case new_sealed mr ''unamedf'' capacity of
        Ok memfd \<Rightarrow> (case fst (mmap_memfd page_size r fd memfd p) of Err _ \<Rightarrow> True | _ \<Rightarrow> False)
      | _ \<Rightarrow> False)"

definition test_mmap_ring_buffer_zero_capacity ::
    "(nat \<Rightarrow> (io_error, int) outcome) \<Rightarrow> nat \<Rightarrow> (nat \<Rightarrow> (io_error, nat) outcome) \<Rightarrow> nat \<Rightarrow> address_space \<Rightarrow> bool" where
  "test_mmap_ring_buffer_zero_capacity mr page_size r fd p \<longleftrightarrow>
     (let capacity = 0 in
      case new_sealed mr ''unamedf'' capacity of
        Ok memfd \<Rightarrow> (case fst (mmap_memfd page_size r fd memfd p) of Err _ \<Rightarrow> True | _ \<Rightarrow> False)
      | _ \<Rightarrow> False)"

definition test_mmap_ring_buffer_range ::
    "(nat \<Rightarrow> (io_error, int) outcome) \<Rightarrow> nat \<Rightarrow> (nat \<Rightarrow> (io_error, nat) outcome) \<Rightarrow> nat \<Rightarrow> address_space \<Rightarrow> bool" where
  "test_mmap_ring_buffer_range mr page_size r fd p \<longleftrightarrow>
     (let pgsize = 4096; capacity = 3 * pgsize; offset = 3000 in
      case new_sealed mr ''unamedf'' capacity of
        Ok memfd \<Rightarrow>
          (case fst (mmap_memfd page_size r fd memfd p) of
             Ok b \<Rightarrow>
               (case fill_pattern \<lparr>rm_size = mmap_size b, rm_file = mf_file memfd\<rparr> of
                  Some rb \<Rightarrow>
                    (case (index_range_full rb, index_range_from rb offset, index_range_from rb (offset + capacity * 3)) of
                       (Some range1, Some range2, Some range3) \<Rightarrow>
                         length range1 = capacity \<and> length range2 = capacity \<and> length range3 = capacity
                       \<and> length (drop offset range1) = capacity - offset
                       \<and> length (take (capacity - offset) range2) = capacity - offset
                       \<and> length (take (capacity - offset) range3) = capacity - offset
                       \<and> drop offset range1 = take (capacity - offset) range2
                       \<and> drop offset range1 = take (capacity - offset) range3
                     | _ \<Rightarrow> False)
                | None \<Rightarrow> False)
           | _ \<Rightarrow> False)
      | _ \<Rightarrow> False)"

lemma fill_stores:
  assumes "set is \<subseteq> {..<rm_size rb}" and "ring_map_ok x" and "rm_size x = rm_size rb"
  obtains rb' where "fold (\<lambda>i r. case r of None \<Rightarrow> None | Some y \<Rightarrow> store y (0, rm_size rb) i (of_nat (i mod 256))) is (Some x) = Some rb'"
    and "ring_map_ok rb'" and "rm_size rb' = rm_size rb"
proof -
  have "\<exists>rb'. fold (\<lambda>i r. case r of None \<Rightarrow> None | Some y \<Rightarrow> store y (0, rm_size rb) i (of_nat (i mod 256))) is (Some x) = Some rb'
      \<and> ring_map_ok rb' \<and> rm_size rb' = rm_size rb"
    using assms by (induction "is" arbitrary: x) (auto simp: store_def ring_map_ok_def)
  then show thesis using that by blast
qed

lemma fill_pattern_ok:
  assumes "ring_map_ok rb"
  obtains rb' where "fill_pattern rb = Some rb'" and "ring_map_ok rb'" and "rm_size rb' = rm_size rb"
proof -
  have buf: "index_mut_range_full rb = Some (0, rm_size rb)"
    using assms by (simp add: index_mut_range_full_def get_at_mut_def get_buffer_infos_at_def ring_map_ok_def)
  have "set [0..<rm_size rb] \<subseteq> {..<rm_size rb}" by auto
  then obtain rb' where
    "fold (\<lambda>i r. case r of None \<Rightarrow> None | Some y \<Rightarrow> store y (0, rm_size rb) i (of_nat (i mod 256))) [0..<rm_size rb] (Some rb) = Some rb'"
    and ok: "ring_map_ok rb'" "rm_size rb' = rm_size rb"
    by (rule fill_stores [OF _ assms refl])
  then have "fill_pattern rb = Some rb'" by (simp add: fill_pattern_def buf)
  then show thesis using ok by (rule that)
qed

text \<open>A view from an offset begins with the file from there on, in whatever turn of the ring.\<close>

lemma view_from_offset:
  assumes "ring_map_ok rb" and "off < rm_size rb"
  shows "get_at rb (off + rm_size rb * n) = Some (drop off (rm_file rb) @ take off (rm_file rb))"
  using assms by (simp add: get_at_rotate rotate_drop_take ring_map_ok_def)

text \<open>
  The model passes the unit tests of \<open>mmap.rs\<close>, every assertion of them, wherever the kernel
  grants what they ask for and its page size divides 4096 but not 1000.
\<close>

theorem mmap_tests_pass:
  assumes "\<And>i. i < 3 \<Longrightarrow> \<exists>v. mr i = Ok v" and "r 0 = Ok addr" "r 1 = Ok addr" "r 2 = Ok addr2"
    and "page_size dvd 4096" and "\<not> page_size dvd 1000"
  shows "test_mmap_ring_buffer mr page_size r fd p \<and> test_mmap_ring_buffer_invalid_capacity mr page_size r fd p
    \<and> test_mmap_ring_buffer_zero_capacity mr page_size r fd p \<and> test_mmap_ring_buffer_range mr page_size r fd p"
proof -
  have sealed: "new_sealed mr ''unamedf'' c = Ok \<lparr>mf_file = replicate c 0, mf_capacity = c\<rparr>" for c
    using assms(1) [of 0] assms(1) [of 1] assms(1) [of 2] by (auto simp: new_sealed_def)
  have grant: "mmap_memfd page_size r fd memfd p = (Ok b, p')
      \<Longrightarrow> mmap_size b = mf_capacity memfd" for memfd b p'
    using mmap_file_OkD(2) by (auto simp: mmap_memfd_def mmap_size_def Let_def)
  have pages: "page_size dvd 12288" using assms(5) dvd_mult [of page_size 4096 3] by simp
  obtain b p' where run: "mmap_memfd page_size r fd \<lparr>mf_file = replicate 12288 0, mf_capacity = 12288\<rparr> p = (Ok b, p')"
    using assms(2-4) pages
    by (auto simp: mmap_memfd_def mmap_file_def mmap_inner_new_def mmap_ring_buffer_in_def sys_mmap_def usize_add_def usize_bound_def Let_def)
  let ?rb = "\<lparr>rm_size = 12288, rm_file = replicate 12288 0\<rparr> :: ring_map"
  have "ring_map_ok ?rb" by (simp add: ring_map_ok_def usize_bound_def)
  then obtain rb where rb: "fill_pattern ?rb = Some rb" "ring_map_ok rb" "rm_size rb = 12288"
    by (rule fill_pattern_ok) simp
  have len: "length (rm_file rb) = 12288" using rb(2,3) by (simp add: ring_map_ok_def)
  have views: "get_at rb 0 = Some (rm_file rb)" "get_at rb 3000 = Some (drop 3000 (rm_file rb) @ take 3000 (rm_file rb))"
    "get_at rb 39864 = Some (drop 3000 (rm_file rb) @ take 3000 (rm_file rb))"
    using view_from_offset [OF rb(2), of 0 0] view_from_offset [OF rb(2), of 3000 0] view_from_offset [OF rb(2), of 3000 3]
    by (simp_all add: rb(3))
  have "test_mmap_ring_buffer mr page_size r fd p"
    using run grant [OF run] by (simp add: test_mmap_ring_buffer_def sealed)
  moreover have "test_mmap_ring_buffer_invalid_capacity mr page_size r fd p"
    using assms(6) by (simp add: test_mmap_ring_buffer_invalid_capacity_def sealed mmap_memfd_def mmap_file_def mmap_inner_new_def
        mmap_ring_buffer_in_def)
  moreover have "test_mmap_ring_buffer_zero_capacity mr page_size r fd p"
    by (simp add: test_mmap_ring_buffer_zero_capacity_def sealed mmap_memfd_def mmap_file_def mmap_inner_new_def
        mmap_ring_buffer_in_def sys_mmap_def usize_add_def)
  moreover have "test_mmap_ring_buffer_range mr page_size r fd p"
    using run grant [OF run] len
    by (simp add: test_mmap_ring_buffer_range_def sealed rb(1) index_range_full_def index_range_from_def views)
  ultimately show ?thesis by simp
qed

lemma mmap_tests_pass_witness:
  "test_mmap_ring_buffer (\<lambda>_. Ok 3) 4096 (\<lambda>_. Ok 65536) 3 \<lparr>pr_vm = \<lambda>_. None, pr_files = {3}\<rparr>
   \<and> test_mmap_ring_buffer_range (\<lambda>_. Ok 3) 4096 (\<lambda>_. Ok 65536) 3 \<lparr>pr_vm = \<lambda>_. None, pr_files = {3}\<rparr>"
  using mmap_tests_pass [of "\<lambda>_. Ok 3" "\<lambda>_. Ok 65536" 65536 65536 4096] by simp

end
