(* ===== verification/Formats.thy ===== *)
theory Formats
  imports Config_Serde
begin

text \<open>
  A configuration means the same in every format: what the derived readers make of a tree of
  values they make of every faithful copy of it (\<open>presents\<close>), be it a node of YAML, of JSON or the
  tree itself.
\<close>

section \<open>Readers and copies\<close>

text \<open>The tree as a format of its own, with variants named by strings only.\<close>

definition strict_de :: "content deserializer" where
  "strict_de = content_de\<lparr>ds_ident := \<lambda>v. case v of CStr s \<Rightarrow> Some (Inl s) | _ \<Rightarrow> None\<rparr>"

lemma strict_de_simps [simp]:
  "ds_any strict_de v = v" "ds_null strict_de v \<longleftrightarrow> v = CNull"
  "ds_bool strict_de v = Some b \<longleftrightarrow> v = CBool b" "ds_int strict_de v = Some i \<longleftrightarrow> v = CInt i"
  "ds_str strict_de v = Some s \<longleftrightarrow> v = CStr s" "ds_seq strict_de v = Some vs \<longleftrightarrow> v = CSeq vs"
  "ds_map strict_de v = Some kvs \<longleftrightarrow> v = CMap kvs"
  "ds_ident strict_de v = Some (Inl s) \<longleftrightarrow> v = CStr s" "ds_ident strict_de v \<noteq> Some (Inr k)"
  by (cases v; auto simp: strict_de_def content_de_def)+

lemma strict_reads:
  "ds_null strict_de v \<longleftrightarrow> v = CNull" "ds_any strict_de v = v"
  "ds_bool strict_de (CBool b) = Some b" "ds_int strict_de (CInt i) = Some i" "ds_int strict_de (CStr s) = None"
  "ds_str strict_de (CStr s) = Some s" "ds_str strict_de (CInt i) = None" "ds_seq strict_de (CSeq vs) = Some vs"
  "ds_map strict_de (CMap kvs) = Some kvs" "ds_map strict_de (CSeq vs) = None" "ds_ident strict_de (CStr s) = Some (Inl s)"
  by (cases v; simp add: strict_de_def content_de_def)+

text \<open>What evaluates the readers on a given tree.\<close>

lemma content_reads: "ds_int content_de (CStr s) = None" "ds_str content_de (CInt i) = None"
  by (simp_all add: content_de_def)

lemmas config_reading =
  de_global_config_def de_config_def de_app_config_def app_config_fields_def de_app_cgroup_config_def cgroup_fields_def
  de_restart_policy_def de_restart_delay_def de_unit_variant_def de_user_id_def tagged_def variant_of_def
  struct_slots_def map_slots_def de_seq_def de_option_def de_uint_def de_sint_def de_word_def de_string_map_def
  strict_reads content_reads

lemma strict_names_ok: "names_ok strict_de"
  by (simp add: names_ok_def)

text \<open>A reader of nodes that reads every copy as a reader of trees reads the original.\<close>

definition refines :: "'n deserializer \<Rightarrow> (content \<Rightarrow> 'a option) \<Rightarrow> ('n \<Rightarrow> 'a option) \<Rightarrow> bool" where
  "refines D f f' \<longleftrightarrow> (\<forall>v n x. presents D v n \<longrightarrow> f v = Some x \<longrightarrow> f' n = Some x)"

lemma refinesI [intro?]: "(\<And>v n x. presents D v n \<Longrightarrow> f v = Some x \<Longrightarrow> f' n = Some x) \<Longrightarrow> refines D f f'"
  by (simp add: refines_def)

lemma refinesD: "refines D f f' \<Longrightarrow> presents D v n \<Longrightarrow> f v = Some x \<Longrightarrow> f' n = Some x"
  by (simp add: refines_def)

text \<open>One step of a reader.\<close>

lemma read_step:
  assumes "f \<bind> k = Some x" and "\<And>a. f = Some a \<Longrightarrow> f' = Some a" and "\<And>a. k a = Some x \<Longrightarrow> k' a = Some x"
  shows "f' \<bind> k' = Some x"
  using assms by (auto simp: bind_eq_Some_conv)

named_theorems reads "readers that treat copies as the original"

lemma refines_str [reads]: "refines D (ds_str strict_de) (ds_str D)"
  by rule (auto simp: presents_simps)

lemma refines_bool [reads]: "refines D (ds_bool strict_de) (ds_bool D)"
  by rule (auto simp: presents_simps)

lemma refines_uint [reads]: "refines D (de_uint w strict_de) (de_uint w D)"
  by rule (auto simp: presents_simps de_uint_def bind_eq_Some_conv split: if_splits)

lemma refines_word [reads]: "refines D (de_word strict_de) (de_word D)"
  by rule (auto simp: de_word_def dest: refinesD [OF refines_uint])

lemma refines_option [reads]: "refines D f f' \<Longrightarrow> refines D (de_option strict_de f) (de_option D f')"
  by rule (auto simp: de_option_def presents_null presents_simps dest: refinesD split: if_splits)

lemma those_list_all2: "list_all2 P vs ns \<Longrightarrow> (\<And>v n x. P v n \<Longrightarrow> f v = Some x \<Longrightarrow> f' n = Some x) \<Longrightarrow>
    those (map f vs) = Some xs \<Longrightarrow> those (map f' ns) = Some xs"
  by (induction arbitrary: xs rule: list_all2_induct) (auto split: option.splits)

lemma refines_seq [reads]:
  assumes "refines D f f'"
  shows "refines D (de_seq strict_de f) (de_seq D f')"
proof
  fix v n x
  assume "presents D v n" and "de_seq strict_de f v = Some x"
  then obtain vs ns where "ds_seq D n = Some ns" and all: "list_all2 (presents D) vs ns" and x: "those (map f vs) = Some x"
    by (auto simp: de_seq_def bind_eq_Some_conv presents_simps)
  with those_list_all2 [OF all refinesD [OF assms] x] show "de_seq D f' n = Some x" by (simp add: de_seq_def)
qed

lemma refines_string_map [reads]: "refines D (de_string_map strict_de) (de_string_map D)"
proof
  fix v n x
  assume "presents D v n" and "de_string_map strict_de v = Some x"
  then obtain kvs ms ps where "ds_map D n = Some ms"
    and all: "list_all2 (\<lambda>kv km. fst kv = fst km \<and> presents D (snd kv) (snd km)) kvs ms"
    and ps: "those (map (\<lambda>(k, m). map_option (Pair k) (ds_str strict_de m)) kvs) = Some ps" "fold (\<lambda>(k, v). AList.update k v) ps [] = x"
    by (auto simp: de_string_map_def bind_eq_Some_conv presents_simps)
  moreover have "those (map (\<lambda>(k, m). map_option (Pair k) (ds_str D m)) ms) = Some ps"
    by (rule those_list_all2 [OF all _ ps(1)]) (auto simp: presents_simps)
  ultimately show "de_string_map D n = Some x" by (simp add: de_string_map_def)
qed

section \<open>Structs\<close>

definition slot_copy :: "'n deserializer \<Rightarrow> content slot \<Rightarrow> 'n slot \<Rightarrow> bool" where
  "slot_copy D s s' \<longleftrightarrow>
     (case s of Present v \<Rightarrow> \<exists>n. s' = Present n \<and> presents D v n | Absent \<Rightarrow> s' = Absent | Short \<Rightarrow> s' = Short)"

lemma refines_req: "slot_copy D s s' \<Longrightarrow> refines D f f' \<Longrightarrow> req f s = Some x \<Longrightarrow> req f' s' = Some x"
  by (cases s) (auto simp: slot_copy_def dest: refinesD)

lemma refines_opt: "slot_copy D s s' \<Longrightarrow> refines D f f' \<Longrightarrow> opt strict_de f s = Some x \<Longrightarrow> opt D f' s' = Some x"
  by (cases s) (auto simp: slot_copy_def dest: refinesD [OF refines_option])

lemma refines_dflt: "slot_copy D s s' \<Longrightarrow> refines D f f' \<Longrightarrow> dflt d f s = Some x \<Longrightarrow> dflt d f' s' = Some x"
  by (cases s) (auto simp: slot_copy_def dest: refinesD)

lemma map_slots_copy:
  assumes "list_all2 (\<lambda>kv km. fst kv = fst km \<and> presents D (snd kv) (snd km)) kvs ms" and "map_slots names kvs = Some g"
  obtains g' where "map_slots names ms = Some g'" and "\<And>f. slot_copy D (g f) (g' f)"
proof -
  from assms(2) have g: "g = (\<lambda>f. case map_of kvs f of Some n \<Rightarrow> Present n | None \<Rightarrow> Absent)"
    by (auto simp: map_slots_def split: if_splits)
  have m: "map_slots names ms = Some (\<lambda>f. case map_of ms f of Some n \<Rightarrow> Present n | None \<Rightarrow> Absent)"
    using assms(2) by (auto simp: map_slots_def presents_map_keys [OF assms(1)] split: if_splits)
  have "slot_copy D (g f) (case map_of ms f of Some n \<Rightarrow> Present n | None \<Rightarrow> Absent)" for f
    using presents_map_of [OF assms(1), of f] by (auto simp: g slot_copy_def split: option.splits)
  with m show thesis by (rule that)
qed

lemma zip_copy:
  "list_all2 (presents D) vs ns \<Longrightarrow>
     slot_copy D (case map_of (zip names vs) f of Some v \<Rightarrow> Present v | None \<Rightarrow> Short)
       (case map_of (zip names ns) f of Some n \<Rightarrow> Present n | None \<Rightarrow> Short)"
proof (induction vs ns arbitrary: names rule: list_all2_induct)
  case (Cons v vs n ns)
  then show ?case by (cases names) (auto simp: slot_copy_def)
qed (simp add: slot_copy_def)

lemma struct_slots_copy:
  assumes "presents D v n" and "struct_slots strict_de names v = Some g"
  obtains g' where "struct_slots D names n = Some g'" and "\<And>f. slot_copy D (g f) (g' f)"
proof -
  from assms(2) have "(\<exists>kvs. v = CMap kvs) \<or> (\<exists>vs. v = CSeq vs)"
    by (auto simp: struct_slots_def split: option.splits)
  then show thesis
  proof (elim disjE exE)
    fix kvs assume v: "v = CMap kvs"
    with assms(1) obtain ms where m: "ds_map D n = Some ms"
      and all: "list_all2 (\<lambda>kv km. fst kv = fst km \<and> presents D (snd kv) (snd km)) kvs ms"
      by (auto simp: presents_simps)
    have "map_slots names kvs = Some g" using assms(2) v by (auto simp: struct_slots_def split: option.splits)
    from map_slots_copy [OF all this] obtain g' where "map_slots names ms = Some g'" "\<And>f. slot_copy D (g f) (g' f)" by blast
    with m show thesis by (intro that) (simp_all add: struct_slots_def)
  next
    fix vs assume v: "v = CSeq vs"
    with assms(1) obtain ns where n: "ds_map D n = None" "ds_seq D n = Some ns" and all: "list_all2 (presents D) vs ns"
      by (auto simp: presents_simps)
    from assms(2) v have "length vs \<le> length names"
      and "g = (\<lambda>f. case map_of (zip names vs) f of Some v \<Rightarrow> Present v | None \<Rightarrow> Short)"
      by (auto simp: struct_slots_def split: if_splits option.splits)
    with zip_copy [OF all, of names] n list_all2_lengthD [OF all] show thesis
      by (intro that [of "\<lambda>f. case map_of (zip names ns) f of Some n \<Rightarrow> Present n | None \<Rightarrow> Short"]) (simp_all add: struct_slots_def)
  qed
qed

section \<open>The configuration\<close>

lemma variant_of_strict:
  assumes "names_ok D" and "variant_of strict_de variants t = Some x"
  shows "variant_of D variants t = Some x"
proof -
  from assms(2) obtain s where "t = CStr s"
    by (auto simp: variant_of_def split: option.splits sum.splits if_splits)
  with assms show ?thesis by (simp add: variant_of_def names_ok_def strict_names_ok [unfolded names_ok_def])
qed

lemma tagged_copy:
  assumes "presents D v n" and "names_ok D" and "tagged tag variants strict_de v = Some r"
  shows "tagged tag variants D n = Some r"
  using assms(3) variant_of_strict [OF assms(2)]
  by (auto simp: tagged_def presents_any [OF assms(1)] split: content.splits list.splits)

lemma refines_restart_delay [reads]:
  assumes "names_ok D"
  shows "refines D (de_restart_delay strict_de) (de_restart_delay D)"
proof
  fix v n x
  assume P: "presents D v n" and x: "de_restart_delay strict_de v = Some x"
  then obtain r where t: "tagged ''strategy'' [''never'', ''constant'', ''exponential_backoff''] strict_de v = Some r"
    by (cases "tagged ''strategy'' [''never'', ''constant'', ''exponential_backoff''] strict_de v") (simp_all add: de_restart_delay_def)
  from x show "de_restart_delay D n = Some x"
    by (simp only: de_restart_delay_def t tagged_copy [OF P assms t])
qed

lemma refines_restart_policy [reads]:
  assumes "names_ok D"
  shows "refines D (de_restart_policy strict_de) (de_restart_policy D)"
proof
  fix v n x
  assume P: "presents D v n" and x: "de_restart_policy strict_de v = Some x"
  let ?names = "[''on_success'', ''on_error'', ''reset_after_ms'', ''max_restart_attempts'']"
  from x obtain g where g: "struct_slots strict_de ?names v = Some g"
    by (auto simp: de_restart_policy_def bind_eq_Some_conv)
  obtain g' where g': "struct_slots D ?names n = Some g'" and C: "\<And>f. slot_copy D (g f) (g' f)"
    by (rule struct_slots_copy [OF P g]) (rule that)
  note R = C [THEN refines_dflt, OF refines_restart_delay [OF assms]] C [THEN refines_dflt, OF refines_uint]
    C [THEN refines_dflt, OF refines_option [OF refines_word]]
  from x show "de_restart_policy D n = Some x"
    unfolding de_restart_policy_def g g' bind.bind_lunit by - ((erule read_step, erule R)+, assumption)
qed

lemma refines_user_id [reads]: "refines D (de_user_id strict_de) (de_user_id D)"
  by rule (auto simp: de_user_id_def presents_any split: option.splits)

lemma copies_any:
  "list_all2 (\<lambda>kv km. fst kv = fst km \<and> presents D (snd kv) (snd km)) kvs ms \<Longrightarrow>
     map (\<lambda>(k, m). (k, ds_any D m)) ms = map (\<lambda>(k, m). (k, ds_any strict_de m)) kvs"
  by (induction rule: list_all2_induct) (auto simp: presents_any)

lemma refines_app_config [reads]:
  assumes "names_ok D"
  shows "refines D (de_app_config hash_order strict_de) (de_app_config hash_order D)"
proof
  fix v n x
  assume P: "presents D v n" and x: "de_app_config hash_order strict_de v = Some x"
  from x obtain kvs g where v: "v = CMap kvs" and g: "map_slots app_config_fields kvs = Some g"
    by (auto simp: de_app_config_def bind_eq_Some_conv)
  from P v obtain ms where ms: "ds_map D n = Some ms"
    and all: "list_all2 (\<lambda>kv km. fst kv = fst km \<and> presents D (snd kv) (snd km)) kvs ms"
    by (auto simp: presents_simps)
  obtain g' where g': "map_slots app_config_fields ms = Some g'" and C: "\<And>f. slot_copy D (g f) (g' f)"
    by (rule map_slots_copy [OF all g]) (rule that)
  have env: "refines D (\<lambda>m. map_option hash_order (de_string_map strict_de m)) (\<lambda>m. map_option hash_order (de_string_map D m))"
    by rule (auto dest: refinesD [OF refines_string_map])
  note R = C [THEN refines_opt, OF refines_str] C [THEN refines_req, OF refines_str] C [THEN refines_opt, OF refines_user_id]
    C [THEN refines_opt, OF env] C [THEN refines_dflt, OF refines_bool] C [THEN refines_dflt, OF refines_restart_policy [OF assms]]
    C [THEN refines_opt, OF refines_uint]
  have "ds_map strict_de v = Some kvs" by (simp add: v)
  from x show "de_app_config hash_order D n = Some x"
    unfolding de_app_config_def ms \<open>ds_map strict_de v = Some kvs\<close> g g' bind.bind_lunit copies_any [OF all]
    by - ((erule read_step, erule R)+, assumption)
qed

lemma refines_config [reads]:
  assumes "names_ok D"
  shows "refines D (de_config hash_order strict_de) (de_config hash_order D)"
proof
  fix v n x
  assume P: "presents D v n" and x: "de_config hash_order strict_de v = Some x"
  from x obtain g where g: "struct_slots strict_de [''apps''] v = Some g"
    by (auto simp: de_config_def bind_eq_Some_conv)
  obtain g' where g': "struct_slots D [''apps''] n = Some g'" and C: "\<And>f. slot_copy D (g f) (g' f)"
    by (rule struct_slots_copy [OF P g]) (rule that)
  from x show "de_config hash_order D n = Some x"
    unfolding de_config_def g g' bind.bind_lunit
    by (rule C [THEN refines_req, OF refines_seq [OF refines_app_config [OF assms]]])
qed

lemma global_config_copy:
  assumes "presents D v n" and "names_ok D" and "de_global_config hash_order strict_de v = Some cfg"
  shows "de_global_config hash_order D n = Some cfg"
proof -
  let ?names = "[''apps_dir'', ''apps'', ''log_buffer_size'', ''max_mio_tokens'', ''max_control_connections'', ''max_log_connections'']"
  from assms(3) obtain g where g: "struct_slots strict_de ?names v = Some g"
    by (auto simp: de_global_config_def bind_eq_Some_conv)
  obtain g' where g': "struct_slots D ?names n = Some g'" and C: "\<And>f. slot_copy D (g f) (g' f)"
    by (rule struct_slots_copy [OF assms(1) g]) (rule that)
  note R = C [THEN refines_dflt, OF refines_str] C [THEN refines_dflt, OF refines_seq [OF refines_app_config [OF assms(2)]]]
    C [THEN refines_dflt, OF refines_uint]
  from assms(3) show ?thesis
    unfolding de_global_config_def g g' bind.bind_lunit by - ((erule read_step, erule R)+, assumption)
qed


text \<open>A format that reads a truth value as a string, too, when asked for one, as YAML does.\<close>

definition yes_de :: "content deserializer" where
  "yes_de = content_de\<lparr>ds_str := \<lambda>v. case v of CStr s \<Rightarrow> Some s | CBool b \<Rightarrow> Some (if b then ''true'' else ''false'') | _ \<Rightarrow> None\<rparr>"


end
