(* ===== verification/Unit_Tests.thy ===== *)
theory Unit_Tests
  imports Formats
begin

text \<open>
  The unit tests of the repository that run no process: those of \<open>src/src/restart.rs\<close> and
  \<open>src/src/parser.rs\<close>. A test is a truth value, the conjunction of its assertions; a panic and an
  error returned make it false. The model passes them, for every YAML parser that reads the texts
  in the tests as the YAML specification says: a check of the definitions against what the authors
  of the code expect of it.
\<close>

section \<open>YAML\<close>

text \<open>\<open>serde_yaml\<close>: its syntax, which gives a document, and its answers about a node.\<close>

record 'n yaml =
  y_parse :: "string \<Rightarrow> 'n option"
  y_de :: "'n deserializer"

definition yaml_from_str :: "'n yaml \<Rightarrow> ('n deserializer \<Rightarrow> 'n \<Rightarrow> 'a option) \<Rightarrow> string \<Rightarrow> (string, 'a) outcome" where
  "yaml_from_str Y de text = from_str (y_parse Y) (de (y_de Y)) (\<lambda>_. ''invalid'') text"

text \<open>Every line of a text ends in a line feed.\<close>

definition lines_text :: "string list \<Rightarrow> string" where
  "lines_text ls = concat (map (\<lambda>l. l @ [CHR 0x0A]) ls)"

text \<open>A text that is read as a tree of values.\<close>

definition yaml_reads :: "'n yaml \<Rightarrow> string \<Rightarrow> content \<Rightarrow> bool" where
  "yaml_reads Y text tree \<longleftrightarrow> (\<exists>n. y_parse Y text = Some n \<and> presents (y_de Y) tree n)"

text \<open>A test that ends in \<open>?\<close> or \<open>expect\<close> on a result, and goes on with the value.\<close>

definition passes :: "('e, 'a) outcome \<Rightarrow> ('a \<Rightarrow> bool) \<Rightarrow> bool" where
  "passes r assertions \<longleftrightarrow> (case r of Ok x \<Rightarrow> assertions x | _ \<Rightarrow> False)"

lemma passes_simps [simp]: "passes (Ok x) P = P x" "passes (Err e) P = False" "passes (Panic m) P = False"
  by (simp_all add: passes_def)

text \<open>What holds of the value read from the tree holds of the value read from the text.\<close>

lemma passes_yaml:
  assumes "yaml_reads Y text tree" and "refines (y_de Y) (de strict_de) (de' (y_de Y))"
    and "case de strict_de tree of Some x \<Rightarrow> P x | None \<Rightarrow> False"
  shows "passes (yaml_from_str Y de' text) P"
proof -
  from assms(3) obtain x where x: "de strict_de tree = Some x" "P x" by (cases "de strict_de tree") simp_all
  from assms(1) obtain n where n: "y_parse Y text = Some n" "presents (y_de Y) tree n" by (auto simp: yaml_reads_def)
  from refinesD [OF assms(2) n(2) x(1)] n(1) x(2) show ?thesis by (simp add: yaml_from_str_def from_str_def)
qed

lemma passes_policy:
  assumes "yaml_reads Y text tree" and "names_ok (y_de Y)" and "case de_restart_policy strict_de tree of Some x \<Rightarrow> P x | None \<Rightarrow> False"
  shows "passes (yaml_from_str Y de_restart_policy text) P"
  by (rule passes_yaml [where de = de_restart_policy and de' = de_restart_policy, OF assms(1) refines_restart_policy [OF assms(2)] assms(3)])

lemma passes_app:
  assumes "yaml_reads Y text tree" and "names_ok (y_de Y)"
    and "case de_app_config hash_order strict_de tree of Some x \<Rightarrow> P x | None \<Rightarrow> False"
  shows "passes (yaml_from_str Y (de_app_config hash_order) text) P"
  by (rule passes_yaml [where de = "de_app_config hash_order" and de' = "de_app_config hash_order",
        OF assms(1) refines_app_config [OF assms(2)] assms(3)])

section \<open>The tests of the restart policies\<close>

definition constant_delay_for_success_and_error :: "(f64 \<Rightarrow> int \<Rightarrow> f64) \<Rightarrow> bool" where
  "constant_delay_for_success_and_error f64_powi \<longleftrightarrow>
     (let delay = Constant 250
      in delay_for f64_powi delay 1 = from_millis 250 \<and> delay_for f64_powi delay 5 = from_millis 250)"

definition exponential_backoff_grows_and_caps_at_max :: "(f64 \<Rightarrow> int \<Rightarrow> f64) \<Rightarrow> bool" where
  "exponential_backoff_grows_and_caps_at_max f64_powi \<longleftrightarrow>
     (let delay = ExponentialBackoff 100 1000 (Fin 2)
      in delay_for f64_powi delay 1 = from_millis 100
       \<and> delay_for f64_powi delay 2 = from_millis 200
       \<and> delay_for f64_powi delay 3 = from_millis 400
       \<and> delay_for f64_powi delay 4 = from_millis 800
       \<and> delay_for f64_powi delay 5 = from_millis 1000
       \<and> delay_for f64_powi delay 10 = from_millis 1000)"

definition full_policy_text :: string where
  "full_policy_text = lines_text
     ['''', ''on_success:'', ''  strategy: constant'', ''  delay_ms: 1000'', ''on_error:'', ''  strategy: exponential_backoff'',
      ''  initial_delay_ms: 500'', ''  max_delay_ms: 30000'', ''  multiplier: 2.0'', ''reset_after_ms: 60000'',
      ''max_restart_attempts: 5'']"

definition restart_policy_deserializes_from_yaml :: "'n yaml \<Rightarrow> bool" where
  "restart_policy_deserializes_from_yaml Y \<longleftrightarrow>
     passes (yaml_from_str Y de_restart_policy full_policy_text) (\<lambda>policy.
       on_success policy = Constant 1000
     \<and> on_error policy = ExponentialBackoff 500 30000 (Fin 2)
     \<and> reset_after_ms policy = 60000
     \<and> max_restart_attempts policy = Some 5)"

definition restart_policy_defaults_to_immediate_unlimited_restarts :: "'n yaml \<Rightarrow> (f64 \<Rightarrow> int \<Rightarrow> f64) \<Rightarrow> bool" where
  "restart_policy_defaults_to_immediate_unlimited_restarts Y f64_powi \<longleftrightarrow>
     passes (yaml_from_str Y de_restart_policy ''{}'') (\<lambda>policy.
       policy = restart_policy_default
     \<and> delay_for f64_powi (on_success policy) 1 = from_millis 1000
     \<and> max_restart_attempts policy = None)"

definition never_strategy_means_no_restart :: bool where
  "never_strategy_means_no_restart \<longleftrightarrow> is_never Never \<and> \<not> is_never (Constant 0)"

definition failure_only_text :: string where
  "failure_only_text = lines_text
     ['''', ''on_success:'', ''  strategy: never'', ''on_error:'', ''  strategy: constant'', ''  delay_ms: 500'']"

definition restart_on_failure_only_policy_deserializes :: "'n yaml \<Rightarrow> bool" where
  "restart_on_failure_only_policy_deserializes Y \<longleftrightarrow>
     passes (yaml_from_str Y de_restart_policy failure_only_text) (\<lambda>policy.
       is_never (on_success policy) \<and> on_error policy = Constant 500)"

section \<open>The tests of the configuration of apps\<close>

text \<open>\<open>hash_order\<close> is the order of a \<open>HashMap\<close>, \<open>getpwnam\<close> and \<open>getgrnam\<close> the databases of the host.\<close>

type_synonym hash_order = "(string \<times> string) list \<Rightarrow> (string \<times> string) list"

definition app_text :: string where
  "app_text = lines_text ['''', ''command: \"hello -v\"'', ''workdir: workdir'']"

definition test_app_config :: "'n yaml \<Rightarrow> hash_order \<Rightarrow> bool" where
  "test_app_config Y hash_order \<longleftrightarrow>
     passes (yaml_from_str Y (de_app_config hash_order) app_text) (\<lambda>cfg.
       cf_command cfg = ''hello -v'' \<and> cf_workdir cfg = Some ''workdir'')"

definition bare_app_text :: string where
  "bare_app_text = lines_text ['''', ''command: \"hello\"'']"

definition test_app_config_default_restart_policy :: "'n yaml \<Rightarrow> hash_order \<Rightarrow> bool" where
  "test_app_config_default_restart_policy Y hash_order \<longleftrightarrow>
     passes (yaml_from_str Y (de_app_config hash_order) bare_app_text) (\<lambda>cfg. cf_restart cfg = restart_policy_default)"

definition constant_app_text :: string where
  "constant_app_text = lines_text
     ['''', ''command: \"hello\"'', ''restart:'', ''  on_success:'', ''    strategy: constant'', ''    delay_ms: 1000'',
      ''  on_error:'', ''    strategy: constant'', ''    delay_ms: 500'', ''  max_restart_attempts: 3'']"

definition test_app_config_constant_restart_policy :: "'n yaml \<Rightarrow> hash_order \<Rightarrow> bool" where
  "test_app_config_constant_restart_policy Y hash_order \<longleftrightarrow>
     passes (yaml_from_str Y (de_app_config hash_order) constant_app_text) (\<lambda>cfg.
       on_success (cf_restart cfg) = Constant 1000
     \<and> on_error (cf_restart cfg) = Constant 500
     \<and> max_restart_attempts (cf_restart cfg) = Some 3)"

definition backoff_app_text :: string where
  "backoff_app_text = lines_text
     ['''', ''command: \"hello\"'', ''restart:'', ''  on_error:'', ''    strategy: exponential_backoff'',
      ''    initial_delay_ms: 200'', ''    max_delay_ms: 10000'', ''    multiplier: 3.0'', ''  reset_after_ms: 30000'']"

definition test_app_config_exponential_backoff_restart_policy :: "'n yaml \<Rightarrow> hash_order \<Rightarrow> bool" where
  "test_app_config_exponential_backoff_restart_policy Y hash_order \<longleftrightarrow>
     passes (yaml_from_str Y (de_app_config hash_order) backoff_app_text) (\<lambda>cfg.
       on_error (cf_restart cfg) = ExponentialBackoff 200 10000 (Fin 3)
     \<and> on_success (cf_restart cfg) = restart_delay_default
     \<and> reset_after_ms (cf_restart cfg) = 30000
     \<and> max_restart_attempts (cf_restart cfg) = None)"

definition root_app_text :: string where
  "root_app_text = lines_text
     ['''', ''command: \"hello\"'', ''user: root'', ''group: root'', ''cpu_weight: 100'', ''io_weight: 100'',
      ''memory_hard_limit: 1073741824'', ''memory_soft_limit: 0'', ''memory_swap_limit: 268435456'']"

definition test_resolved_uid_gid_by_name :: "'n yaml \<Rightarrow> hash_order \<Rightarrow> (string \<Rightarrow> nat option) \<Rightarrow> (string \<Rightarrow> nat option) \<Rightarrow> bool" where
  "test_resolved_uid_gid_by_name Y hash_order getpwnam getgrnam \<longleftrightarrow>
     passes (yaml_from_str Y (de_app_config hash_order) root_app_text) (\<lambda>cfg.
       resolved_uid getpwnam cfg = Some 0
     \<and> resolved_gid getgrnam cfg = Some 0
     \<and> cpu_weight (cf_cgroup cfg) = Some 100
     \<and> io_weight (cf_cgroup cfg) = Some 100
     \<and> memory_hard_limit (cf_cgroup cfg) = Some 1073741824
     \<and> memory_soft_limit (cf_cgroup cfg) = Some 0
     \<and> memory_swap_limit (cf_cgroup cfg) = Some 268435456)"

definition id_app_text :: string where
  "id_app_text = lines_text ['''', ''command: \"hello\"'', ''user: 1234'', ''group: 5678'']"

definition test_resolved_uid_gid_by_id :: "'n yaml \<Rightarrow> hash_order \<Rightarrow> (string \<Rightarrow> nat option) \<Rightarrow> (string \<Rightarrow> nat option) \<Rightarrow> bool" where
  "test_resolved_uid_gid_by_id Y hash_order getpwnam getgrnam \<longleftrightarrow>
     passes (yaml_from_str Y (de_app_config hash_order) id_app_text) (\<lambda>cfg.
       resolved_uid getpwnam cfg = Some 1234 \<and> resolved_gid getgrnam cfg = Some 5678)"

definition unknown_app_text :: string where
  "unknown_app_text = lines_text ['''', ''command: \"hello\"'', ''user: does-not-exist'', ''group: does-not-exist'']"

definition test_resolved_uid_gid_unknown_name :: "'n yaml \<Rightarrow> hash_order \<Rightarrow> (string \<Rightarrow> nat option) \<Rightarrow> (string \<Rightarrow> nat option) \<Rightarrow> bool" where
  "test_resolved_uid_gid_unknown_name Y hash_order getpwnam getgrnam \<longleftrightarrow>
     passes (yaml_from_str Y (de_app_config hash_order) unknown_app_text) (\<lambda>cfg.
       resolved_uid getpwnam cfg = None \<and> resolved_gid getgrnam cfg = None)"

definition apps_text :: string where
  "apps_text = lines_text
     ['''', ''apps:'', ''  - command: \"app1 -a\"'', ''    workdir: /path/to/app1'', ''  - command: \"app2 -b\"'',
      ''    workdir: /path/to/app2'', ''    user: 1000'', ''    group: 1000'', ''  - command: \"app3\"'', ''    env:'',
      ''      VAR1: value1'', ''      VAR2: value2'']"

definition test_config :: "'n yaml \<Rightarrow> hash_order \<Rightarrow> (string \<Rightarrow> nat option) \<Rightarrow> (string \<Rightarrow> nat option) \<Rightarrow> bool" where
  "test_config Y hash_order getpwnam getgrnam \<longleftrightarrow>
     passes (yaml_from_str Y (de_config hash_order) apps_text) (\<lambda>apps.
       length apps = 3
     \<and> cf_command (apps ! 0) = ''app1 -a''
     \<and> cf_workdir (apps ! 0) = Some ''/path/to/app1''
     \<and> cf_command (apps ! 1) = ''app2 -b''
     \<and> cf_workdir (apps ! 1) = Some ''/path/to/app2''
     \<and> resolved_uid getpwnam (apps ! 1) = Some 1000
     \<and> resolved_gid getgrnam (apps ! 1) = Some 1000
     \<and> cf_command (apps ! 2) = ''app3''
     \<and> (case cf_env (apps ! 2) of
          Some env \<Rightarrow> map_of env ''VAR1'' = Some ''value1'' \<and> map_of env ''VAR2'' = Some ''value2''
        | None \<Rightarrow> False))"

section \<open>What the texts say\<close>

text \<open>The trees of the texts, by the YAML specification (and its JSON-like resolution of scalars).\<close>

definition full_policy_tree :: content where
  "full_policy_tree = CMap
     [(''on_success'', CMap [(''strategy'', CStr ''constant''), (''delay_ms'', CInt 1000)]),
      (''on_error'', CMap [(''strategy'', CStr ''exponential_backoff''), (''initial_delay_ms'', CInt 500), (''max_delay_ms'', CInt 30000),
         (''multiplier'', CFloat (Fin 2))]),
      (''reset_after_ms'', CInt 60000), (''max_restart_attempts'', CInt 5)]"

definition failure_only_tree :: content where
  "failure_only_tree = CMap
     [(''on_success'', CMap [(''strategy'', CStr ''never'')]),
      (''on_error'', CMap [(''strategy'', CStr ''constant''), (''delay_ms'', CInt 500)])]"

definition policy_samples :: "(string \<times> content) list" where
  "policy_samples = [(full_policy_text, full_policy_tree), (''{}'', CMap []), (failure_only_text, failure_only_tree)]"

definition constant_app_tree :: content where
  "constant_app_tree = CMap
     [(''command'', CStr ''hello''),
      (''restart'', CMap
         [(''on_success'', CMap [(''strategy'', CStr ''constant''), (''delay_ms'', CInt 1000)]),
          (''on_error'', CMap [(''strategy'', CStr ''constant''), (''delay_ms'', CInt 500)]),
          (''max_restart_attempts'', CInt 3)])]"

definition backoff_app_tree :: content where
  "backoff_app_tree = CMap
     [(''command'', CStr ''hello''),
      (''restart'', CMap
         [(''on_error'', CMap [(''strategy'', CStr ''exponential_backoff''), (''initial_delay_ms'', CInt 200),
             (''max_delay_ms'', CInt 10000), (''multiplier'', CFloat (Fin 3))]),
          (''reset_after_ms'', CInt 30000)])]"

definition root_app_tree :: content where
  "root_app_tree = CMap
     [(''command'', CStr ''hello''), (''user'', CStr ''root''), (''group'', CStr ''root''), (''cpu_weight'', CInt 100),
      (''io_weight'', CInt 100), (''memory_hard_limit'', CInt 1073741824), (''memory_soft_limit'', CInt 0),
      (''memory_swap_limit'', CInt 268435456)]"

definition apps_tree :: content where
  "apps_tree = CMap
     [(''apps'', CSeq
        [CMap [(''command'', CStr ''app1 -a''), (''workdir'', CStr ''/path/to/app1'')],
         CMap [(''command'', CStr ''app2 -b''), (''workdir'', CStr ''/path/to/app2''), (''user'', CInt 1000), (''group'', CInt 1000)],
         CMap [(''command'', CStr ''app3''), (''env'', CMap [(''VAR1'', CStr ''value1''), (''VAR2'', CStr ''value2'')])]])]"

definition app_samples :: "(string \<times> content) list" where
  "app_samples =
     [(app_text, CMap [(''command'', CStr ''hello -v''), (''workdir'', CStr ''workdir'')]),
      (bare_app_text, CMap [(''command'', CStr ''hello'')]),
      (constant_app_text, constant_app_tree), (backoff_app_text, backoff_app_tree), (root_app_text, root_app_tree),
      (id_app_text, CMap [(''command'', CStr ''hello''), (''user'', CInt 1234), (''group'', CInt 5678)]),
      (unknown_app_text, CMap [(''command'', CStr ''hello''), (''user'', CStr ''does-not-exist''), (''group'', CStr ''does-not-exist'')]),
      (apps_text, apps_tree)]"

section \<open>The tests pass\<close>

lemma test_constant: "constant_delay_for_success_and_error f64_powi"
  by (simp add: constant_delay_for_success_and_error_def)

lemma test_backoff:
  assumes "\<And>n. n < 10 \<Longrightarrow> f64_powi (Fin 2) (int n) = Fin (2 ^ n)"
  shows "exponential_backoff_grows_and_caps_at_max f64_powi"
proof -
  have d: "delay_for f64_powi (ExponentialBackoff 100 1000 (Fin 2)) (1 + of_nat n) = from_millis (min (100 * 2 ^ n) 1000)"
    if "n < 10" for n
  proof -
    have "(2::nat) ^ n \<le> 2 ^ 10" using that by (intro power_increasing) simp_all
    then show ?thesis
      using backoff_doubles [of f64_powi n 100 1000] assms [OF that] that by (simp add: default_backoff_multiplier_def)
  qed
  from d [of 0] d [of 1] d [of 2] d [of 3] d [of 4] d [of 9] show ?thesis
    by (simp add: exponential_backoff_grows_and_caps_at_max_def)
qed

lemma test_full_policy:
  assumes "yaml_reads Y full_policy_text full_policy_tree" and "names_ok (y_de Y)"
  shows "restart_policy_deserializes_from_yaml Y"
  unfolding restart_policy_deserializes_from_yaml_def
  by (rule passes_policy [OF assms(1,2)]) (simp add: config_reading full_policy_tree_def)

lemma test_default_policy:
  assumes "yaml_reads Y ''{}'' (CMap [])" and "names_ok (y_de Y)"
  shows "restart_policy_defaults_to_immediate_unlimited_restarts Y f64_powi"
  unfolding restart_policy_defaults_to_immediate_unlimited_restarts_def
  by (rule passes_policy [OF assms(1,2)])
    (simp add: config_reading restart_policy_default_def restart_delay_default_def default_constant_delay_ms_def)

lemma test_failure_only:
  assumes "yaml_reads Y failure_only_text failure_only_tree" and "names_ok (y_de Y)"
  shows "restart_on_failure_only_policy_deserializes Y"
  unfolding restart_on_failure_only_policy_deserializes_def
  by (rule passes_policy [OF assms(1,2)]) (simp add: config_reading failure_only_tree_def)

lemma restart_tests:
  assumes "\<And>text tree. (text, tree) \<in> set policy_samples \<Longrightarrow> yaml_reads Y text tree" and "names_ok (y_de Y)"
    and "\<And>n. n < 10 \<Longrightarrow> f64_powi (Fin 2) (int n) = Fin (2 ^ n)"
  shows "constant_delay_for_success_and_error f64_powi \<and> exponential_backoff_grows_and_caps_at_max f64_powi
    \<and> restart_policy_deserializes_from_yaml Y \<and> restart_policy_defaults_to_immediate_unlimited_restarts Y f64_powi
    \<and> never_strategy_means_no_restart \<and> restart_on_failure_only_policy_deserializes Y"
  by (intro conjI test_constant test_backoff assms(3) test_full_policy test_default_policy test_failure_only assms(1) assms(2))
    (simp_all add: policy_samples_def never_strategy_means_no_restart_def)

lemma test_apps_texts:
  assumes "\<And>text tree. (text, tree) \<in> set app_samples \<Longrightarrow> yaml_reads Y text tree" and "names_ok (y_de Y)"
  shows "test_app_config Y hash_order" "test_app_config_default_restart_policy Y hash_order"
    "test_app_config_constant_restart_policy Y hash_order" "test_app_config_exponential_backoff_restart_policy Y hash_order"
    "test_resolved_uid_gid_by_id Y hash_order getpwnam getgrnam"
proof -
  note r = passes_app [OF assms(1) assms(2)]
  show "test_app_config Y hash_order"
    unfolding test_app_config_def by (rule r [of _ "CMap [(''command'', CStr ''hello -v''), (''workdir'', CStr ''workdir'')]"])
      (simp_all add: app_samples_def config_reading)
  show "test_app_config_default_restart_policy Y hash_order"
    unfolding test_app_config_default_restart_policy_def by (rule r [of _ "CMap [(''command'', CStr ''hello'')]"])
      (simp_all add: app_samples_def config_reading)
  show "test_app_config_constant_restart_policy Y hash_order"
    unfolding test_app_config_constant_restart_policy_def by (rule r [of _ constant_app_tree])
      (simp_all add: app_samples_def config_reading constant_app_tree_def)
  show "test_app_config_exponential_backoff_restart_policy Y hash_order"
    unfolding test_app_config_exponential_backoff_restart_policy_def by (rule r [of _ backoff_app_tree])
      (simp_all add: app_samples_def config_reading backoff_app_tree_def restart_policy_default_def)
  show "test_resolved_uid_gid_by_id Y hash_order getpwnam getgrnam"
    unfolding test_resolved_uid_gid_by_id_def
    by (rule r [of _ "CMap [(''command'', CStr ''hello''), (''user'', CInt 1234), (''group'', CInt 5678)]"])
      (simp_all add: app_samples_def config_reading resolved_uid_def resolved_gid_def resolve_id_def)
qed

lemma test_apps_names:
  assumes "\<And>text tree. (text, tree) \<in> set app_samples \<Longrightarrow> yaml_reads Y text tree" and "names_ok (y_de Y)"
    and "getpwnam ''root'' = Some 0" and "getgrnam ''root'' = Some 0"
    and "getpwnam ''does-not-exist'' = None" and "getgrnam ''does-not-exist'' = None"
  shows "test_resolved_uid_gid_by_name Y hash_order getpwnam getgrnam"
    and "test_resolved_uid_gid_unknown_name Y hash_order getpwnam getgrnam"
proof -
  note r = passes_app [OF assms(1) assms(2)]
  show "test_resolved_uid_gid_by_name Y hash_order getpwnam getgrnam"
    unfolding test_resolved_uid_gid_by_name_def by (rule r [of _ root_app_tree])
      (simp_all add: app_samples_def config_reading root_app_tree_def resolved_uid_def resolved_gid_def resolve_id_def
        get_id_def has_nul_def assms(3,4))
  show "test_resolved_uid_gid_unknown_name Y hash_order getpwnam getgrnam"
    unfolding test_resolved_uid_gid_unknown_name_def
    by (rule r [of _ "CMap [(''command'', CStr ''hello''), (''user'', CStr ''does-not-exist''), (''group'', CStr ''does-not-exist'')]"])
      (simp_all add: app_samples_def config_reading resolved_uid_def resolved_gid_def resolve_id_def get_id_def assms(5,6))
qed

lemma mset_map_of: "mset kvs' = mset kvs \<Longrightarrow> distinct (map fst kvs) \<Longrightarrow> map_of kvs' = map_of kvs"
  by (rule map_of_inject_set [THEN iffD2]) (metis mset_map mset_eq_imp_distinct_iff, assumption, metis mset_eq_setD)

lemma test_apps_config:
  assumes "yaml_reads Y apps_text apps_tree" and "names_ok (y_de Y)" and "\<And>kvs. mset (hash_order kvs) = mset kvs"
  shows "test_config Y hash_order getpwnam getgrnam"
proof -
  let ?env = "[(''VAR1'', ''value1''), (''VAR2'', ''value2'')]"
  have env: "map_of (hash_order ?env) = map_of ?env" by (rule mset_map_of [OF assms(3)]) simp
  show ?thesis
    unfolding test_config_def
    by (rule passes_yaml [where de = "de_config hash_order" and de' = "de_config hash_order",
          OF assms(1) refines_config [OF assms(2)]])
      (simp add: apps_tree_def config_reading env resolved_uid_def resolved_gid_def resolve_id_def)
qed

lemma parser_tests:
  assumes "\<And>text tree. (text, tree) \<in> set app_samples \<Longrightarrow> yaml_reads Y text tree" and "names_ok (y_de Y)"
    and "\<And>kvs. mset (hash_order kvs) = mset kvs"
    and "getpwnam ''root'' = Some 0" and "getgrnam ''root'' = Some 0"
    and "getpwnam ''does-not-exist'' = None" and "getgrnam ''does-not-exist'' = None"
  shows "test_app_config Y hash_order \<and> test_app_config_default_restart_policy Y hash_order
    \<and> test_app_config_constant_restart_policy Y hash_order \<and> test_app_config_exponential_backoff_restart_policy Y hash_order
    \<and> test_resolved_uid_gid_by_name Y hash_order getpwnam getgrnam \<and> test_resolved_uid_gid_by_id Y hash_order getpwnam getgrnam
    \<and> test_resolved_uid_gid_unknown_name Y hash_order getpwnam getgrnam \<and> test_config Y hash_order getpwnam getgrnam"
  by (intro conjI test_apps_texts test_apps_names test_apps_config assms) (simp_all add: assms app_samples_def)

end
