(* ===== verification/Config_Tests.thy ===== *)
theory Config_Tests
  imports Unit_Tests Supervisor "HOL-Library.List_Lexorder" "HOL-Library.Char_ord"
begin

text \<open>
  The unit tests of \<open>src/src/config.rs\<close>: loading and scanning a directory of real files. The
  directory and what \<open>std::fs\<close> makes of it are modelled; the order in which it is listed and the
  canonical form of a path are the host's.
\<close>

section \<open>A directory of files\<close>

text \<open>\<open>Path::join\<close> of a relative path.\<close>

definition path_join :: "string \<Rightarrow> string \<Rightarrow> string" where
  "path_join dir name = (if dir = [] \<or> last dir = CHR ''/'' then dir @ name else dir @ ''/'' @ name)"

text \<open>
  \<open>TempDir\<close> with the files written to it, and the host: \<open>std::env::temp_dir\<close>, the process, the
  order of a listing, and \<open>canonicalize\<close> of a path that exists.
\<close>

record temp_dir =
  td_path :: string
  td_files :: "(string \<times> string) list"

record temp_host =
  th_temp_dir :: string
  th_process_id :: nat
  th_list_order :: "string list \<Rightarrow> string list"
  th_canonical :: "string \<Rightarrow> string"

text \<open>\<open>TempDir::new\<close>; \<open>nanos\<close> is the time of the call.\<close>

definition temp_dir_new :: "temp_host \<Rightarrow> nat \<Rightarrow> string \<Rightarrow> temp_dir" where
  "temp_dir_new H nanos name =
     \<lparr>td_path = path_join (th_temp_dir H) (''lway-test-'' @ name @ ''-'' @ show_nat (th_process_id H) @ ''-'' @ show_nat nanos),
      td_files = []\<rparr>"

definition temp_dir_write :: "temp_dir \<Rightarrow> string \<Rightarrow> string \<Rightarrow> string \<times> temp_dir" where
  "temp_dir_write d name contents =
     (let path = path_join (td_path d) name in (path, d\<lparr>td_files := AList.update path contents (td_files d)\<rparr>))"

text \<open>The file system around the directory, with nothing else of what the tests look at; ENOENT is 2.\<close>

definition temp_fs :: "temp_host \<Rightarrow> 'n yaml \<Rightarrow> hash_order \<Rightarrow> temp_dir \<Rightarrow> fs_api" where
  "temp_fs H Y hash_order d =
     \<lparr>fs_read_to_string = (\<lambda>path. case map_of (td_files d) path of Some text \<Rightarrow> Ok text | None \<Rightarrow> Err (Errno 2)),
      fs_canonicalize = (\<lambda>path. if path = td_path d \<or> path \<in> fst ` set (td_files d) then Some (th_canonical H path) else None),
      fs_read_dir = (\<lambda>path. if path = td_path d then Ok (map Ok (th_list_order H (map fst (td_files d)))) else Err (Errno 2)),
      fs_is_file = (\<lambda>path. path \<in> fst ` set (td_files d)),
      fs_parse_global = yaml_from_str Y (de_global_config hash_order),
      fs_parse_app = yaml_from_str Y (de_app_config hash_order)\<rparr>"

section \<open>The tests\<close>

definition global_text :: string where
  "global_text = lines_text ['''', ''apps_dir: /etc/lway/apps.d'', ''apps:'', ''  - command: \"app1 -a\"'']"

definition test_global_config :: "'n yaml \<Rightarrow> hash_order \<Rightarrow> bool" where
  "test_global_config Y hash_order \<longleftrightarrow>
     passes (yaml_from_str Y (de_global_config hash_order) global_text) (\<lambda>cfg.
       gc_apps_dir cfg = ''/etc/lway/apps.d''
     \<and> length (gc_apps cfg) = 1
     \<and> cf_command (gc_apps cfg ! 0) = ''app1 -a'')"

definition overrides_text :: string where
  "overrides_text = lines_text
     ['''', ''log_buffer_size: 4096'', ''max_mio_tokens: 16'', ''max_control_connections: 2'', ''max_log_connections: 3'']"

definition test_global_config_overrides :: "'n yaml \<Rightarrow> hash_order \<Rightarrow> bool" where
  "test_global_config_overrides Y hash_order \<longleftrightarrow>
     passes (yaml_from_str Y (de_global_config hash_order) overrides_text) (\<lambda>cfg.
       gc_log_buffer_size cfg = 4096 \<and> gc_max_mio_tokens cfg = 16
     \<and> gc_max_control_connections cfg = 2 \<and> gc_max_log_connections cfg = 3)"

definition test_global_config_defaults :: "'n yaml \<Rightarrow> hash_order \<Rightarrow> bool" where
  "test_global_config_defaults Y hash_order \<longleftrightarrow>
     passes (yaml_from_str Y (de_global_config hash_order) ''{}'') (\<lambda>cfg.
       gc_apps_dir cfg = ''.'' \<and> gc_apps cfg = []
     \<and> gc_log_buffer_size cfg = default_log_buffer_size
     \<and> gc_max_mio_tokens cfg = MAX_MIO_TOKENS
     \<and> gc_max_control_connections cfg = DEFAULT_MAX_CONNECTIONS
     \<and> gc_max_log_connections cfg = LOG_DEFAULT_MAX_CONNECTIONS)"

definition load_text :: string where
  "load_text = lines_text [''apps_dir: apps.d'', ''apps:'', ''  - command: \"app1\"'']"

definition test_load_success :: "temp_host \<Rightarrow> nat \<Rightarrow> 'n yaml \<Rightarrow> hash_order \<Rightarrow> nat \<Rightarrow> bool" where
  "test_load_success H nanos Y hash_order page_size \<longleftrightarrow>
     (let dir = temp_dir_new H nanos ''load-success'';
          (path, dir) = temp_dir_write dir ''lway.yaml'' load_text
      in passes (load (temp_fs H Y hash_order dir) page_size path) (\<lambda>cfg.
           gc_apps_dir cfg = ''apps.d'' \<and> length (gc_apps cfg) = 1))"

text \<open>The tests of an error: the result is the error, and the assertions hold of its fields.\<close>

definition test_load_missing_file_is_io_error :: "fs_api \<Rightarrow> temp_host \<Rightarrow> nat \<Rightarrow> bool" where
  "test_load_missing_file_is_io_error F H page_size \<longleftrightarrow>
     (let path = path_join (th_temp_dir H) ''lway-test-does-not-exist.yaml''
      in case load F page_size path of Err (ConfigIo p _) \<Rightarrow> p = path | _ \<Rightarrow> False)"

definition not_a_list_text :: string where
  "not_a_list_text = lines_text [''apps: \"not a list\"'']"

definition test_load_invalid_yaml_is_parse_error :: "temp_host \<Rightarrow> nat \<Rightarrow> 'n yaml \<Rightarrow> hash_order \<Rightarrow> nat \<Rightarrow> bool" where
  "test_load_invalid_yaml_is_parse_error H nanos Y hash_order page_size \<longleftrightarrow>
     (let dir = temp_dir_new H nanos ''load-parse-error'';
          (path, dir) = temp_dir_write dir ''lway.yaml'' not_a_list_text
      in case load (temp_fs H Y hash_order dir) page_size path of Err (ConfigParse p _) \<Rightarrow> p = path | _ \<Rightarrow> False)"

definition size_text :: "nat \<Rightarrow> string" where
  "size_text n = ''log_buffer_size: '' @ show_nat n @ [CHR 0x0A]"

definition test_load_misaligned_log_buffer_size_is_invalid :: "temp_host \<Rightarrow> nat \<Rightarrow> 'n yaml \<Rightarrow> hash_order \<Rightarrow> nat \<Rightarrow> bool" where
  "test_load_misaligned_log_buffer_size_is_invalid H nanos Y hash_order page_size \<longleftrightarrow>
     (let dir = temp_dir_new H nanos ''load-bad-log-buffer-size'';
          (path, dir) = temp_dir_write dir ''lway.yaml'' (size_text (usize_add page_size 1))
      in case load (temp_fs H Y hash_order dir) page_size path of
           Err (InvalidLogBufferSize sz ps suggested) \<Rightarrow>
             sz = usize_add page_size 1 \<and> ps = page_size \<and> suggested = (page_size * 2) mod usize_bound
         | _ \<Rightarrow> False)"

definition test_validate_log_buffer_size :: "nat \<Rightarrow> bool" where
  "test_validate_log_buffer_size page_size \<longleftrightarrow>
     validate_log_buffer_size page_size page_size = Ok ()
   \<and> validate_log_buffer_size page_size ((page_size * 4) mod usize_bound) = Ok ()
   \<and> validate_log_buffer_size page_size 0 = Ok ()
   \<and> (case validate_log_buffer_size page_size (usize_add page_size 1) of
        Err (InvalidLogBufferSize _ _ suggested) \<Rightarrow> suggested = (page_size * 2) mod usize_bound | _ \<Rightarrow> False)
   \<and> (case validate_log_buffer_size page_size (page_size div 2) of
        Err (InvalidLogBufferSize _ _ suggested) \<Rightarrow> suggested = page_size | _ \<Rightarrow> False)"

definition command_text :: "string \<Rightarrow> string" where
  "command_text c = lines_text [''command: \"'' @ c @ [CHR 0x22]]"

definition test_scan_apps_dir_finds_yaml_and_yml_case_insensitive :: "temp_host \<Rightarrow> nat \<Rightarrow> 'n yaml \<Rightarrow> hash_order \<Rightarrow> bool" where
  "test_scan_apps_dir_finds_yaml_and_yml_case_insensitive H nanos Y hash_order \<longleftrightarrow>
     (let dir = temp_dir_new H nanos ''scan-extensions'';
          (_, dir) = temp_dir_write dir ''app1.yaml'' (command_text ''app1'');
          (_, dir) = temp_dir_write dir ''app2.YML'' (command_text ''app2'');
          (_, dir) = temp_dir_write dir ''notes.txt'' (lines_text [''not an app config'']);
          excluded = path_join (td_path dir) ''lway.yaml'';
          apps = scan_apps_dir (temp_fs H Y hash_order dir) (td_path dir) excluded;
          commands = map cf_command apps
      in sort commands = [''app1'', ''app2''])"

definition test_scan_apps_dir_excludes_config_path :: "temp_host \<Rightarrow> nat \<Rightarrow> 'n yaml \<Rightarrow> hash_order \<Rightarrow> bool" where
  "test_scan_apps_dir_excludes_config_path H nanos Y hash_order \<longleftrightarrow>
     (let dir = temp_dir_new H nanos ''scan-excludes-self'';
          (config_path, dir) = temp_dir_write dir ''lway.yaml'' (lines_text [''apps: []'']);
          (_, dir) = temp_dir_write dir ''app1.yaml'' (command_text ''app1'');
          apps = scan_apps_dir (temp_fs H Y hash_order dir) (td_path dir) config_path
      in length apps = 1 \<and> cf_command (apps ! 0) = ''app1'')"

definition bad_app_text :: string where
  "bad_app_text = lines_text [''command: [not, a, string]'']"

definition test_scan_apps_dir_skips_unparsable_files :: "temp_host \<Rightarrow> nat \<Rightarrow> 'n yaml \<Rightarrow> hash_order \<Rightarrow> bool" where
  "test_scan_apps_dir_skips_unparsable_files H nanos Y hash_order \<longleftrightarrow>
     (let dir = temp_dir_new H nanos ''scan-skips-bad-yaml'';
          (_, dir) = temp_dir_write dir ''good.yaml'' (command_text ''app1'');
          (_, dir) = temp_dir_write dir ''bad.yaml'' bad_app_text;
          excluded = path_join (td_path dir) ''lway.yaml'';
          apps = scan_apps_dir (temp_fs H Y hash_order dir) (td_path dir) excluded
      in length apps = 1 \<and> cf_command (apps ! 0) = ''app1'')"

definition test_scan_apps_dir_missing_directory_returns_empty :: "fs_api \<Rightarrow> temp_host \<Rightarrow> bool" where
  "test_scan_apps_dir_missing_directory_returns_empty F H \<longleftrightarrow>
     (let missing = path_join (th_temp_dir H) ''lway-test-missing-apps-dir'';
          excluded = path_join missing ''lway.yaml''
      in scan_apps_dir F missing excluded = [])"

definition test_all_apps_merges_inline_and_scanned :: "temp_host \<Rightarrow> nat \<Rightarrow> 'n yaml \<Rightarrow> hash_order \<Rightarrow> bool" where
  "test_all_apps_merges_inline_and_scanned H nanos Y hash_order \<longleftrightarrow>
     (let dir = temp_dir_new H nanos ''all-apps-merge'';
          (_, dir) = temp_dir_write dir ''scanned.yaml'' (command_text ''app-from-dir'')
      in passes (yaml_from_str Y (de_app_config hash_order) ''command: \"app-inline\"'') (\<lambda>inline.
           let cfg = global_config_default\<lparr>gc_apps_dir := td_path dir, gc_apps := [inline]\<rparr>;
               config_path = path_join (td_path dir) ''lway.yaml'';
               commands = map cf_command (all_apps (temp_fs H Y hash_order dir) cfg config_path)
           in sort commands = [''app-from-dir'', ''app-inline'']))"

section \<open>What the texts say\<close>

definition command_tree :: "string \<Rightarrow> content" where
  "command_tree c = CMap [(''command'', CStr c)]"

definition global_samples :: "nat \<Rightarrow> (string \<times> content) list" where
  "global_samples page_size =
     [(global_text, CMap [(''apps_dir'', CStr ''/etc/lway/apps.d''), (''apps'', CSeq [command_tree ''app1 -a''])]),
      (overrides_text, CMap [(''log_buffer_size'', CInt 4096), (''max_mio_tokens'', CInt 16), (''max_control_connections'', CInt 2),
         (''max_log_connections'', CInt 3)]),
      (''{}'', CMap []),
      (load_text, CMap [(''apps_dir'', CStr ''apps.d''), (''apps'', CSeq [command_tree ''app1''])]),
      (not_a_list_text, CMap [(''apps'', CStr ''not a list'')]),
      (size_text (page_size + 1), CMap [(''log_buffer_size'', CInt (int (page_size + 1)))]),
      (command_text ''app1'', command_tree ''app1''), (command_text ''app2'', command_tree ''app2''),
      (bad_app_text, CMap [(''command'', CSeq [CStr ''not'', CStr ''a'', CStr ''string''])]),
      (command_text ''app-from-dir'', command_tree ''app-from-dir''),
      (''command: \"app-inline\"'', command_tree ''app-inline'')]"

section \<open>The directory\<close>

lemma show_nat_last: "last (show_nat n) \<noteq> CHR ''/''"
proof
  assume eq: "last (show_nat n) = CHR ''/''"
  have "last (show_nat n) \<in> set (show_nat n)" by simp
  with set_show_nat [of "last (show_nat n)" n] obtain k where "k < 10" "last (show_nat n) = digit_char k" by auto
  with eq digit_char_nat [of k] have "(of_char CHR ''/'' :: nat) = 48 + k" by simp
  then show False by simp
qed

lemma temp_dir_path: "path_join (td_path (temp_dir_new H nanos name)) f = td_path (temp_dir_new H nanos name) @ CHR ''/'' # f"
proof -
  have "td_path (temp_dir_new H nanos name) \<noteq> []" "last (td_path (temp_dir_new H nanos name)) \<noteq> CHR ''/''"
    using show_nat_last [of nanos] by (simp_all add: temp_dir_new_def path_join_def)
  then show ?thesis by (simp add: path_join_def)
qed

lemma str_split_last:
  assumes "d \<notin> set f"
  shows "str_split d (p @ d # f) = str_split d p @ [f]"
proof -
  have f: "str_split d f = [f]" using assms by (induction f) auto
  show ?thesis
  proof (induction p)
    case (Cons c p)
    then show ?case by (cases "str_split d p") auto
  qed (simp add: f)
qed

lemma is_yaml_in: "CHR ''/'' \<notin> set f \<Longrightarrow> is_yaml (p @ CHR ''/'' # f) = is_yaml (CHR ''/'' # f)"
  using str_split_last [of "CHR ''/''" f p] str_split_last [of "CHR ''/''" f "[]"]
  by (simp add: is_yaml_def path_extension_def file_name_def)

lemma scan_mset:
  assumes "\<And>xs. mset (th_list_order H xs) = mset xs"
  shows "mset (scan_apps_dir (temp_fs H Y hash_order d) (td_path d) config_path)
    = mset (concat (map (scan_entry (temp_fs H Y hash_order d) (fs_canonicalize (temp_fs H Y hash_order d) config_path))
        (map Ok (map fst (td_files d)))))"
proof -
  have "mset (concat (map f (th_list_order H xs))) = mset (concat (map f xs))" for f :: "string \<Rightarrow> app_config list" and xs
    by (simp add: mset_concat assms flip: sum_mset_sum_list)
  then show ?thesis by (simp add: scan_apps_dir_def temp_fs_def comp_def)
qed

text \<open>A file that is there, is no configuration of the daemon, and holds the command of an app.\<close>

lemma scan_app:
  assumes "map_of (td_files d) path = Some text" and "is_yaml path" and "excluded \<noteq> Some (th_canonical H path)"
    and "yaml_from_str Y (de_app_config hash_order) text = Ok app"
  shows "scan_entry (temp_fs H Y hash_order d) excluded (Ok path) = [app]"
  using assms map_of_SomeD [OF assms(1)] by (force simp: scan_entry_def temp_fs_def)

lemma scan_no_app:
  assumes "map_of (td_files d) path = Some text"
    and "\<not> is_yaml path \<or> excluded = Some (th_canonical H path) \<or> (\<exists>e. yaml_from_str Y (de_app_config hash_order) text = Err e)"
  shows "scan_entry (temp_fs H Y hash_order d) excluded (Ok path) = []"
  using assms map_of_SomeD [OF assms(1)] by (force simp: scan_entry_def temp_fs_def)

text \<open>The app of a file with a command only.\<close>

definition command_app :: "string \<Rightarrow> app_config" where
  "command_app c =
     \<lparr>cf_name = None, cf_command = c, cf_workdir = None, cf_user = None, cf_group = None, cf_env = None, cf_oneshot = False,
      cf_autostart = default_autostart, cf_restart = restart_policy_default,
      cf_cgroup = \<lparr>cpu_weight = None, io_weight = None, memory_hard_limit = None, memory_soft_limit = None, memory_swap_limit = None\<rparr>,
      cf_log_buffer_size = None\<rparr>"

lemma command_strict: "de_app_config hash_order strict_de (command_tree c) = Some (command_app c)"
  by (simp add: command_tree_def config_reading command_app_def)

lemma read_command:
  assumes "yaml_reads Y text (command_tree c)" and "names_ok (y_de Y)"
  shows "yaml_from_str Y (de_app_config hash_order) text = Ok (command_app c)"
  using assms refinesD [OF refines_app_config [OF assms(2)] _ command_strict]
  by (auto simp: yaml_reads_def yaml_from_str_def from_str_def)

section \<open>The tests pass\<close>

text \<open>
  What the tests rely on of the host and of the format: a listing has every entry once, files have
  canonical paths of their own, and a sequence asked for as a string, or a string (not an empty
  one) as a sequence, is refused.
\<close>

definition host_ok :: "temp_host \<Rightarrow> bool" where
  "host_ok H \<longleftrightarrow> (\<forall>xs. mset (th_list_order H xs) = mset xs) \<and> inj (th_canonical H)"

definition kinds_ok :: "'n deserializer \<Rightarrow> bool" where
  "kinds_ok D \<longleftrightarrow> (\<forall>n vs. presents D (CSeq vs) n \<longrightarrow> ds_str D n = None) \<and> (\<forall>n s. s \<noteq> [] \<longrightarrow> presents D (CStr s) n \<longrightarrow> ds_seq D n = None)"

lemma bad_app:
  assumes "yaml_reads Y text (CMap [(''command'', CSeq vs)])" and "kinds_ok (y_de Y)"
  shows "\<exists>e. yaml_from_str Y (de_app_config hash_order) text = Err e"
proof -
  from assms(1) obtain n m where n: "y_parse Y text = Some n" "ds_map (y_de Y) n = Some [(''command'', m)]" "presents (y_de Y) (CSeq vs) m"
    by (auto simp: yaml_reads_def presents_simps list_all2_Cons1)
  with assms(2) have "ds_str (y_de Y) m = None" by (auto simp: kinds_ok_def)
  with n show ?thesis by (simp add: yaml_from_str_def from_str_def de_app_config_def map_slots_def)
qed

lemma bad_list:
  assumes "yaml_reads Y text (CMap [(''apps'', CStr s)])" and "s \<noteq> []" and "kinds_ok (y_de Y)"
  shows "\<exists>e. yaml_from_str Y (de_global_config hash_order) text = Err e"
proof -
  from assms(1) obtain n m where n: "y_parse Y text = Some n" "ds_map (y_de Y) n = Some [(''apps'', m)]" "presents (y_de Y) (CStr s) m"
    by (auto simp: yaml_reads_def presents_simps list_all2_Cons1)
  with assms(2,3) have "ds_seq (y_de Y) m = None" by (auto simp: kinds_ok_def)
  with n show ?thesis
    by (simp add: yaml_from_str_def from_str_def de_global_config_def struct_slots_def map_slots_def de_seq_def)
qed

lemma passes_global:
  assumes "yaml_reads Y text tree" and "names_ok (y_de Y)"
    and "case de_global_config hash_order strict_de tree of Some x \<Rightarrow> P x | None \<Rightarrow> False"
  shows "passes (yaml_from_str Y (de_global_config hash_order) text) P"
proof -
  have "refines (y_de Y) (de_global_config hash_order strict_de) (de_global_config hash_order (y_de Y))"
    by rule (rule global_config_copy [OF _ assms(2)])
  from passes_yaml [where de = "de_global_config hash_order" and de' = "de_global_config hash_order", OF assms(1) this assms(3)]
  show ?thesis .
qed

lemma passesE:
  assumes "passes r P"
  obtains x where "r = Ok x" and "P x"
  using assms by (cases r) (auto simp: passes_def)

text \<open>The tests of the reader.\<close>

lemma global_tests:
  assumes "\<And>text tree. (text, tree) \<in> set (global_samples page_size) \<Longrightarrow> yaml_reads Y text tree" and "names_ok (y_de Y)"
  shows "test_global_config Y hash_order" "test_global_config_overrides Y hash_order" "test_global_config_defaults Y hash_order"
proof -
  note r = passes_global [OF assms(1) assms(2)]
  show "test_global_config Y hash_order"
    unfolding test_global_config_def
    by (rule r [of _ "CMap [(''apps_dir'', CStr ''/etc/lway/apps.d''), (''apps'', CSeq [command_tree ''app1 -a''])]"])
      (simp_all add: global_samples_def config_reading command_tree_def)
  show "test_global_config_overrides Y hash_order"
    unfolding test_global_config_overrides_def
    by (rule r [of _ "CMap [(''log_buffer_size'', CInt 4096), (''max_mio_tokens'', CInt 16), (''max_control_connections'', CInt 2),
         (''max_log_connections'', CInt 3)]"]) (simp_all add: global_samples_def config_reading)
  show "test_global_config_defaults Y hash_order"
    unfolding test_global_config_defaults_def
    by (rule r [of _ "CMap []"])
      (simp_all add: global_samples_def config_reading global_config_default_def MAX_MIO_TOKENS_def DEFAULT_MAX_CONNECTIONS_def
        LOG_DEFAULT_MAX_CONNECTIONS_def)
qed

text \<open>Loading the one file of a directory.\<close>

lemma load_temp:
  "load (temp_fs H Y hash_order (d\<lparr>td_files := [(path, text)]\<rparr>)) page_size path =
     (case map_err (ConfigParse path) (yaml_from_str Y (de_global_config hash_order) text) of
        Err e \<Rightarrow> Err e | Panic m \<Rightarrow> Panic m
      | Ok cfg \<Rightarrow>
          (case validate_log_buffer_size page_size (gc_log_buffer_size cfg) of Err e \<Rightarrow> Err e | Panic m \<Rightarrow> Panic m | Ok _ \<Rightarrow> Ok cfg))"
  by (simp add: load_def temp_fs_def)

lemma temp_dir_new_files [simp]: "td_files (temp_dir_new H nanos name) = []"
  by (simp add: temp_dir_new_def)

lemma page_multiple: "p dvd n \<Longrightarrow> validate_log_buffer_size p n = Ok ()"
  by (simp add: validate_log_buffer_size_def)

lemma page_plus_one:
  assumes "1 < p"
  shows "validate_log_buffer_size p (Suc p) = Err (InvalidLogBufferSize (Suc p) p ((p * 2) mod usize_bound))"
proof -
  from assms have "\<not> p dvd Suc p" using dvd_add_triv_left_iff [of p 1] by simp
  moreover have "div_ceil (Suc p) p = 2" using assms by (simp add: div_ceil_def mod_Suc div_Suc)
  ultimately show ?thesis using assms by (simp add: validate_log_buffer_size_def mult_2_right)
qed

lemma half_page:
  assumes "1 < p" and "p < usize_bound"
  shows "validate_log_buffer_size p (p div 2) = Err (InvalidLogBufferSize (p div 2) p p)"
proof -
  from assms(1) have "0 < p div 2" "p div 2 < p" by (simp_all add: div_greater_zero_iff)
  then have "\<not> p dvd p div 2" "div_ceil (p div 2) p = 1" by (auto simp: div_ceil_def dest: dvd_imp_le)
  with assms show ?thesis by (simp add: validate_log_buffer_size_def)
qed

lemma size_test: "1 < p \<Longrightarrow> p + 1 < usize_bound \<Longrightarrow> p dvd usize_bound \<Longrightarrow> test_validate_log_buffer_size p"
  unfolding test_validate_log_buffer_size_def
  by (intro conjI) (simp_all add: page_multiple page_plus_one half_page usize_add_def dvd_mod)

lemma load_tests:
  assumes "\<And>text tree. (text, tree) \<in> set (global_samples page_size) \<Longrightarrow> yaml_reads Y text tree" and "names_ok (y_de Y)"
    and "kinds_ok (y_de Y)" and "1 < page_size" and "page_size + 1 < usize_bound" and "page_size dvd default_log_buffer_size"
  shows "test_load_success H nanos Y hash_order page_size"
    "test_load_invalid_yaml_is_parse_error H nanos Y hash_order page_size"
    "test_load_misaligned_log_buffer_size_is_invalid H nanos Y hash_order page_size"
proof -
  note r = passes_global [OF assms(1) assms(2)]
  have "passes (yaml_from_str Y (de_global_config hash_order) load_text)
      (\<lambda>cfg. gc_apps_dir cfg = ''apps.d'' \<and> length (gc_apps cfg) = 1 \<and> gc_log_buffer_size cfg = default_log_buffer_size)"
    by (rule r [of _ "CMap [(''apps_dir'', CStr ''apps.d''), (''apps'', CSeq [command_tree ''app1''])]"])
      (simp_all add: global_samples_def config_reading command_tree_def global_config_default_def)
  then show "test_load_success H nanos Y hash_order page_size"
    by (rule passesE) (simp add: test_load_success_def Let_def temp_dir_write_def load_temp page_multiple [OF assms(6)])
  have "\<exists>e. yaml_from_str Y (de_global_config hash_order) not_a_list_text = Err e"
    by (rule bad_list [OF assms(1) _ assms(3), of _ "''not a list''"]) (simp_all add: global_samples_def)
  then show "test_load_invalid_yaml_is_parse_error H nanos Y hash_order page_size"
    by (auto simp: test_load_invalid_yaml_is_parse_error_def temp_dir_write_def Let_def load_temp)
  have "passes (yaml_from_str Y (de_global_config hash_order) (size_text (page_size + 1)))
      (\<lambda>cfg. gc_log_buffer_size cfg = page_size + 1)"
    using assms(5) by (intro r [of _ "CMap [(''log_buffer_size'', CInt (int (page_size + 1)))]"])
      (simp_all add: global_samples_def config_reading usize_bound_def)
  then show "test_load_misaligned_log_buffer_size_is_invalid H nanos Y hash_order page_size"
    using page_plus_one [OF assms(4)] assms(5)
    by - (erule passesE, simp add: test_load_misaligned_log_buffer_size_is_invalid_def temp_dir_write_def Let_def load_temp usize_add_def)
qed

text \<open>The tests of the scan: what it finds, up to the order of the listing.\<close>

lemma scan_temp:
  assumes "\<And>xs. mset (th_list_order H xs) = mset xs"
  shows "mset (scan_apps_dir (temp_fs H Y hash_order (d\<lparr>td_files := fs\<rparr>)) (td_path d) config_path)
    = mset (concat (map (scan_entry (temp_fs H Y hash_order (d\<lparr>td_files := fs\<rparr>))
        (fs_canonicalize (temp_fs H Y hash_order (d\<lparr>td_files := fs\<rparr>)) config_path)) (map Ok (map fst fs))))"
proof -
  have d: "td_path (d\<lparr>td_files := fs\<rparr>) = td_path d" "td_files (d\<lparr>td_files := fs\<rparr>) = fs" by simp_all
  show ?thesis using scan_mset [OF assms, of Y hash_order "d\<lparr>td_files := fs\<rparr>" config_path] unfolding d .
qed

lemma scan_tests:
  assumes "\<And>text tree. (text, tree) \<in> set (global_samples page_size) \<Longrightarrow> yaml_reads Y text tree" and "names_ok (y_de Y)"
    and "kinds_ok (y_de Y)" and "host_ok H"
  shows "test_scan_apps_dir_finds_yaml_and_yml_case_insensitive H nanos Y hash_order"
    "test_scan_apps_dir_excludes_config_path H nanos Y hash_order"
    "test_scan_apps_dir_skips_unparsable_files H nanos Y hash_order"
    "test_all_apps_merges_inline_and_scanned H nanos Y hash_order"
proof -
  from assms(4) have order: "\<And>xs. mset (th_list_order H xs) = mset xs" and inj: "\<And>a b. th_canonical H a = th_canonical H b \<longleftrightarrow> a = b"
    by (auto simp: host_ok_def inj_eq)
  note app = read_command [OF assms(1) assms(2)]
  have app1: "yaml_from_str Y (de_app_config hash_order) (command_text ''app1'') = Ok (command_app ''app1'')"
    and app2: "yaml_from_str Y (de_app_config hash_order) (command_text ''app2'') = Ok (command_app ''app2'')"
    and dir_app: "yaml_from_str Y (de_app_config hash_order) (command_text ''app-from-dir'') = Ok (command_app ''app-from-dir'')"
    and inline: "yaml_from_str Y (de_app_config hash_order) ''command: \"app-inline\"'' = Ok (command_app ''app-inline'')"
    by (rule app, simp add: global_samples_def)+
  obtain e where bad: "yaml_from_str Y (de_app_config hash_order) bad_app_text = Err e"
    using bad_app [OF assms(1,3), of bad_app_text] by (auto simp: global_samples_def)
  have yaml: "is_yaml (p @ ''/app1.yaml'')" "is_yaml (p @ ''/app2.YML'')" "\<not> is_yaml (p @ ''/notes.txt'')" "is_yaml (p @ ''/good.yaml'')"
    "is_yaml (p @ ''/bad.yaml'')" "is_yaml (p @ ''/lway.yaml'')" "is_yaml (p @ ''/scanned.yaml'')" for p
    by (subst is_yaml_in, simp, code_simp)+
  note files = yaml inj app1 app2 dir_app bad
  note test = Let_def temp_dir_write_def temp_dir_path command_app_def
  have "mset (scan_apps_dir (temp_fs H Y hash_order (d\<lparr>td_files := [(td_path d @ ''/app1.yaml'', command_text ''app1''),
      (td_path d @ ''/app2.YML'', command_text ''app2''),
      (td_path d @ ''/notes.txt'', other)]\<rparr>)) (td_path d)
      (td_path d @ ''/lway.yaml'')) = {#command_app ''app1'', command_app ''app2''#}" for d other
    unfolding scan_temp [OF order] by (simp add: scan_entry_def temp_fs_def files)
  then show "test_scan_apps_dir_finds_yaml_and_yml_case_insensitive H nanos Y hash_order"
    by (auto simp: test_scan_apps_dir_finds_yaml_and_yml_case_insensitive_def test intro!: properties_for_sort)
  have "mset (scan_apps_dir (temp_fs H Y hash_order (d\<lparr>td_files := [(td_path d @ ''/lway.yaml'', other),
      (td_path d @ ''/app1.yaml'', command_text ''app1'')]\<rparr>)) (td_path d)
      (td_path d @ ''/lway.yaml'')) = {#command_app ''app1''#}" for d other
    unfolding scan_temp [OF order] by (simp add: scan_entry_def temp_fs_def files)
  then show "test_scan_apps_dir_excludes_config_path H nanos Y hash_order"
    by (simp add: test_scan_apps_dir_excludes_config_path_def test mset_single_iff)
  have "mset (scan_apps_dir (temp_fs H Y hash_order (d\<lparr>td_files := [(td_path d @ ''/good.yaml'', command_text ''app1''),
      (td_path d @ ''/bad.yaml'', bad_app_text)]\<rparr>)) (td_path d)
      (td_path d @ ''/lway.yaml'')) = {#command_app ''app1''#}" for d other
    unfolding scan_temp [OF order] by (simp add: scan_entry_def temp_fs_def files)
  then show "test_scan_apps_dir_skips_unparsable_files H nanos Y hash_order"
    by (simp add: test_scan_apps_dir_skips_unparsable_files_def test mset_single_iff)
  have "mset (scan_apps_dir (temp_fs H Y hash_order (d\<lparr>td_files := [(td_path d @ ''/scanned.yaml'', command_text ''app-from-dir'')]\<rparr>)) (td_path d)
      (td_path d @ ''/lway.yaml'')) = {#command_app ''app-from-dir''#}" for d
    unfolding scan_temp [OF order] by (simp add: scan_entry_def temp_fs_def files)
  then show "test_all_apps_merges_inline_and_scanned H nanos Y hash_order"
    by (auto simp: test_all_apps_merges_inline_and_scanned_def all_apps_def inline test mset_single_iff intro!: properties_for_sort)
qed

lemma missing_tests:
  assumes "fs_read_to_string F (path_join (th_temp_dir H) ''lway-test-does-not-exist.yaml'') = Err e1"
    and "fs_read_dir F (path_join (th_temp_dir H) ''lway-test-missing-apps-dir'') = Err e2"
  shows "test_load_missing_file_is_io_error F H page_size" "test_scan_apps_dir_missing_directory_returns_empty F H"
  using assms
  by (simp_all add: test_load_missing_file_is_io_error_def test_scan_apps_dir_missing_directory_returns_empty_def load_def scan_apps_dir_def)

definition test_samples :: "nat \<Rightarrow> (string \<times> content) list" where
  "test_samples page_size = policy_samples @ app_samples @ global_samples page_size"

text \<open>
  C28. The model passes the unit tests of the restart policies, of the configuration of the apps and
  of the daemon (\<open>restart.rs\<close>, \<open>parser.rs\<close>, \<open>config.rs\<close>), every assertion of them, on every host
  whose databases know \<open>root\<close> as 0 and whose page size divides the default size of a log
  buffer, in every order of directory listings and of hash maps, for
  every YAML parser that reads the texts of the tests as written.
\<close>

theorem unit_tests_pass:
  assumes texts: "\<And>text tree. (text, tree) \<in> set (test_samples page_size) \<Longrightarrow> yaml_reads Y text tree"
    and yaml: "names_ok (y_de Y)" "kinds_ok (y_de Y)"
    and powi: "\<And>n. n < 10 \<Longrightarrow> f64_powi (Fin 2) (int n) = Fin (2 ^ n)"
    and hash: "\<And>kvs. mset (hash_order kvs) = mset kvs"
    and users: "getpwnam ''root'' = Some 0" "getgrnam ''root'' = Some 0" "getpwnam ''does-not-exist'' = None" "getgrnam ''does-not-exist'' = None"
    and host: "host_ok H" "1 < page_size" "page_size dvd default_log_buffer_size"
    and missing: "fs_read_to_string F (path_join (th_temp_dir H) ''lway-test-does-not-exist.yaml'') = Err e1"
      "fs_read_dir F (path_join (th_temp_dir H) ''lway-test-missing-apps-dir'') = Err e2"
  shows "constant_delay_for_success_and_error f64_powi \<and> exponential_backoff_grows_and_caps_at_max f64_powi
    \<and> restart_policy_deserializes_from_yaml Y \<and> restart_policy_defaults_to_immediate_unlimited_restarts Y f64_powi
    \<and> never_strategy_means_no_restart \<and> restart_on_failure_only_policy_deserializes Y
    \<and> test_app_config Y hash_order \<and> test_app_config_default_restart_policy Y hash_order
    \<and> test_app_config_constant_restart_policy Y hash_order \<and> test_app_config_exponential_backoff_restart_policy Y hash_order
    \<and> test_resolved_uid_gid_by_name Y hash_order getpwnam getgrnam \<and> test_resolved_uid_gid_by_id Y hash_order getpwnam getgrnam
    \<and> test_resolved_uid_gid_unknown_name Y hash_order getpwnam getgrnam \<and> test_config Y hash_order getpwnam getgrnam
    \<and> test_global_config Y hash_order \<and> test_global_config_overrides Y hash_order \<and> test_global_config_defaults Y hash_order
    \<and> test_load_success H nanos Y hash_order page_size \<and> test_load_missing_file_is_io_error F H page_size
    \<and> test_load_invalid_yaml_is_parse_error H nanos Y hash_order page_size
    \<and> test_load_misaligned_log_buffer_size_is_invalid H nanos Y hash_order page_size \<and> test_validate_log_buffer_size page_size
    \<and> test_scan_apps_dir_finds_yaml_and_yml_case_insensitive H nanos Y hash_order
    \<and> test_scan_apps_dir_excludes_config_path H nanos Y hash_order \<and> test_scan_apps_dir_skips_unparsable_files H nanos Y hash_order
    \<and> test_scan_apps_dir_missing_directory_returns_empty F H \<and> test_all_apps_merges_inline_and_scanned H nanos Y hash_order"
proof -
  have pages: "page_size + 1 < usize_bound" "page_size dvd usize_bound"
  proof -
    have "default_log_buffer_size dvd usize_bound" by (simp add: default_log_buffer_size_def usize_bound_def dvd_def)
    with host(3) show "page_size dvd usize_bound" by (rule dvd_trans)
    from host(3) have "page_size \<le> default_log_buffer_size" by (rule dvd_imp_le) (simp add: default_log_buffer_size_def)
    then show "page_size + 1 < usize_bound" by (simp add: default_log_buffer_size_def usize_bound_def)
  qed
  from texts have parts: "\<And>t c. (t, c) \<in> set policy_samples \<Longrightarrow> yaml_reads Y t c" "\<And>t c. (t, c) \<in> set app_samples \<Longrightarrow> yaml_reads Y t c"
    "\<And>t c. (t, c) \<in> set (global_samples page_size) \<Longrightarrow> yaml_reads Y t c"
    by (simp_all add: test_samples_def)
  note results = restart_tests [where f64_powi = f64_powi, OF parts(1) yaml(1) powi] parser_tests [OF parts(2) yaml(1) hash users]
    global_tests [OF parts(3) yaml(1)] load_tests [OF parts(3) yaml host(2) pages(1) host(3)] missing_tests [OF missing]
    size_test [OF host(2) pages] scan_tests [OF parts(3) yaml host(1)]
  show ?thesis by (intro conjI; insert results, simp)
qed

lemma strict_presents: "presents strict_de v v"
proof (induction v)
  case (CSeq vs)
  then have "list_all2 (presents strict_de) vs vs" by (simp add: list_all2_same)
  then show ?case by (simp add: presents_simps strict_reads)
next
  case (CMap kvs)
  then have "list_all2 (\<lambda>kv km. fst kv = fst km \<and> presents strict_de (snd kv) (snd km)) kvs kvs"
    by (auto simp: list_all2_same snds.simps)
  then show ?case by (simp add: presents_simps strict_reads)
qed (simp_all add: presents_simps strict_reads)

lemma show_nat_4097: "show_nat 4097 = ''4097''"
  by code_simp

lemma sample_texts_differ: "list_all (\<lambda>(t, c). map_of (test_samples 4096) t = Some c) (test_samples 4096)"
  by (simp add: test_samples_def policy_samples_def app_samples_def global_samples_def lines_text_def full_policy_text_def
      failure_only_text_def app_text_def bare_app_text_def constant_app_text_def backoff_app_text_def root_app_text_def id_app_text_def
      unknown_app_text_def apps_text_def global_text_def overrides_text_def load_text_def not_a_list_text_def size_text_def
      command_text_def bad_app_text_def show_nat_4097)

definition sample_yaml :: "content yaml" where
  "sample_yaml = \<lparr>y_parse = map_of (test_samples 4096), y_de = strict_de\<rparr>"

definition sample_temp_host :: temp_host where
  "sample_temp_host = \<lparr>th_temp_dir = ''/tmp'', th_process_id = 4711, th_list_order = rev, th_canonical = id\<rparr>"

lemma unit_tests_pass_witness:
  "test_load_success sample_temp_host 1700000000 sample_yaml rev 4096
   \<and> test_all_apps_merges_inline_and_scanned sample_temp_host 1700000000 sample_yaml rev"
proof -
  let ?powi = "\<lambda>x k. if x = Fin 2 then Fin (2 ^ nat k) else NaN"
  let ?users = "\<lambda>name. if name = ''root'' then Some 0 else None"
  have texts: "yaml_reads sample_yaml t tree" if "(t, tree) \<in> set (test_samples 4096)" for t tree
    using sample_texts_differ that strict_presents by (auto simp: yaml_reads_def sample_yaml_def list_all_iff)
  have yaml: "names_ok (y_de sample_yaml)" "kinds_ok (y_de sample_yaml)"
    using presents_any [of strict_de] by (auto simp: names_ok_def kinds_ok_def sample_yaml_def strict_de_def content_de_def presents_simps)
  have host: "host_ok sample_temp_host" by (simp add: host_ok_def sample_temp_host_def)
  note pass = unit_tests_pass [of 4096 sample_yaml ?powi rev ?users ?users sample_temp_host
      "temp_fs sample_temp_host sample_yaml rev (temp_dir_new sample_temp_host 1700000000 ''empty'')" "Errno 2" "Errno 2" 1700000000]
  have "4096 dvd default_log_buffer_size" by (simp add: default_log_buffer_size_def)
  with pass [OF texts yaml _ _ _ _ _ _ host] show ?thesis
    by (simp add: temp_fs_def path_join_def sample_temp_host_def temp_dir_new_def)
qed

end
