(* ===== verification/Runtime_Tests.thy ===== *)
theory Runtime_Tests
  imports App
begin

text \<open>
  The tests of the restart machinery, \<open>src/src/runtime_tests.rs\<close>, on the model of the app. The
  clock is an argument of every call that reads it. The log buffer of the app under test, of a kind
  the daemon does not use, is left open: none of the operations tested looks at it.
\<close>

section \<open>The app under test\<close>

definition make_params :: "restart_policy \<Rightarrow> app_params" where
  "make_params restart =
     \<lparr>ap_cwd = ''.'', ap_name = ''test-app'', ap_prog = ''true'', ap_args = [''true''], ap_uid = 0, ap_gid = 0, ap_env = [],
      ap_oneshot = False,
      ap_cgroup = \<lparr>cpu_weight = None, io_weight = None, memory_hard_limit = None, memory_soft_limit = None, memory_swap_limit = None\<rparr>,
      ap_autostart = False, ap_restart = restart, ap_log_buffer_size = default_log_buffer_size\<rparr>"

definition make_app :: "circ_buffer \<Rightarrow> restart_policy \<Rightarrow> app" where
  "make_app log_buffer restart =
     \<lparr>a_name = ''test-app'', a_params = make_params restart, a_state = Stopped None, a_stats = app_runtime_stats_default,
      a_stop_requested = False, a_log = log_buffer, a_echo = False\<rparr>"

text \<open>The deadline of an app that waits for one; the test panics on any other (\<open>None\<close>).\<close>

definition pending_deadline :: "app \<Rightarrow> instant option" where
  "pending_deadline a =
     (case a_state a of
        Stopped (Some le) \<Rightarrow> (case le_restart_deadline le of Some deadline \<Rightarrow> Some deadline | None \<Rightarrow> None)
      | _ \<Rightarrow> None)"

definition stopped_with_deadline :: "app \<Rightarrow> bool" where
  "stopped_with_deadline a = (case a_state a of Stopped (Some le) \<Rightarrow> le_restart_deadline le \<noteq> None | _ \<Rightarrow> False)"

section \<open>The tests\<close>

text \<open>The clock is read before the call (\<open>before\<close>) and in it (\<open>now\<close>), twice.\<close>

definition schedule_restart_uses_success_or_error_strategy ::
    "(f64 \<Rightarrow> int \<Rightarrow> f64) \<Rightarrow> circ_buffer \<Rightarrow> instant \<Rightarrow> instant \<Rightarrow> instant \<Rightarrow> instant \<Rightarrow> bool" where
  "schedule_restart_uses_success_or_error_strategy f64_powi buf before now before' now' \<longleftrightarrow>
     (let policy = \<lparr>on_success = Constant 100, on_error = Constant 500, reset_after_ms = 60000, max_restart_attempts = None\<rparr>;
          app = schedule_restart f64_powi now (Completed 0) (from_millis 5000) (make_app buf policy);
          app' = schedule_restart f64_powi now' (Completed 1) (from_millis 5000) (app\<lparr>a_state := Stopped None\<rparr>)
      in (case pending_deadline app of
            Some deadline \<Rightarrow> before + from_millis 100 \<le> deadline \<and> deadline < before + from_millis 500
          | None \<Rightarrow> False)
       \<and> st_consecutive_failures (a_stats app) = 0
       \<and> (case pending_deadline app' of Some deadline \<Rightarrow> before' + from_millis 500 \<le> deadline | None \<Rightarrow> False)
       \<and> st_consecutive_failures (a_stats app') = 1)"

definition restart_on_failure_only_stops_after_success :: "(f64 \<Rightarrow> int \<Rightarrow> f64) \<Rightarrow> circ_buffer \<Rightarrow> instant \<Rightarrow> instant \<Rightarrow> bool" where
  "restart_on_failure_only_stops_after_success f64_powi buf now now' \<longleftrightarrow>
     (let policy = \<lparr>on_success = Never, on_error = Constant 100, reset_after_ms = 60000, max_restart_attempts = None\<rparr>;
          app = schedule_restart f64_powi now (Completed 1) (from_millis 1000) (make_app buf policy);
          settled = app\<lparr>a_state := Stopped (Some \<lparr>le_cause = Completed 0, le_restart_deadline = None\<rparr>)\<rparr>;
          app' = schedule_restart f64_powi now' (Completed 0) (from_millis 1000) settled
      in stopped_with_deadline app
       \<and> a_state app' = Stopped (Some \<lparr>le_cause = Completed 0, le_restart_deadline = None\<rparr>))"

definition consecutive_failures_reset_on_success :: "(f64 \<Rightarrow> int \<Rightarrow> f64) \<Rightarrow> circ_buffer \<Rightarrow> (nat \<Rightarrow> instant) \<Rightarrow> bool" where
  "consecutive_failures_reset_on_success f64_powi buf now \<longleftrightarrow>
     (let policy = \<lparr>on_success = restart_delay_default, on_error = ExponentialBackoff 10 1000 (Fin 2), reset_after_ms = 60000,
                    max_restart_attempts = None\<rparr>;
          app1 = schedule_restart f64_powi (now 0) (Abnormal 6) (from_millis 10) (make_app buf policy);
          app2 = schedule_restart f64_powi (now 1) (Abnormal 6) (from_millis 10) (app1\<lparr>a_state := Stopped None\<rparr>);
          app3 = schedule_restart f64_powi (now 2) (Completed 0) (from_millis 1000) (app2\<lparr>a_state := Stopped None\<rparr>)
      in st_consecutive_failures (a_stats app1) = 1 \<and> st_consecutive_failures (a_stats app2) = 2
       \<and> st_consecutive_failures (a_stats app3) = 0)"

definition consecutive_failures_reset_after_long_enough_uptime :: "(f64 \<Rightarrow> int \<Rightarrow> f64) \<Rightarrow> circ_buffer \<Rightarrow> (nat \<Rightarrow> instant) \<Rightarrow> bool" where
  "consecutive_failures_reset_after_long_enough_uptime f64_powi buf now \<longleftrightarrow>
     (let policy = \<lparr>on_success = restart_delay_default, on_error = restart_delay_default, reset_after_ms = 1000,
                    max_restart_attempts = None\<rparr>;
          app1 = schedule_restart f64_powi (now 0) (Completed 1) (from_millis 500) (make_app buf policy);
          app2 = schedule_restart f64_powi (now 1) (Completed 1) (from_millis 2000) (app1\<lparr>a_state := Stopped None\<rparr>)
      in st_consecutive_failures (a_stats app1) = 1 \<and> st_consecutive_failures (a_stats app2) = 1)"

definition max_restart_attempts_stops_scheduling_further_restarts :: "(f64 \<Rightarrow> int \<Rightarrow> f64) \<Rightarrow> circ_buffer \<Rightarrow> (nat \<Rightarrow> instant) \<Rightarrow> bool" where
  "max_restart_attempts_stops_scheduling_further_restarts f64_powi buf now \<longleftrightarrow>
     (let policy = \<lparr>on_success = restart_delay_default, on_error = Constant 0, reset_after_ms = 60000, max_restart_attempts = Some 2\<rparr>;
          app1 = schedule_restart f64_powi (now 0) (Completed 1) 0 (make_app buf policy);
          app2 = schedule_restart f64_powi (now 1) (Completed 1) 0 (app1\<lparr>a_state := Stopped None\<rparr>);
          app3 = schedule_restart f64_powi (now 2) (Completed 1) 0 (app2\<lparr>a_state := Stopped None\<rparr>)
      in stopped_with_deadline app1 \<and> stopped_with_deadline app2
       \<and> st_consecutive_failures (a_stats app3) = 3 \<and> (case a_state app3 of Stopped _ \<Rightarrow> True | _ \<Rightarrow> False))"

text \<open>The environment and the context stand for the \<open>Poll\<close> and the token slab of the test.\<close>

definition maybe_restart_waits_for_its_deadline :: "'s env \<Rightarrow> 's ctx \<Rightarrow> circ_buffer \<Rightarrow> instant \<Rightarrow> instant \<Rightarrow> bool" where
  "maybe_restart_waits_for_its_deadline E c buf now now' \<longleftrightarrow>
     (let policy = \<lparr>on_success = restart_delay_default, on_error = Constant 60000, reset_after_ms = 60000, max_restart_attempts = None\<rparr>;
          app = schedule_restart (env_powi E) now (Abnormal 9) 0 (make_app buf policy)
      in case pending_restart_deadline app of
           None \<Rightarrow> False
         | Some deadline \<Rightarrow> pending_restart_deadline (fst (snd (maybe_restart E now' True app c))) = Some deadline)"

definition maybe_restart_cancelled_on_shutdown :: "'s env \<Rightarrow> 's ctx \<Rightarrow> circ_buffer \<Rightarrow> instant \<Rightarrow> instant \<Rightarrow> bool" where
  "maybe_restart_cancelled_on_shutdown E c buf now now' \<longleftrightarrow>
     (let policy = \<lparr>on_success = restart_delay_default, on_error = Constant 60000, reset_after_ms = 60000, max_restart_attempts = None\<rparr>;
          app = schedule_restart (env_powi E) now (Abnormal 9) 0 (make_app buf policy);
          app' = fst (snd (maybe_restart E now' False app c))
      in pending_restart_deadline app \<noteq> None
       \<and> pending_restart_deadline app' = None
       \<and> a_state app' = Stopped (Some \<lparr>le_cause = Abnormal 9, le_restart_deadline = None\<rparr>))"

section \<open>The tests pass\<close>

text \<open>What a scheduled restart leaves, field by field.\<close>

lemma schedule_failures:
  "st_consecutive_failures (a_stats (schedule_restart f64_powi now rs uptime a)) =
     (if rs = Completed 0 then 0
      else (if from_millis (reset_after_ms (ap_restart (a_params a))) \<le> uptime then 0 else st_consecutive_failures (a_stats a)) + 1)"
  by (simp add: schedule_restart_def Let_def)

lemma schedule_params: "a_params (schedule_restart f64_powi now rs uptime a) = a_params a"
  by (simp add: schedule_restart_def Let_def)

lemma schedule_state:
  "a_state (schedule_restart f64_powi now rs uptime a) =
     (let failures = st_consecutive_failures (a_stats (schedule_restart f64_powi now rs uptime a));
          policy = ap_restart (a_params a);
          strategy = (if rs = Completed 0 then on_success policy else on_error policy)
      in if (case max_restart_attempts policy of Some m \<Rightarrow> m < failures | None \<Rightarrow> False) \<or> is_never strategy then a_state a
         else Stopped (Some \<lparr>le_cause = rs, le_restart_deadline = Some (now + delay_for f64_powi strategy (max failures 1))\<rparr>))"
  by (cases "max_restart_attempts (ap_restart (a_params a))"; cases "rs = Completed 0";
      cases "from_millis (reset_after_ms (ap_restart (a_params a))) \<le> uptime") (simp_all add: schedule_restart_def Let_def)

lemma make_app_fields:
  "a_params (make_app buf restart) = make_params restart" "a_state (make_app buf restart) = Stopped None"
  "st_consecutive_failures (a_stats (make_app buf restart)) = 0" "ap_restart (make_params restart) = restart"
  by (simp_all add: make_app_def make_params_def app_runtime_stats_default_def)

lemmas restart_test = Let_def schedule_failures schedule_params schedule_state make_app_fields pending_deadline_def
  stopped_with_deadline_def from_millis_def

lemma strategy_test:
  "before \<le> now \<Longrightarrow> now < before + from_millis 400 \<Longrightarrow> before' \<le> now' \<Longrightarrow>
     schedule_restart_uses_success_or_error_strategy f64_powi buf before now before' now'"
  by (simp add: schedule_restart_uses_success_or_error_strategy_def restart_test)

lemma failure_only_test: "restart_on_failure_only_stops_after_success f64_powi buf now now'"
  by (simp add: restart_on_failure_only_stops_after_success_def restart_test)

lemma failures_tests:
  "consecutive_failures_reset_on_success f64_powi buf clock"
  "consecutive_failures_reset_after_long_enough_uptime f64_powi buf clock"
  "max_restart_attempts_stops_scheduling_further_restarts f64_powi buf clock"
  by (simp_all add: consecutive_failures_reset_on_success_def consecutive_failures_reset_after_long_enough_uptime_def
      max_restart_attempts_stops_scheduling_further_restarts_def restart_test)

lemma maybe_restart_tests:
  "late < now + from_millis 60000 \<Longrightarrow> maybe_restart_waits_for_its_deadline E c buf now late"
  "maybe_restart_cancelled_on_shutdown E c buf now now'"
  by (simp_all add: maybe_restart_waits_for_its_deadline_def maybe_restart_cancelled_on_shutdown_def maybe_restart_def
      pending_restart_deadline_def stopped_with_cause_def restart_test)

text \<open>
  The model passes the tests of the restart machinery, every assertion of them, whatever
  \<open>powi\<close>, provided that the first call takes less than 400 ms and the one that waits for its
  deadline comes within the minute: the two the tests themselves rely on.
\<close>

theorem runtime_tests_pass:
  assumes "before \<le> now" and "now < before + from_millis 400" and "before' \<le> now'" and "late < now + from_millis 60000"
  shows "schedule_restart_uses_success_or_error_strategy f64_powi buf before now before' now'
    \<and> restart_on_failure_only_stops_after_success f64_powi buf now now'
    \<and> consecutive_failures_reset_on_success f64_powi buf clock
    \<and> consecutive_failures_reset_after_long_enough_uptime f64_powi buf clock
    \<and> max_restart_attempts_stops_scheduling_further_restarts f64_powi buf clock
    \<and> maybe_restart_waits_for_its_deadline E c buf now late
    \<and> maybe_restart_cancelled_on_shutdown E c buf now now'"
  using assms by (intro conjI strategy_test failure_only_test failures_tests maybe_restart_tests)

lemma runtime_tests_pass_witness:
  "\<forall>buf c. maybe_restart_waits_for_its_deadline sample_env c buf 7 8
   \<and> schedule_restart_uses_success_or_error_strategy (\<lambda>_ _. NaN) buf 5 7 9 9"
  using runtime_tests_pass [of 5 7 9 9 8 "\<lambda>_ _. NaN"] by (auto simp: from_millis_def)

end
