(* ===== verification/Spec2Isabelle.thy ===== *)
theory Spec2Isabelle
  imports Commands Configured LogBuffer_Correct Log_Buffers Lifecycle Mmap_Slices Descriptors Address_Space
    Config_Tests Runtime_Tests
begin

text \<open>
  A verification library for \<open>lway\<close>, a supervisor of Linux processes written in Rust
  (\<open>src/src\<close>). One binary is both the daemon, which starts the configured apps, captures their
  output, restarts them and answers on two Unix sockets, and the client of these sockets.

  \<^bold>\<open>How the program works.\<close> \<open>main.rs\<close> reads the configuration (\<open>config.rs\<close>,
  \<open>parser.rs\<close>), creates an \<open>App\<close> (\<open>runtime.rs\<close>) per entry and runs one event loop over
  \<open>mio\<close>. Every registered descriptor has a token of one allocator (\<open>mio_token_slab.rs\<close>); an
  event is dispatched by its token to the signal descriptor, a listener, a control connection
  (\<open>ipc.rs\<close>), a log connection (\<open>log_ipc.rs\<close>) or to the apps. An app that is up owns an
  \<open>AppRuntime\<close>: the process, its cgroup (\<open>cgroups.rs\<close>), the read ends of its output pipes
  (\<open>pipe.rs\<close>) and three tokens. Its output is spliced into a circular buffer over a doubly mapped
  memfd (\<open>log_buffer.rs\<close>, \<open>mmap.rs\<close>), which log connections read by cursor. When the process
  ends, the pipes are drained, everything is released, and the policy (\<open>restart.rs\<close>) decides
  whether and when a restart is due. Each turn of the loop polls, dispatches the events, pushes new
  output to followers, fires the restarts that are due, forwards SIGINT and tests whether it is
  done. The client (\<open>cli/\<close>) sends one request per invocation and prints the answer.

  \<^bold>\<open>Theories and code.\<close>

  \<^item> \<open>Prelude\<close>, \<open>Strings\<close>, \<open>F64\<close>: what the code uses of Rust and its library. Outcomes
    (\<open>Ok\<close>, \<open>Err\<close>, \<open>Panic\<close>), words of the source's width, \<open>usize\<close> with its
    wrap-around, strings as UTF-8 bytes, binary64 with rounding to nearest even.
  \<^item> \<open>Kernel\<close>: pipes and stream sockets, as records whose fields answer for the kernel;
    \<open>splice\<close>, \<open>read\<close> and \<open>write\<close> on them.
  \<^item> \<open>TokenSlab\<close> (\<open>support/mio_token_slab.rs\<close>): \<open>allocate\<close> and \<open>free\<close> over the
    \<open>slab\<close> crate, the parameter \<open>slab_api\<close> with its documented laws (\<open>slab_laws\<close>); the
    locale \<open>token_allocator\<close> is what the rest relies on.
  \<^item> \<open>Mmap\<close>, \<open>Mmap_Slices\<close>, \<open>Address_Space\<close> (\<open>support/mmap.rs\<close>): a file seen twice in a row;
    shared and mutable slices; the mapping in the address space of the process, from \<open>new\<close> to
    \<open>drop\<close>.
  \<^item> \<open>LogBuffer\<close>, \<open>LogBuffer_Correct\<close> (\<open>support/log_buffer.rs\<close>, the traits of
    \<open>logger.rs\<close>): the ring. Its specification is the unbounded history of all bytes written
    (\<open>ring_holds\<close>); the locale \<open>log_source\<close> is the reader's contract. \<open>Log_Buffers\<close>: the
    buffers no app uses and the traits' default methods; the locale \<open>log_buffer\<close> is what every
    buffer promises the caller of \<open>splice_from\<close>.
  \<^item> \<open>Descriptors\<close> (\<open>support/pipe.rs\<close> and the descriptors of \<open>runtime.rs\<close>): the descriptor
    tables of the daemon and of the programs it starts; pipes as pairs of descriptors. The rest of
    the model has the same pipes as bytes with a reader (\<open>Kernel\<close>), and the calls of the child
    as a list (\<open>setup_child\<close>).
  \<^item> \<open>Restart\<close> (\<open>restart.rs\<close>), \<open>Cgroups\<close> (\<open>cgroups.rs\<close>), \<open>Signals\<close>
    (\<open>support/signal.rs\<close>).
  \<^item> \<open>AppRuntime\<close>, \<open>App\<close> (\<open>runtime.rs\<close>): the process and the app. \<open>env\<close> answers for
    everything outside, \<open>ctx\<close> is the state operations share (the allocator, the number of
    interactions, the trace of system calls). \<open>App_Samples\<close> is a concrete run of one app.
  \<^item> \<open>Protocol\<close> (\<open>protocol.rs\<close>), \<open>Ipc\<close> (\<open>ipc.rs\<close>), \<open>LogIpc\<close> (\<open>log_ipc.rs\<close>).
  \<^item> \<open>Serde\<close>: what \<open>derive(Serialize, Deserialize)\<close> makes of a declaration, with the attributes
    the source uses, over any format (\<open>deserializer\<close>). \<open>Config_Serde\<close> and \<open>Protocol_Serde\<close>: the
    readers and writers derived for the configuration and for the messages (\<open>ser_\<close> and \<open>de_\<close>
    before the name of the type); \<open>json_codec\<close> is the codec they make of a JSON text, of which
    \<open>json_laws\<close> is asked. \<open>Json_Text\<close> is a JSON text that satisfies them, \<open>Codec_Sample\<close> a codec
    that satisfies \<open>codec_laws\<close>.
  \<^item> \<open>Config\<close> (\<open>config.rs\<close>, \<open>parser.rs\<close>, \<open>support/uidgid.rs\<close>), \<open>Supervisor\<close> (the
    event loop of \<open>main.rs\<close>), \<open>Cli\<close> (\<open>cli/\<close>), \<open>Entry\<close> (\<open>main\<close> and the binding of the
    sockets).
  \<^item> \<open>Unit_Tests\<close>, \<open>Config_Tests\<close>, \<open>Runtime_Tests\<close>, and the end of \<open>Address_Space\<close>: the unit
    tests of \<open>restart.rs\<close>, \<open>parser.rs\<close>, \<open>config.rs\<close>, \<open>mmap.rs\<close> and \<open>runtime_tests.rs\<close>, as
    truth values under the names of the source.

  A struct is a record with the fields of the source under a prefix, a Rust enum a datatype, a
  \<open>HashMap\<close> an association list with distinct keys, \<open>&mut\<close> arguments are passed and returned.
  Errors are values; where the code would panic, so does the model.

  \<^bold>\<open>What is proved.\<close>

  \<^item> \<open>App_Correct\<close>: the invariant \<open>app_inv\<close> of an app in every state it reaches
    (\<open>app_reach\<close>, by rule induction over \<open>app_step\<close>), what a stop, an exit and an output
    event do, when restarts happen and when they end. \<open>Lifecycle\<close>: the app refines an abstract
    automaton of phases; the locale \<open>simulation\<close> lifts the step to runs.
  \<^item> \<open>Ownership\<close>, \<open>Control_Ownership\<close>: who owns which token. \<open>transfers\<close> is the contract
    of every operation towards the other owners; the locales \<open>app_operation\<close> and
    \<open>table_operation\<close> state it, and every operation of the apps and the servers interprets them.
  \<^item> \<open>Panic_Freedom\<close>, \<open>Server_Safety\<close>, \<open>Daemon_Safety\<close>: no operation panics while the kernel
    does its part (\<open>world\<close>), in any state of \<open>daemon_reach\<close>; the invariant \<open>daemon_inv\<close>
    of the whole daemon.
  \<^item> \<open>Supervisor_Correct\<close>: tokens, routing, timers, shutdown. \<open>Ipc_Correct\<close>,
    \<open>LogIpc_Correct\<close>: requests and responses, streams of log bytes. \<open>Cli_Correct\<close>: the client
    against the servers, and what it prints.
  \<^item> \<open>Configured\<close>: from the configuration to the programs executed; the locale
    \<open>param_operation\<close> is the contract of an operation that leaves the parameters of an app alone.
    \<open>Descriptors\<close>: who holds which end of which pipe after any number of starts, and what programs
    inherit. \<open>Mmap_Slices\<close>, \<open>Address_Space\<close>: that the unsafe slices of the mapping are sound, and
    that it is given back.
  \<^item> \<open>Config_Serde\<close>, \<open>Protocol_Serde\<close>: what is written is read back, for every faithful format
    (\<open>presents\<close>). \<open>Formats\<close>: the configuration means the same in every format. The theories of
    tests: the model passes them.
  \<^item> \<open>Entry_Correct\<close>, \<open>Commands\<close>: the program from its start to its end, and commands from the
    command line through client, socket, server and app back to the output.

  \<^bold>\<open>Bounds.\<close> No definition takes fuel. The loops over reads, writes, splices and the wait for an
  empty cgroup terminate by measures (bytes pending, room left, time left). The event loop itself,
  which may run for ever, is a function of the list of turns it makes (\<open>daemon_loop\<close>), so its
  properties hold for runs of every length; accepted connections and events come as lists too.
  Buffer offsets are below \<open>2 ^ 64\<close>: a ring holds less than that in its lifetime
  (\<open>log_room\<close>).

  \<^bold>\<open>Not modelled.\<close> The crates (\<open>mio\<close>, \<open>slab\<close>, \<open>clap\<close>, \<open>cgroups_rs\<close>, and of \<open>serde_json\<close> and
  \<open>serde_yaml\<close> the syntax) and the kernel, which are parameters or, for pipes, sockets, descriptor
  tables and address spaces, records with the documented behaviour; the text written to the log;
  \<open>Display\<close> for debugging; accessors that return a field or a descriptor; the example and
  \<open>pid.rs\<close>. \<open>Address_Space\<close> follows one mapping; the ring of an app (\<open>LogBuffer\<close>) has the same
  mapping by its contents, and its release when the daemon exits is the kernel's.
\<close>

end
